(* ===== verification/Vhci_Prelude.thy ===== *)
theory Vhci_Prelude
  imports Main "HOL-Library.Word" "HOL-Library.Monad_Syntax"
begin

text \<open>
  Shared vocabulary of the development: the C integer types as words, the C++ exceptions
  the library throws, the \<open>errno\<close> numbers it uses, bit-mask lemmas, and a bounded
  \<open>for\<close> loop with its invariant rule.

  Conventions. A value of type \<open>'a option\<close> returned by a state-changing definition is
  \<open>None\<close> exactly where the C or C++ code has undefined behaviour (a null or dangling
  pointer is dereferenced, a block is freed twice, an index is out of bounds). A C++ exception
  is a value \<open>Inl e\<close> of the sum type \<open>exn + 'a\<close>.
\<close>

unbundle bit_operations_syntax

section \<open>Integer types\<close>

type_synonym u8 = "8 word"
type_synonym u16 = "16 word"
type_synonym u32 = "32 word"
type_synonym u64 = "64 word"
type_synonym i16 = "16 word"
type_synonym i32 = "32 word"

section \<open>C++ exceptions\<close>

datatype exn =
    InvalidArgument string
  | OutOfRange string
  | LogicError string
  | BadAlloc
  | StdException

section \<open>The errno numbers of Linux that the library names\<close>

abbreviation ENOENT :: i32 where "ENOENT \<equiv> 2"
abbreviation EINTR :: i32 where "EINTR \<equiv> 4"
abbreviation ENOMEM :: i32 where "ENOMEM \<equiv> 12"
abbreviation EXDEV :: i32 where "EXDEV \<equiv> 18"
abbreviation ENODEV :: i32 where "ENODEV \<equiv> 19"
abbreviation EINVAL :: i32 where "EINVAL \<equiv> 22"
abbreviation EPIPE :: i32 where "EPIPE \<equiv> 32"
abbreviation ENODATA :: i32 where "ENODATA \<equiv> 61"
abbreviation ETIME :: i32 where "ETIME \<equiv> 62"
abbreviation ENOSR :: i32 where "ENOSR \<equiv> 63"
abbreviation ECOMM :: i32 where "ECOMM \<equiv> 70"
abbreviation EPROTO :: i32 where "EPROTO \<equiv> 71"
abbreviation EBADMSG :: i32 where "EBADMSG \<equiv> 74"
abbreviation EOVERFLOW :: i32 where "EOVERFLOW \<equiv> 75"
abbreviation EILSEQ :: i32 where "EILSEQ \<equiv> 84"
abbreviation ECONNRESET :: i32 where "ECONNRESET \<equiv> 104"
abbreviation ESHUTDOWN :: i32 where "ESHUTDOWN \<equiv> 108"
abbreviation ETIMEDOUT :: i32 where "ETIMEDOUT \<equiv> 110"
abbreviation EINPROGRESS :: i32 where "EINPROGRESS \<equiv> 115"
abbreviation EREMOTEIO :: i32 where "EREMOTEIO \<equiv> 121"
abbreviation ECANCELED :: i32 where "ECANCELED \<equiv> 125"

section \<open>Named collections\<close>

named_theorems heap_simps \<open>how the heap looks after an operation\<close>
named_theorems frame_simps \<open>state components an operation leaves alone\<close>

section \<open>Bit masks\<close>

text \<open>
  The library tests and writes flag bits with \<open>w & m\<close> and
  \<open>(w & ~m) | (v ? m : 0)\<close>.
\<close>

definition has_mask :: "'a::len word \<Rightarrow> 'a word \<Rightarrow> bool" where
  "has_mask w m \<longleftrightarrow> w AND m \<noteq> 0"

definition put_mask :: "bool \<Rightarrow> 'a::len word \<Rightarrow> 'a word \<Rightarrow> 'a word" where
  "put_mask v m w = (w AND NOT m) OR (if v then m else 0)"

lemma put_mask_and: "put_mask v m w AND m = (if v then m else 0)"
  by (simp add: put_mask_def bit_eq_iff bit_simps) blast

lemma put_mask_and_disjoint: "m AND n = 0 \<Longrightarrow> put_mask v m w AND n = w AND n"
  by (auto simp: put_mask_def bit_eq_iff bit_simps)

lemma has_mask_put_same [simp]: "m \<noteq> 0 \<Longrightarrow> has_mask (put_mask v m w) m = v"
  by (simp add: has_mask_def put_mask_and)

lemma has_mask_put_other: "m AND n = 0 \<Longrightarrow> has_mask (put_mask v m w) n = has_mask w n"
  by (simp add: has_mask_def put_mask_and_disjoint)

lemma put_mask_put_mask [simp]: "put_mask v m (put_mask u m w) = put_mask v m w"
  by (auto simp: put_mask_def bit_eq_iff bit_simps)

lemma has_mask_zero [simp]: "\<not> has_mask 0 m" "\<not> has_mask w 0"
  by (simp_all add: has_mask_def)

lemma has_mask_or: "has_mask (v OR w) m \<longleftrightarrow> has_mask v m \<or> has_mask w m"
  by (auto simp: has_mask_def bit_eq_iff bit_simps)

text \<open>A mask with one bit can be put back from what was read.\<close>

definition single_bit :: "'a::len word \<Rightarrow> bool" where
  "single_bit m \<longleftrightarrow> (\<exists>n < LENGTH('a). m = 2 ^ n)"

lemma bit_two_power:
  "n < LENGTH('a) \<Longrightarrow> bit (2 ^ n :: 'a::len word) i \<longleftrightarrow> i = n"
  by (auto simp: bit_exp_iff)

lemma single_bit_nonzero [simp]: "single_bit m \<Longrightarrow> m \<noteq> 0"
  by (auto simp: single_bit_def)

lemma put_mask_has_mask:
  fixes w m :: "'a::len word"
  assumes "single_bit m" shows "put_mask (has_mask w m) m w = w"
proof -
  obtain n where n: "n < LENGTH('a)" "m = 2 ^ n"
    using assms by (auto simp: single_bit_def)
  have m: "bit m i \<longleftrightarrow> i = n" for i
    unfolding n(2) using n(1) by (rule bit_two_power)
  have "has_mask w m \<longleftrightarrow> bit w n"
    using n(1) by (auto simp: has_mask_def bit_eq_iff [where 'a = "'a word"] bit_and_iff m)
  then show ?thesis
    by (auto simp: put_mask_def bit_eq_iff [where 'a = "'a word"] bit_and_iff bit_or_iff bit_not_iff m)
qed

section \<open>Bounded for loops\<close>

text \<open>
  \<open>for(int i = lo; i < n; i++) body\<close>, where the body may fault.
\<close>

function for_upto :: "nat \<Rightarrow> nat \<Rightarrow> (nat \<Rightarrow> 's \<Rightarrow> 's option) \<Rightarrow> 's \<Rightarrow> 's option" where
  "for_upto i n body s =
     (if i < n then do { s' \<leftarrow> body i s; for_upto (Suc i) n body s' } else Some s)"
  by pat_completeness auto
termination
  by (relation "measure (\<lambda>(i, n, _). n - i)") auto

declare for_upto.simps [simp del]

lemma for_upto_done [simp]: "n \<le> i \<Longrightarrow> for_upto i n body s = Some s"
  by (simp add: for_upto.simps)

lemma for_upto_step [simp]:
  "i < n \<Longrightarrow> for_upto i n body s = Option.bind (body i s) (for_upto (Suc i) n body)"
  by (simp add: for_upto.simps [of i n])

text \<open>What every round of a loop leaves alone, the loop leaves alone.\<close>

lemma for_upto_preserves:
  assumes "\<And>i s t. body i s = Some t \<Longrightarrow> f t = f s" "for_upto i n body s = Some t"
  shows "f t = f s"
  using assms(2)
proof (induction "n - i" arbitrary: i s)
  case (Suc d)
  then have "i < n" by simp
  then obtain s1 where "body i s = Some s1" "for_upto (Suc i) n body s1 = Some t"
    using Suc.prems by (auto simp: Option.bind_eq_Some_conv)
  moreover from this Suc.hyps(2) have "f t = f s1" by (intro Suc.hyps(1)) simp_all
  ultimately show ?case using assms(1) by metis
qed simp

lemma for_upto_rule:
  assumes step: "\<And>j t. i \<le> j \<Longrightarrow> j < n \<Longrightarrow> I j t \<Longrightarrow> \<exists>t'. body j t = Some t' \<and> I (Suc j) t'"
    and "I i s" and "i \<le> n"
  shows "\<exists>s'. for_upto i n body s = Some s' \<and> I n s'"
  using assms
proof (induction "n - i" arbitrary: i s)
  case 0
  then show ?case by simp
next
  case (Suc d)
  then have "i < n" by simp
  with Suc.prems obtain s1 where s1: "body i s = Some s1" "I (Suc i) s1"
    by blast
  have "\<exists>s'. for_upto (Suc i) n body s1 = Some s' \<and> I n s'"
    using Suc.hyps(2) \<open>i < n\<close> s1(2) Suc.prems(1) by (intro Suc.hyps(1)) auto
  with s1(1) \<open>i < n\<close> show ?case by simp
qed

lemma bind_Some_D:
  "Option.bind m f = Some y \<Longrightarrow> \<exists>x. m = Some x \<and> f x = Some y"
  by (simp add: Option.bind_eq_Some_conv)

end
