(* ===== verification/Status_Codes.thy ===== *)
theory Status_Codes
  imports Vhci_Prelude
begin

text \<open>
  The URB status codes of \<^verbatim>\<open>libusb_vhci.h\<close> and their conversion to and from the
  negative \<open>errno\<close> numbers the kernel uses (\<^verbatim>\<open>usb_vhci_to_errno\<close>,
  \<^verbatim>\<open>usb_vhci_from_errno\<close> and the two variants for isochronous packets in
  \<^verbatim>\<open>libusb_vhci.c\<close>). Both functions are total on 32-bit values; the theorems
  characterise both compositions for every one of them.
\<close>

section \<open>Status codes\<close>

definition USB_VHCI_STATUS_SUCCESS :: i32 where
  [simp]: "USB_VHCI_STATUS_SUCCESS = 0x00000000"
definition USB_VHCI_STATUS_PENDING :: i32 where
  [simp]: "USB_VHCI_STATUS_PENDING = 0x10000001"
definition USB_VHCI_STATUS_SHORT_PACKET :: i32 where
  [simp]: "USB_VHCI_STATUS_SHORT_PACKET = 0x10000002"
definition USB_VHCI_STATUS_ERROR :: i32 where
  [simp]: "USB_VHCI_STATUS_ERROR = 0x7ff00000"
definition USB_VHCI_STATUS_CANCELED :: i32 where
  [simp]: "USB_VHCI_STATUS_CANCELED = 0x30000001"
definition USB_VHCI_STATUS_TIMEDOUT :: i32 where
  [simp]: "USB_VHCI_STATUS_TIMEDOUT = 0x30000002"
definition USB_VHCI_STATUS_DEVICE_DISABLED :: i32 where
  [simp]: "USB_VHCI_STATUS_DEVICE_DISABLED = 0x71000001"
definition USB_VHCI_STATUS_DEVICE_DISCONNECTED :: i32 where
  [simp]: "USB_VHCI_STATUS_DEVICE_DISCONNECTED = 0x71000002"
definition USB_VHCI_STATUS_BIT_STUFF :: i32 where
  [simp]: "USB_VHCI_STATUS_BIT_STUFF = 0x72000001"
definition USB_VHCI_STATUS_CRC :: i32 where
  [simp]: "USB_VHCI_STATUS_CRC = 0x72000002"
definition USB_VHCI_STATUS_NO_RESPONSE :: i32 where
  [simp]: "USB_VHCI_STATUS_NO_RESPONSE = 0x72000003"
definition USB_VHCI_STATUS_BABBLE :: i32 where
  [simp]: "USB_VHCI_STATUS_BABBLE = 0x72000004"
definition USB_VHCI_STATUS_STALL :: i32 where
  [simp]: "USB_VHCI_STATUS_STALL = 0x74000001"
definition USB_VHCI_STATUS_BUFFER_OVERRUN :: i32 where
  [simp]: "USB_VHCI_STATUS_BUFFER_OVERRUN = 0x72100001"
definition USB_VHCI_STATUS_BUFFER_UNDERRUN :: i32 where
  [simp]: "USB_VHCI_STATUS_BUFFER_UNDERRUN = 0x72100002"
definition USB_VHCI_STATUS_ALL_ISO_PACKETS_FAILED :: i32 where
  [simp]: "USB_VHCI_STATUS_ALL_ISO_PACKETS_FAILED = 0x78000001"

section \<open>Conversions\<close>

definition usb_vhci_to_errno :: "i32 \<Rightarrow> u8 \<Rightarrow> i32" where
  "usb_vhci_to_errno status iso_urb =
     (if status = USB_VHCI_STATUS_SUCCESS then 0
      else if status = USB_VHCI_STATUS_PENDING then - EINPROGRESS
      else if status = USB_VHCI_STATUS_SHORT_PACKET then - EREMOTEIO
      else if status = USB_VHCI_STATUS_ERROR then (if iso_urb \<noteq> 0 then - EXDEV else - EPROTO)
      else if status = USB_VHCI_STATUS_CANCELED then - ECONNRESET
      else if status = USB_VHCI_STATUS_TIMEDOUT then - ETIMEDOUT
      else if status = USB_VHCI_STATUS_DEVICE_DISABLED then - ESHUTDOWN
      else if status = USB_VHCI_STATUS_DEVICE_DISCONNECTED then - ENODEV
      else if status = USB_VHCI_STATUS_BIT_STUFF then - EPROTO
      else if status = USB_VHCI_STATUS_CRC then - EILSEQ
      else if status = USB_VHCI_STATUS_NO_RESPONSE then - ETIME
      else if status = USB_VHCI_STATUS_BABBLE then - EOVERFLOW
      else if status = USB_VHCI_STATUS_STALL then - EPIPE
      else if status = USB_VHCI_STATUS_BUFFER_OVERRUN then - ECOMM
      else if status = USB_VHCI_STATUS_BUFFER_UNDERRUN then - ENOSR
      else if status = USB_VHCI_STATUS_ALL_ISO_PACKETS_FAILED
           then (if iso_urb \<noteq> 0 then - EINVAL else - EPROTO)
      else - EPROTO)"

text \<open>
  The parameter is called \<open>errno\<close> in the source; the model follows its declared type
  \<^verbatim>\<open>int\<close>.
\<close>

definition usb_vhci_from_errno :: "i32 \<Rightarrow> u8 \<Rightarrow> i32" where
  "usb_vhci_from_errno err iso_urb =
     (if err = 0 then USB_VHCI_STATUS_SUCCESS
      else if err = - EINPROGRESS then USB_VHCI_STATUS_PENDING
      else if err = - EREMOTEIO then USB_VHCI_STATUS_SHORT_PACKET
      else if err = - ENOENT \<or> err = - ECONNRESET then USB_VHCI_STATUS_CANCELED
      else if err = - ETIMEDOUT then USB_VHCI_STATUS_TIMEDOUT
      else if err = - ESHUTDOWN then USB_VHCI_STATUS_DEVICE_DISABLED
      else if err = - ENODEV then USB_VHCI_STATUS_DEVICE_DISCONNECTED
      else if err = - EPROTO then USB_VHCI_STATUS_BIT_STUFF
      else if err = - EILSEQ then USB_VHCI_STATUS_CRC
      else if err = - ETIME then USB_VHCI_STATUS_NO_RESPONSE
      else if err = - EOVERFLOW then USB_VHCI_STATUS_BABBLE
      else if err = - EPIPE then USB_VHCI_STATUS_STALL
      else if err = - ECOMM then USB_VHCI_STATUS_BUFFER_OVERRUN
      else if err = - ENOSR then USB_VHCI_STATUS_BUFFER_UNDERRUN
      else if err = - EINVAL
           then (if iso_urb \<noteq> 0 then USB_VHCI_STATUS_ALL_ISO_PACKETS_FAILED
                 else USB_VHCI_STATUS_ERROR)
      else USB_VHCI_STATUS_ERROR)"

definition usb_vhci_to_iso_packets_errno :: "i32 \<Rightarrow> i32" where
  "usb_vhci_to_iso_packets_errno status = usb_vhci_to_errno status 0"

definition usb_vhci_from_iso_packets_errno :: "i32 \<Rightarrow> i32" where
  "usb_vhci_from_iso_packets_errno err = usb_vhci_from_errno err 0"

section \<open>What the conversions lose\<close>

text \<open>
  The status codes that keep their meaning in every URB, those that keep it only in
  isochronous URBs, and the \<open>errno\<close> values the conversions know.
\<close>

definition plain_statuses :: "i32 list" where
  "plain_statuses =
     [USB_VHCI_STATUS_SUCCESS, USB_VHCI_STATUS_PENDING, USB_VHCI_STATUS_SHORT_PACKET,
      USB_VHCI_STATUS_CANCELED, USB_VHCI_STATUS_TIMEDOUT, USB_VHCI_STATUS_DEVICE_DISABLED,
      USB_VHCI_STATUS_DEVICE_DISCONNECTED, USB_VHCI_STATUS_BIT_STUFF, USB_VHCI_STATUS_CRC,
      USB_VHCI_STATUS_NO_RESPONSE, USB_VHCI_STATUS_BABBLE, USB_VHCI_STATUS_STALL,
      USB_VHCI_STATUS_BUFFER_OVERRUN, USB_VHCI_STATUS_BUFFER_UNDERRUN]"

definition iso_statuses :: "i32 list" where
  "iso_statuses = [USB_VHCI_STATUS_ERROR, USB_VHCI_STATUS_ALL_ISO_PACKETS_FAILED]"

definition plain_errnos :: "i32 list" where
  "plain_errnos = map uminus
     [0, EINPROGRESS, EREMOTEIO, ECONNRESET, ETIMEDOUT, ESHUTDOWN, ENODEV, EPROTO, EILSEQ,
      ETIME, EOVERFLOW, EPIPE, ECOMM, ENOSR]"

lemmas status_lists = plain_statuses_def iso_statuses_def plain_errnos_def

lemma to_errno_plain_nonzero:
  "s \<noteq> USB_VHCI_STATUS_SUCCESS \<Longrightarrow> usb_vhci_to_errno s iu <s 0"
  by (simp add: usb_vhci_to_errno_def word_sless_alt)

lemma to_errno_unknown:
  "s \<notin> set plain_statuses \<Longrightarrow> s \<notin> set iso_statuses \<Longrightarrow> usb_vhci_to_errno s iu = - EPROTO"
  by (simp add: usb_vhci_to_errno_def status_lists)

lemma roundtrip_plain_all:
  "list_all (\<lambda>s. usb_vhci_from_errno (usb_vhci_to_errno s iu) iu = s) plain_statuses"
  by (simp add: plain_statuses_def usb_vhci_to_errno_def usb_vhci_from_errno_def)

lemma roundtrip_plain:
  "s \<in> set plain_statuses \<Longrightarrow> usb_vhci_from_errno (usb_vhci_to_errno s iu) iu = s"
  using roundtrip_plain_all by (simp add: list_all_iff)

lemma roundtrip_iso_all:
  "list_all (\<lambda>s. usb_vhci_from_errno (usb_vhci_to_errno s iu) iu =
     (if iu \<noteq> 0 then s else USB_VHCI_STATUS_BIT_STUFF)) iso_statuses"
  by (simp add: iso_statuses_def usb_vhci_to_errno_def usb_vhci_from_errno_def)

lemma roundtrip_iso:
  "s \<in> set iso_statuses \<Longrightarrow>
   usb_vhci_from_errno (usb_vhci_to_errno s iu) iu =
     (if iu \<noteq> 0 then s else USB_VHCI_STATUS_BIT_STUFF)"
  using roundtrip_iso_all by (simp only: list_all_iff)

lemma plain_not_iso: "s \<in> set plain_statuses \<Longrightarrow> s \<notin> set iso_statuses"
proof -
  have "list_all (\<lambda>s. s \<notin> set iso_statuses) plain_statuses"
    by (simp add: plain_statuses_def iso_statuses_def)
  then show "s \<in> set plain_statuses \<Longrightarrow> s \<notin> set iso_statuses" by (simp only: list_all_iff) blast
qed

text \<open>
  C38. Converting a status to \<open>errno\<close> and back, for every 32-bit status: the fourteen plain
  codes come back unchanged, \<open>ERROR\<close> and \<open>ALL_ISO_PACKETS_FAILED\<close> only in an isochronous
  URB, and everything else (those two in other URBs and all unknown codes) turns into
  \<open>BIT_STUFF\<close>.
\<close>

theorem status_errno_status:
  "usb_vhci_from_errno (usb_vhci_to_errno s iu) iu =
     (if s \<in> set plain_statuses \<or> (s \<in> set iso_statuses \<and> iu \<noteq> 0) then s
      else USB_VHCI_STATUS_BIT_STUFF)"
proof (cases "s \<in> set plain_statuses \<or> s \<in> set iso_statuses")
  case True
  then show ?thesis
    using roundtrip_plain roundtrip_iso plain_not_iso by (metis (full_types))
next
  case False
  then show ?thesis by (simp add: to_errno_unknown usb_vhci_from_errno_def)
qed

lemma errno_roundtrip_plain_all:
  "list_all (\<lambda>e. usb_vhci_to_errno (usb_vhci_from_errno e iu) iu = e) plain_errnos"
  by (simp add: plain_errnos_def usb_vhci_to_errno_def usb_vhci_from_errno_def)

lemma errno_roundtrip_plain:
  "e \<in> set plain_errnos \<Longrightarrow> usb_vhci_to_errno (usb_vhci_from_errno e iu) iu = e"
  using errno_roundtrip_plain_all by (simp add: list_all_iff)

lemma from_errno_unknown:
  "e \<notin> set plain_errnos \<Longrightarrow> e \<noteq> - ENOENT \<Longrightarrow> e \<noteq> - EINVAL \<Longrightarrow>
   usb_vhci_from_errno e iu = USB_VHCI_STATUS_ERROR"
  by (simp add: usb_vhci_from_errno_def status_lists)

text \<open>
  Converting an \<open>errno\<close> value to a status and back, for every 32-bit value: the known
  values are fixed points, \<open>-ENOENT\<close> is normalised to \<open>-ECONNRESET\<close>, and any other value
  becomes the generic error of the URB's kind (\<open>-EXDEV\<close> for isochronous, \<open>-EPROTO\<close>
  otherwise), \<open>-EINVAL\<close> surviving only in isochronous URBs.
\<close>

theorem errno_status_errno:
  "usb_vhci_to_errno (usb_vhci_from_errno e iu) iu =
     (if e \<in> set plain_errnos \<or> (e = - EINVAL \<and> iu \<noteq> 0) then e
      else if e = - ENOENT then - ECONNRESET
      else if iu \<noteq> 0 then - EXDEV else - EPROTO)"
proof (cases "e \<in> set plain_errnos \<or> e = - ENOENT \<or> e = - EINVAL")
  case True
  then consider "e \<in> set plain_errnos" | "e = - ENOENT" | "e = - EINVAL" by blast
  then show ?thesis
    by cases (simp add: errno_roundtrip_plain,
        simp_all add: usb_vhci_to_errno_def usb_vhci_from_errno_def status_lists)
next
  case False
  then have "usb_vhci_from_errno e iu = USB_VHCI_STATUS_ERROR"
    by (intro from_errno_unknown) auto
  then show ?thesis using False by (auto simp: usb_vhci_to_errno_def)
qed

text \<open>
  A failed transfer is never reported to the kernel as a successful one: the converted
  value is zero exactly for \<open>SUCCESS\<close> and a negative number in every other case, for
  URBs and for single isochronous packets.
\<close>

theorem to_errno_sign:
  "usb_vhci_to_errno s iu \<le>s 0 \<and>
   (usb_vhci_to_errno s iu = 0 \<longleftrightarrow> s = USB_VHCI_STATUS_SUCCESS) \<and>
   (usb_vhci_to_iso_packets_errno s = 0 \<longleftrightarrow> s = USB_VHCI_STATUS_SUCCESS)"
proof (cases "s = USB_VHCI_STATUS_SUCCESS")
  case True
  then show ?thesis by (simp add: usb_vhci_to_errno_def usb_vhci_to_iso_packets_errno_def)
next
  case False
  then show ?thesis
    using to_errno_plain_nonzero [OF False, of iu] to_errno_plain_nonzero [OF False, of 0]
    by (auto simp: usb_vhci_to_iso_packets_errno_def word_sless_alt word_sle_eq)
qed

end
