(* ===== verification/Kernel_Abi.thy ===== *)
theory Kernel_Abi
  imports Vhci_Prelude
begin

text \<open>
  Everything the library takes from outside its repository, as parameters: the constants of
  the kernel header \<^verbatim>\<open>linux/usb-vhci.h\<close> (record \<open>abi\<close>), the argument structures of the
  five ioctls, and the operations of the operating system and of user callbacks (record
  \<open>'e platform\<close>, over an arbitrary environment state \<open>'e\<close>). No definition of the development
  fixes any of them; properties that need a fact about them state it as a hypothesis
  (\<open>abi_ok\<close>), which \<open>linux_abi\<close> satisfies.
\<close>

section \<open>Constants of linux/usb-vhci.h\<close>

record abi =
  WORK_TYPE_PORT_STAT :: u8
  WORK_TYPE_PROCESS_URB :: u8
  WORK_TYPE_CANCEL_URB :: u8
  URB_TYPE_ISO :: u8
  URB_TYPE_INT :: u8
  URB_TYPE_CONTROL :: u8
  URB_TYPE_BULK :: u8
  FLAG_RESUMING :: u8
  FLAGS_SHORT_NOT_OK :: u16
  FLAGS_ZERO_PACKET :: u16
  USB_PORT_STAT_CONNECTION :: u16
  USB_PORT_STAT_ENABLE :: u16
  USB_PORT_STAT_OVERCURRENT :: u16
  USB_PORT_STAT_LOW_SPEED :: u16
  USB_PORT_STAT_HIGH_SPEED :: u16
  USB_PORT_STAT_C_CONNECTION :: u16
  USB_PORT_STAT_C_ENABLE :: u16
  USB_PORT_STAT_C_SUSPEND :: u16
  USB_PORT_STAT_C_OVERCURRENT :: u16
  USB_PORT_STAT_C_RESET :: u16

text \<open>
  What the code relies on. The case labels of its two \<^verbatim>\<open>switch\<close> statements are pairwise
  different (a compiler rejects them otherwise); the resuming flag is one bit; the port
  status words follow table 11-21 and 11-22 of the USB 2.0 specification.
\<close>

definition work_types_ok :: "'z abi_scheme \<Rightarrow> bool" where
  "work_types_ok k \<longleftrightarrow>
     distinct [WORK_TYPE_PORT_STAT k, WORK_TYPE_PROCESS_URB k, WORK_TYPE_CANCEL_URB k]"

definition urb_types_ok :: "'z abi_scheme \<Rightarrow> bool" where
  "urb_types_ok k \<longleftrightarrow>
     distinct [URB_TYPE_ISO k, URB_TYPE_INT k, URB_TYPE_CONTROL k, URB_TYPE_BULK k]"

definition port_bits_ok :: "'z abi_scheme \<Rightarrow> bool" where
  "port_bits_ok k \<longleftrightarrow>
     USB_PORT_STAT_CONNECTION k = 0x0001 \<and> USB_PORT_STAT_ENABLE k = 0x0002 \<and>
     USB_PORT_STAT_OVERCURRENT k = 0x0008 \<and> USB_PORT_STAT_LOW_SPEED k = 0x0200 \<and>
     USB_PORT_STAT_HIGH_SPEED k = 0x0400 \<and>
     USB_PORT_STAT_C_CONNECTION k = 0x0001 \<and> USB_PORT_STAT_C_ENABLE k = 0x0002 \<and>
     USB_PORT_STAT_C_SUSPEND k = 0x0004 \<and> USB_PORT_STAT_C_OVERCURRENT k = 0x0008 \<and>
     USB_PORT_STAT_C_RESET k = 0x0010"

definition abi_ok :: "'z abi_scheme \<Rightarrow> bool" where
  "abi_ok k \<longleftrightarrow>
     work_types_ok k \<and> urb_types_ok k \<and> port_bits_ok k \<and> single_bit (FLAG_RESUMING k)"

definition linux_abi :: abi where
  "linux_abi = \<lparr>
     WORK_TYPE_PORT_STAT = 0, WORK_TYPE_PROCESS_URB = 1, WORK_TYPE_CANCEL_URB = 2,
     URB_TYPE_ISO = 0, URB_TYPE_INT = 1, URB_TYPE_CONTROL = 2, URB_TYPE_BULK = 3,
     FLAG_RESUMING = 1, FLAGS_SHORT_NOT_OK = 0x0001, FLAGS_ZERO_PACKET = 0x0040,
     USB_PORT_STAT_CONNECTION = 0x0001, USB_PORT_STAT_ENABLE = 0x0002,
     USB_PORT_STAT_OVERCURRENT = 0x0008, USB_PORT_STAT_LOW_SPEED = 0x0200,
     USB_PORT_STAT_HIGH_SPEED = 0x0400,
     USB_PORT_STAT_C_CONNECTION = 0x0001, USB_PORT_STAT_C_ENABLE = 0x0002,
     USB_PORT_STAT_C_SUSPEND = 0x0004, USB_PORT_STAT_C_OVERCURRENT = 0x0008,
     USB_PORT_STAT_C_RESET = 0x0010 \<rparr>"

lemma single_bit_one [simp]: "single_bit (1 :: 'a::len word)"
  unfolding single_bit_def by (rule exI [of _ 0]) simp

lemma linux_abi_ok: "abi_ok linux_abi"
  by (simp add: abi_ok_def work_types_ok_def urb_types_ok_def port_bits_ok_def linux_abi_def)

section \<open>Argument structures of the ioctls\<close>

record ioc_port_stat =
  ip_status :: u16
  ip_change :: u16
  ip_index :: u8
  ip_flags :: u8

record ioc_setup =
  is_bmRequestType :: u8
  is_bRequest :: u8
  is_wValue :: u16
  is_wIndex :: u16
  is_wLength :: u16

record ioc_urb =
  iu_setup :: ioc_setup
  iu_buffer_length :: i32
  iu_interval :: i32
  iu_packet_count :: i32
  iu_flags :: u16
  iu_address :: u8
  iu_endpoint :: u8
  iu_type :: u8

text \<open>The kernel fills the union member that belongs to \<open>iw_type\<close>.\<close>

record ioc_work =
  iw_handle :: u64
  iw_port :: ioc_port_stat
  iw_urb :: ioc_urb
  iw_type :: u8

record ioc_register =
  ir_id :: i32
  ir_usb_busnum :: i32
  ir_bus_id :: "char list"

text \<open>
  Pointers in a request are addresses (0 is \<open>NULL\<close>); what the kernel reads through them is
  passed along, an unset cell being \<open>None\<close>.
\<close>

record ioc_urb_data =
  id_handle :: u64
  id_buffer_length :: i32
  id_packet_count :: i32
  id_buffer :: nat
  id_iso_packets :: nat

record ioc_giveback =
  ig_handle :: u64
  ig_status :: i32
  ig_buffer_actual :: i32
  ig_packet_count :: i32
  ig_error_count :: i32
  ig_buffer :: "u8 option list option"
  ig_iso_packets :: "(i32 \<times> u32) option list option"

section \<open>Operating system and user code\<close>

text \<open>
  \<open>Inl e\<close> is the return value \<open>-1\<close> with \<open>errno = e\<close>. The reply to \<open>p_fetch_data\<close> is what the
  kernel writes through the two pointers of the request: the data bytes, and for each
  packet its offset and length. A callback is a function pointer with its argument.
  \<open>p_thread_create\<close> is \<open>pthread_create\<close>: its error number, or the new thread.
\<close>

record callback =
  cb_func :: nat
  cb_arg :: nat

record 'e platform = abi +
  p_open :: "'e \<Rightarrow> 'e \<times> (i32 + i32)"
  p_close :: "i32 \<Rightarrow> 'e \<Rightarrow> 'e \<times> (i32 + unit)"
  p_register :: "i32 \<Rightarrow> u8 \<Rightarrow> 'e \<Rightarrow> 'e \<times> (i32 + ioc_register)"
  p_fetch_work :: "i32 \<Rightarrow> i16 \<Rightarrow> 'e \<Rightarrow> 'e \<times> (i32 + ioc_work)"
  p_fetch_data :: "i32 \<Rightarrow> ioc_urb_data \<Rightarrow> 'e \<Rightarrow> 'e \<times> (i32 + u8 list \<times> (u32 \<times> u32) list)"
  p_giveback :: "i32 \<Rightarrow> ioc_giveback \<Rightarrow> 'e \<Rightarrow> 'e \<times> (i32 + unit)"
  p_port_stat :: "i32 \<Rightarrow> ioc_port_stat \<Rightarrow> 'e \<Rightarrow> 'e \<times> (i32 + unit)"
  p_callback :: "callback \<Rightarrow> 'e \<Rightarrow> 'e"
  p_thread_create :: "'e \<Rightarrow> 'e \<times> (i32 + nat)"

end
