(* ===== verification/Port_Stat.thy ===== *)
theory Port_Stat
  imports Kernel_Abi
begin

text \<open>
  Port status: the C structure \<^verbatim>\<open>usb_vhci_port_stat\<close>, the C++ class \<^verbatim>\<open>port_stat\<close> with
  its flag accessors (\<^verbatim>\<open>libusb_vhci.h\<close>), and the detection of the changes the kernel
  triggers, which the library implements twice: \<^verbatim>\<open>usb_vhci_port_stat_triggers\<close> in
  \<^verbatim>\<open>libusb_vhci.c\<close> and the constructor of \<^verbatim>\<open>port_stat_work\<close> in \<^verbatim>\<open>work.cpp\<close>.
\<close>

section \<open>Flag bits\<close>

definition USB_VHCI_PORT_STAT_CONNECTION :: u16 where
  [simp]: "USB_VHCI_PORT_STAT_CONNECTION = 0x0001"
definition USB_VHCI_PORT_STAT_ENABLE :: u16 where
  [simp]: "USB_VHCI_PORT_STAT_ENABLE = 0x0002"
definition USB_VHCI_PORT_STAT_SUSPEND :: u16 where
  [simp]: "USB_VHCI_PORT_STAT_SUSPEND = 0x0004"
definition USB_VHCI_PORT_STAT_OVERCURRENT :: u16 where
  [simp]: "USB_VHCI_PORT_STAT_OVERCURRENT = 0x0008"
definition USB_VHCI_PORT_STAT_RESET :: u16 where
  [simp]: "USB_VHCI_PORT_STAT_RESET = 0x0010"
definition USB_VHCI_PORT_STAT_POWER :: u16 where
  [simp]: "USB_VHCI_PORT_STAT_POWER = 0x0100"
definition USB_VHCI_PORT_STAT_LOW_SPEED :: u16 where
  [simp]: "USB_VHCI_PORT_STAT_LOW_SPEED = 0x0200"
definition USB_VHCI_PORT_STAT_HIGH_SPEED :: u16 where
  [simp]: "USB_VHCI_PORT_STAT_HIGH_SPEED = 0x0400"
definition USB_VHCI_PORT_STAT_C_CONNECTION :: u16 where
  [simp]: "USB_VHCI_PORT_STAT_C_CONNECTION = 0x0001"
definition USB_VHCI_PORT_STAT_C_ENABLE :: u16 where
  [simp]: "USB_VHCI_PORT_STAT_C_ENABLE = 0x0002"
definition USB_VHCI_PORT_STAT_C_SUSPEND :: u16 where
  [simp]: "USB_VHCI_PORT_STAT_C_SUSPEND = 0x0004"
definition USB_VHCI_PORT_STAT_C_OVERCURRENT :: u16 where
  [simp]: "USB_VHCI_PORT_STAT_C_OVERCURRENT = 0x0008"
definition USB_VHCI_PORT_STAT_C_RESET :: u16 where
  [simp]: "USB_VHCI_PORT_STAT_C_RESET = 0x0010"

definition USB_VHCI_PORT_STAT_TRIGGER_DISABLE :: u8 where
  [simp]: "USB_VHCI_PORT_STAT_TRIGGER_DISABLE = 0x01"
definition USB_VHCI_PORT_STAT_TRIGGER_SUSPEND :: u8 where
  [simp]: "USB_VHCI_PORT_STAT_TRIGGER_SUSPEND = 0x02"
definition USB_VHCI_PORT_STAT_TRIGGER_RESUMING :: u8 where
  [simp]: "USB_VHCI_PORT_STAT_TRIGGER_RESUMING = 0x04"
definition USB_VHCI_PORT_STAT_TRIGGER_RESET :: u8 where
  [simp]: "USB_VHCI_PORT_STAT_TRIGGER_RESET = 0x08"
definition USB_VHCI_PORT_STAT_TRIGGER_POWER_ON :: u8 where
  [simp]: "USB_VHCI_PORT_STAT_TRIGGER_POWER_ON = 0x10"
definition USB_VHCI_PORT_STAT_TRIGGER_POWER_OFF :: u8 where
  [simp]: "USB_VHCI_PORT_STAT_TRIGGER_POWER_OFF = 0x20"

section \<open>The C structure and the C++ class\<close>

record usb_vhci_port_stat =
  ps_status :: u16
  ps_change :: u16
  ps_index :: u8
  ps_flags :: u8

record port_stat =
  st_status :: u16
  st_change :: u16
  st_flags :: u8

definition port_stat_default :: port_stat where
  "port_stat_default = \<lparr>st_status = 0, st_change = 0, st_flags = 0\<rparr>"

definition port_stat_new :: "u16 \<Rightarrow> u16 \<Rightarrow> u8 \<Rightarrow> port_stat" where
  "port_stat_new status change flags = \<lparr>st_status = status, st_change = change, st_flags = flags\<rparr>"

section \<open>Accessors of the class port_stat\<close>

definition get_resuming :: "'z abi_scheme \<Rightarrow> port_stat \<Rightarrow> bool" where
  "get_resuming k p \<longleftrightarrow> has_mask (st_flags p) (FLAG_RESUMING k)"
definition set_resuming :: "'z abi_scheme \<Rightarrow> bool \<Rightarrow> port_stat \<Rightarrow> port_stat" where
  "set_resuming k v p = p\<lparr>st_flags := put_mask v (FLAG_RESUMING k) (st_flags p)\<rparr>"

definition get_connection :: "port_stat \<Rightarrow> bool" where
  "get_connection p \<longleftrightarrow> has_mask (st_status p) USB_VHCI_PORT_STAT_CONNECTION"
definition get_enable :: "port_stat \<Rightarrow> bool" where
  "get_enable p \<longleftrightarrow> has_mask (st_status p) USB_VHCI_PORT_STAT_ENABLE"
definition get_suspend :: "port_stat \<Rightarrow> bool" where
  "get_suspend p \<longleftrightarrow> has_mask (st_status p) USB_VHCI_PORT_STAT_SUSPEND"
definition get_overcurrent :: "port_stat \<Rightarrow> bool" where
  "get_overcurrent p \<longleftrightarrow> has_mask (st_status p) USB_VHCI_PORT_STAT_OVERCURRENT"
definition get_reset :: "port_stat \<Rightarrow> bool" where
  "get_reset p \<longleftrightarrow> has_mask (st_status p) USB_VHCI_PORT_STAT_RESET"
definition get_power :: "port_stat \<Rightarrow> bool" where
  "get_power p \<longleftrightarrow> has_mask (st_status p) USB_VHCI_PORT_STAT_POWER"
definition get_low_speed :: "port_stat \<Rightarrow> bool" where
  "get_low_speed p \<longleftrightarrow> has_mask (st_status p) USB_VHCI_PORT_STAT_LOW_SPEED"
definition get_high_speed :: "port_stat \<Rightarrow> bool" where
  "get_high_speed p \<longleftrightarrow> has_mask (st_status p) USB_VHCI_PORT_STAT_HIGH_SPEED"

definition set_connection :: "bool \<Rightarrow> port_stat \<Rightarrow> port_stat" where
  "set_connection v p = p\<lparr>st_status := put_mask v USB_VHCI_PORT_STAT_CONNECTION (st_status p)\<rparr>"
definition set_enable :: "bool \<Rightarrow> port_stat \<Rightarrow> port_stat" where
  "set_enable v p = p\<lparr>st_status := put_mask v USB_VHCI_PORT_STAT_ENABLE (st_status p)\<rparr>"
definition set_suspend :: "bool \<Rightarrow> port_stat \<Rightarrow> port_stat" where
  "set_suspend v p = p\<lparr>st_status := put_mask v USB_VHCI_PORT_STAT_SUSPEND (st_status p)\<rparr>"
definition set_overcurrent :: "bool \<Rightarrow> port_stat \<Rightarrow> port_stat" where
  "set_overcurrent v p = p\<lparr>st_status := put_mask v USB_VHCI_PORT_STAT_OVERCURRENT (st_status p)\<rparr>"
definition set_reset :: "bool \<Rightarrow> port_stat \<Rightarrow> port_stat" where
  "set_reset v p = p\<lparr>st_status := put_mask v USB_VHCI_PORT_STAT_RESET (st_status p)\<rparr>"
definition set_power :: "bool \<Rightarrow> port_stat \<Rightarrow> port_stat" where
  "set_power v p = p\<lparr>st_status := put_mask v USB_VHCI_PORT_STAT_POWER (st_status p)\<rparr>"
definition set_low_speed :: "bool \<Rightarrow> port_stat \<Rightarrow> port_stat" where
  "set_low_speed v p = p\<lparr>st_status := put_mask v USB_VHCI_PORT_STAT_LOW_SPEED (st_status p)\<rparr>"
definition set_high_speed :: "bool \<Rightarrow> port_stat \<Rightarrow> port_stat" where
  "set_high_speed v p = p\<lparr>st_status := put_mask v USB_VHCI_PORT_STAT_HIGH_SPEED (st_status p)\<rparr>"

definition get_connection_changed :: "port_stat \<Rightarrow> bool" where
  "get_connection_changed p \<longleftrightarrow> has_mask (st_change p) USB_VHCI_PORT_STAT_C_CONNECTION"
definition get_enable_changed :: "port_stat \<Rightarrow> bool" where
  "get_enable_changed p \<longleftrightarrow> has_mask (st_change p) USB_VHCI_PORT_STAT_C_ENABLE"
definition get_suspend_changed :: "port_stat \<Rightarrow> bool" where
  "get_suspend_changed p \<longleftrightarrow> has_mask (st_change p) USB_VHCI_PORT_STAT_C_SUSPEND"
definition get_overcurrent_changed :: "port_stat \<Rightarrow> bool" where
  "get_overcurrent_changed p \<longleftrightarrow> has_mask (st_change p) USB_VHCI_PORT_STAT_C_OVERCURRENT"
definition get_reset_changed :: "port_stat \<Rightarrow> bool" where
  "get_reset_changed p \<longleftrightarrow> has_mask (st_change p) USB_VHCI_PORT_STAT_C_RESET"

definition set_connection_changed :: "bool \<Rightarrow> port_stat \<Rightarrow> port_stat" where
  "set_connection_changed v p =
     p\<lparr>st_change := put_mask v USB_VHCI_PORT_STAT_C_CONNECTION (st_change p)\<rparr>"
definition set_enable_changed :: "bool \<Rightarrow> port_stat \<Rightarrow> port_stat" where
  "set_enable_changed v p =
     p\<lparr>st_change := put_mask v USB_VHCI_PORT_STAT_C_ENABLE (st_change p)\<rparr>"
definition set_suspend_changed :: "bool \<Rightarrow> port_stat \<Rightarrow> port_stat" where
  "set_suspend_changed v p =
     p\<lparr>st_change := put_mask v USB_VHCI_PORT_STAT_C_SUSPEND (st_change p)\<rparr>"
definition set_overcurrent_changed :: "bool \<Rightarrow> port_stat \<Rightarrow> port_stat" where
  "set_overcurrent_changed v p =
     p\<lparr>st_change := put_mask v USB_VHCI_PORT_STAT_C_OVERCURRENT (st_change p)\<rparr>"
definition set_reset_changed :: "bool \<Rightarrow> port_stat \<Rightarrow> port_stat" where
  "set_reset_changed v p =
     p\<lparr>st_change := put_mask v USB_VHCI_PORT_STAT_C_RESET (st_change p)\<rparr>"

lemmas port_stat_get_defs =
  get_resuming_def get_connection_def get_enable_def get_suspend_def get_overcurrent_def
  get_reset_def get_power_def get_low_speed_def get_high_speed_def get_connection_changed_def
  get_enable_changed_def get_suspend_changed_def get_overcurrent_changed_def
  get_reset_changed_def

lemmas port_stat_set_defs =
  set_resuming_def set_connection_def set_enable_def set_suspend_def set_overcurrent_def
  set_reset_def set_power_def set_low_speed_def set_high_speed_def set_connection_changed_def
  set_enable_changed_def set_suspend_changed_def set_overcurrent_changed_def
  set_reset_changed_def


section \<open>The accessors as one family\<close>

text \<open>
  A flag accessor pair is a lens onto a boolean: what was written is read back, writing
  back what was read changes nothing, and a second write wins.
\<close>

locale flag_accessor =
  fixes getf :: "port_stat \<Rightarrow> bool"
    and setf :: "bool \<Rightarrow> port_stat \<Rightarrow> port_stat"
  assumes get_set: "getf (setf v p) = v"
    and set_get: "setf (getf p) p = p"
    and set_set: "setf v (setf u p) = setf v p"
begin

lemma set_noop_iff: "setf v p = p \<longleftrightarrow> getf p = v"
proof
  assume "setf v p = p"
  then show "getf p = v" using get_set [of v p] by simp
next
  assume "getf p = v"
  then show "setf v p = p" using set_get [of p] by simp
qed

lemma set_restore: "setf (getf p) (setf v p) = p"
  by (simp add: set_set set_get)

lemma set_determined:
  assumes "setf v p = setf v q" and "getf p = getf q"
  shows "p = q"
proof -
  have "p = setf (getf p) (setf v p)" by (rule set_restore [symmetric])
  also have "\<dots> = setf (getf q) (setf v q)" by (simp only: assms)
  also have "\<dots> = q" by (rule set_restore)
  finally show ?thesis .
qed

end

datatype port_flag =
    F_Connection
  | F_Enable
  | F_Suspend
  | F_Overcurrent
  | F_Reset
  | F_Power
  | F_LowSpeed
  | F_HighSpeed
  | F_ConnectionChanged
  | F_EnableChanged
  | F_SuspendChanged
  | F_OvercurrentChanged
  | F_ResetChanged

fun get_flag :: "port_flag \<Rightarrow> port_stat \<Rightarrow> bool" where
  "get_flag F_Connection p = get_connection p"
| "get_flag F_Enable p = get_enable p"
| "get_flag F_Suspend p = get_suspend p"
| "get_flag F_Overcurrent p = get_overcurrent p"
| "get_flag F_Reset p = get_reset p"
| "get_flag F_Power p = get_power p"
| "get_flag F_LowSpeed p = get_low_speed p"
| "get_flag F_HighSpeed p = get_high_speed p"
| "get_flag F_ConnectionChanged p = get_connection_changed p"
| "get_flag F_EnableChanged p = get_enable_changed p"
| "get_flag F_SuspendChanged p = get_suspend_changed p"
| "get_flag F_OvercurrentChanged p = get_overcurrent_changed p"
| "get_flag F_ResetChanged p = get_reset_changed p"

fun set_flag :: "port_flag \<Rightarrow> bool \<Rightarrow> port_stat \<Rightarrow> port_stat" where
  "set_flag F_Connection v p = set_connection v p"
| "set_flag F_Enable v p = set_enable v p"
| "set_flag F_Suspend v p = set_suspend v p"
| "set_flag F_Overcurrent v p = set_overcurrent v p"
| "set_flag F_Reset v p = set_reset v p"
| "set_flag F_Power v p = set_power v p"
| "set_flag F_LowSpeed v p = set_low_speed v p"
| "set_flag F_HighSpeed v p = set_high_speed v p"
| "set_flag F_ConnectionChanged v p = set_connection_changed v p"
| "set_flag F_EnableChanged v p = set_enable_changed v p"
| "set_flag F_SuspendChanged v p = set_suspend_changed v p"
| "set_flag F_OvercurrentChanged v p = set_overcurrent_changed v p"
| "set_flag F_ResetChanged v p = set_reset_changed v p"

instantiation port_flag :: enum
begin

definition enum_port_flag :: "port_flag list" where
  "enum_port_flag =
     [F_Connection, F_Enable, F_Suspend, F_Overcurrent,
      F_Reset, F_Power, F_LowSpeed, F_HighSpeed,
      F_ConnectionChanged, F_EnableChanged, F_SuspendChanged, F_OvercurrentChanged,
      F_ResetChanged]"

definition enum_all_port_flag :: "(port_flag \<Rightarrow> bool) \<Rightarrow> bool" where
  "enum_all_port_flag P \<longleftrightarrow> list_all P (enum_class.enum :: port_flag list)"

definition enum_ex_port_flag :: "(port_flag \<Rightarrow> bool) \<Rightarrow> bool" where
  "enum_ex_port_flag P \<longleftrightarrow> list_ex P (enum_class.enum :: port_flag list)"

instance
proof
  show univ: "(UNIV :: port_flag set) = set enum_class.enum"
    unfolding enum_port_flag_def by (auto intro: port_flag.exhaust)
  show "distinct (enum_class.enum :: port_flag list)"
    by (simp add: enum_port_flag_def)
  show "enum_class.enum_all P \<longleftrightarrow> Ball UNIV P" for P :: "port_flag \<Rightarrow> bool"
    by (simp add: enum_all_port_flag_def list_all_iff univ)
  show "enum_class.enum_ex P \<longleftrightarrow> Bex UNIV P" for P :: "port_flag \<Rightarrow> bool"
    by (simp add: enum_ex_port_flag_def list_ex_iff univ)
qed

end

lemma single_bit_power: "n < LENGTH('a) \<Longrightarrow> single_bit (2 ^ n :: 'a::len word)"
  by (auto simp: single_bit_def)

lemma port_bits_single [simp]:
  "single_bit (2 :: u16)" "single_bit (4 :: u16)" "single_bit (8 :: u16)"
  "single_bit (0x10 :: u16)" "single_bit (0x100 :: u16)" "single_bit (0x200 :: u16)"
  "single_bit (0x400 :: u16)"
  using single_bit_power [of 1, where 'a = 16] single_bit_power [of 2, where 'a = 16]
    single_bit_power [of 3, where 'a = 16] single_bit_power [of 4, where 'a = 16]
    single_bit_power [of 8, where 'a = 16] single_bit_power [of 9, where 'a = 16]
    single_bit_power [of 10, where 'a = 16]
  by simp_all

interpretation plain_flag: flag_accessor "get_flag f" "set_flag f" for f
proof unfold_locales
  show "get_flag f (set_flag f v p) = v" for v p
    by (cases f) (simp_all add: port_stat_get_defs port_stat_set_defs)
  show "set_flag f (get_flag f p) p = p" for p
    by (cases f) (simp_all add: port_stat_get_defs port_stat_set_defs put_mask_has_mask)
  show "set_flag f v (set_flag f u p) = set_flag f v p" for v u p
    by (cases f) (simp_all add: port_stat_set_defs)
qed

text \<open>The resuming flag is a kernel constant; its accessor is a lens when that is one bit.\<close>

locale resuming_abi =
  fixes k :: "'z abi_scheme"
  assumes resuming_bit: "single_bit (FLAG_RESUMING k)"

sublocale resuming_abi \<subseteq> resuming: flag_accessor "get_resuming k" "set_resuming k"
  using resuming_bit
  by unfold_locales (simp_all add: get_resuming_def set_resuming_def put_mask_has_mask)

interpretation linux: resuming_abi linux_abi
  by unfold_locales (simp add: linux_abi_def)

text \<open>
  The thirteen flag setters of \<open>port_stat\<close> are independent lenses: after
  \<open>set_f(v)\<close>, \<open>get_f\<close> reads \<open>v\<close> and every other getter reads what it did before, and
  setting a flag to the value it has changes nothing at all, so no setter touches a
  neighbouring bit, the other status word or the \<open>flags\<close> byte.
\<close>

theorem port_stat_flags_independent:
  "get_flag g (set_flag f v p) = (if f = g then v else get_flag g p) \<and>
   (set_flag f v p = p \<longleftrightarrow> get_flag f p = v) \<and>
   st_flags (set_flag f v p) = st_flags p"
proof -
  have "get_flag g (set_flag f v p) = get_flag g p" if "f \<noteq> g"
    using that
    by (cases f; cases g) (simp_all add: port_stat_get_defs port_stat_set_defs has_mask_put_other)
  moreover have "st_flags (set_flag f v p) = st_flags p"
    by (cases f) (simp_all add: port_stat_set_defs)
  ultimately show ?thesis
    by (simp add: plain_flag.get_set plain_flag.set_noop_iff)
qed

section \<open>Triggers: two implementations, one specification\<close>

text \<open>\<^verbatim>\<open>usb_vhci_port_stat_triggers\<close> of \<^verbatim>\<open>libusb_vhci.c\<close>, one \<open>flags |= ...\<close> per line.\<close>

definition usb_vhci_port_stat_triggers ::
  "'z abi_scheme \<Rightarrow> usb_vhci_port_stat \<Rightarrow> usb_vhci_port_stat \<Rightarrow> u8" where
  "usb_vhci_port_stat_triggers k stat prev =
     (let fl = 0;
          fl = (if \<not> has_mask (ps_status stat) USB_VHCI_PORT_STAT_ENABLE \<and>
                   has_mask (ps_status prev) USB_VHCI_PORT_STAT_ENABLE
                then fl OR USB_VHCI_PORT_STAT_TRIGGER_DISABLE else fl);
          fl = (if has_mask (ps_status stat) USB_VHCI_PORT_STAT_SUSPEND \<and>
                   \<not> has_mask (ps_status prev) USB_VHCI_PORT_STAT_SUSPEND
                then fl OR USB_VHCI_PORT_STAT_TRIGGER_SUSPEND else fl);
          fl = (if has_mask (ps_flags stat) (FLAG_RESUMING k) \<and>
                   \<not> has_mask (ps_flags prev) (FLAG_RESUMING k)
                then fl OR USB_VHCI_PORT_STAT_TRIGGER_RESUMING else fl);
          fl = (if has_mask (ps_status stat) USB_VHCI_PORT_STAT_RESET \<and>
                   \<not> has_mask (ps_status prev) USB_VHCI_PORT_STAT_RESET
                then fl OR USB_VHCI_PORT_STAT_TRIGGER_RESET else fl);
          fl = (if has_mask (ps_status stat) USB_VHCI_PORT_STAT_POWER \<and>
                   \<not> has_mask (ps_status prev) USB_VHCI_PORT_STAT_POWER
                then fl OR USB_VHCI_PORT_STAT_TRIGGER_POWER_ON else fl);
          fl = (if \<not> has_mask (ps_status stat) USB_VHCI_PORT_STAT_POWER \<and>
                   has_mask (ps_status prev) USB_VHCI_PORT_STAT_POWER
                then fl OR USB_VHCI_PORT_STAT_TRIGGER_POWER_OFF else fl)
      in fl)"

text \<open>The body of the three-argument constructor of \<open>port_stat_work\<close> in \<^verbatim>\<open>work.cpp\<close>.\<close>

definition port_stat_work_triggers ::
  "'z abi_scheme \<Rightarrow> port_stat \<Rightarrow> port_stat \<Rightarrow> u8" where
  "port_stat_work_triggers k stat prev =
     (let fl = 0;
          fl = (if \<not> get_enable stat \<and> get_enable prev
                then fl OR USB_VHCI_PORT_STAT_TRIGGER_DISABLE else fl);
          fl = (if get_suspend stat \<and> \<not> get_suspend prev
                then fl OR USB_VHCI_PORT_STAT_TRIGGER_SUSPEND else fl);
          fl = (if get_resuming k stat \<and> \<not> get_resuming k prev
                then fl OR USB_VHCI_PORT_STAT_TRIGGER_RESUMING else fl);
          fl = (if get_reset stat \<and> \<not> get_reset prev
                then fl OR USB_VHCI_PORT_STAT_TRIGGER_RESET else fl);
          fl = (if get_power stat \<and> \<not> get_power prev
                then fl OR USB_VHCI_PORT_STAT_TRIGGER_POWER_ON
                else if \<not> get_power stat \<and> get_power prev
                then fl OR USB_VHCI_PORT_STAT_TRIGGER_POWER_OFF else fl)
      in fl)"

text \<open>What a trigger means, independently of its encoding in a byte.\<close>

datatype trigger = T_Disable | T_Suspend | T_Resuming | T_Reset | T_Power_On | T_Power_Off

fun trigger_mask :: "trigger \<Rightarrow> u8" where
  "trigger_mask T_Disable = USB_VHCI_PORT_STAT_TRIGGER_DISABLE"
| "trigger_mask T_Suspend = USB_VHCI_PORT_STAT_TRIGGER_SUSPEND"
| "trigger_mask T_Resuming = USB_VHCI_PORT_STAT_TRIGGER_RESUMING"
| "trigger_mask T_Reset = USB_VHCI_PORT_STAT_TRIGGER_RESET"
| "trigger_mask T_Power_On = USB_VHCI_PORT_STAT_TRIGGER_POWER_ON"
| "trigger_mask T_Power_Off = USB_VHCI_PORT_STAT_TRIGGER_POWER_OFF"

fun edge :: "'z abi_scheme \<Rightarrow> port_stat \<Rightarrow> port_stat \<Rightarrow> trigger \<Rightarrow> bool" where
  "edge k stat prev T_Disable \<longleftrightarrow> get_enable prev \<and> \<not> get_enable stat"
| "edge k stat prev T_Suspend \<longleftrightarrow> \<not> get_suspend prev \<and> get_suspend stat"
| "edge k stat prev T_Resuming \<longleftrightarrow> \<not> get_resuming k prev \<and> get_resuming k stat"
| "edge k stat prev T_Reset \<longleftrightarrow> \<not> get_reset prev \<and> get_reset stat"
| "edge k stat prev T_Power_On \<longleftrightarrow> \<not> get_power prev \<and> get_power stat"
| "edge k stat prev T_Power_Off \<longleftrightarrow> get_power prev \<and> \<not> get_power stat"

text \<open>The byte a set of triggers is encoded in; both bodies compute such a byte.\<close>

definition trigger_byte :: "(trigger \<Rightarrow> bool) \<Rightarrow> u8" where
  "trigger_byte e =
     (if e T_Disable then 0x01 else 0) OR (if e T_Suspend then 0x02 else 0) OR
     (if e T_Resuming then 0x04 else 0) OR (if e T_Reset then 0x08 else 0) OR
     (if e T_Power_On then 0x10 else 0) OR (if e T_Power_Off then 0x20 else 0)"

lemma has_mask_if: "has_mask (if b then m else 0) n \<longleftrightarrow> b \<and> has_mask m n"
  by simp

lemma trigger_byte_mask: "has_mask (trigger_byte e) (trigger_mask t) \<longleftrightarrow> e t"
  unfolding trigger_byte_def has_mask_or has_mask_if
  by (cases t) (simp_all add: has_mask_def)

lemma trigger_byte_eqI: "(\<And>t. e t \<longleftrightarrow> e' t) \<Longrightarrow> trigger_byte e = trigger_byte e'"
  by (rule arg_cong [where f = trigger_byte]) auto

lemma trigger_byte_inj: "trigger_byte e = trigger_byte e' \<Longrightarrow> e = e'"
  by (rule ext) (metis trigger_byte_mask)

lemma or_chain:
  "(let fl = 0;
        fl = (if d then fl OR 0x01 else fl); fl = (if s then fl OR 0x02 else fl);
        fl = (if r then fl OR 0x04 else fl); fl = (if t then fl OR 0x08 else fl);
        fl = (if n then fl OR 0x10 else fl); fl = (if f then fl OR 0x20 else fl)
    in fl) =
   (if d then 0x01 else 0) OR (if s then 0x02 else 0) OR (if r then 0x04 else 0) OR
   (if t then 0x08 else 0) OR (if n then 0x10 else 0) OR (if f then 0x20 else (0::u8))"
  by (cases d; cases s; cases r; cases t; cases n; cases f) simp_all

lemma cpp_triggers_byte:
  "port_stat_work_triggers k stat prev = trigger_byte (edge k stat prev)"
proof -
  have "port_stat_work_triggers k stat prev =
    (let fl = 0;
         fl = (if edge k stat prev T_Disable then fl OR 0x01 else fl);
         fl = (if edge k stat prev T_Suspend then fl OR 0x02 else fl);
         fl = (if edge k stat prev T_Resuming then fl OR 0x04 else fl);
         fl = (if edge k stat prev T_Reset then fl OR 0x08 else fl);
         fl = (if edge k stat prev T_Power_On then fl OR 0x10 else fl);
         fl = (if edge k stat prev T_Power_Off then fl OR 0x20 else fl)
     in fl)"
    unfolding port_stat_work_triggers_def
    by (cases "get_power stat"; cases "get_power prev") (simp_all add: conj_commute)
  then show ?thesis by (simp only: or_chain trigger_byte_def)
qed

text \<open>The C++ view of the C structure (as \<^verbatim>\<open>bg_work\<close> builds it).\<close>

definition port_stat_of :: "usb_vhci_port_stat \<Rightarrow> port_stat" where
  "port_stat_of p = port_stat_new (ps_status p) (ps_change p) (ps_flags p)"

lemma port_stat_of_gets:
  "get_enable (port_stat_of p) \<longleftrightarrow> has_mask (ps_status p) USB_VHCI_PORT_STAT_ENABLE"
  "get_suspend (port_stat_of p) \<longleftrightarrow> has_mask (ps_status p) USB_VHCI_PORT_STAT_SUSPEND"
  "get_reset (port_stat_of p) \<longleftrightarrow> has_mask (ps_status p) USB_VHCI_PORT_STAT_RESET"
  "get_power (port_stat_of p) \<longleftrightarrow> has_mask (ps_status p) USB_VHCI_PORT_STAT_POWER"
  "get_resuming k (port_stat_of p) \<longleftrightarrow> has_mask (ps_flags p) (FLAG_RESUMING k)"
  by (simp_all add: port_stat_get_defs port_stat_of_def port_stat_new_def)

lemma c_triggers_byte:
  "usb_vhci_port_stat_triggers k stat prev =
     trigger_byte (edge k (port_stat_of stat) (port_stat_of prev))"
proof -
  let ?e = "edge k (port_stat_of stat) (port_stat_of prev)"
  have "usb_vhci_port_stat_triggers k stat prev =
    (let fl = 0;
         fl = (if ?e T_Disable then fl OR 0x01 else fl);
         fl = (if ?e T_Suspend then fl OR 0x02 else fl);
         fl = (if ?e T_Resuming then fl OR 0x04 else fl);
         fl = (if ?e T_Reset then fl OR 0x08 else fl);
         fl = (if ?e T_Power_On then fl OR 0x10 else fl);
         fl = (if ?e T_Power_Off then fl OR 0x20 else fl)
     in fl)"
    unfolding usb_vhci_port_stat_triggers_def edge.simps port_stat_of_gets
      USB_VHCI_PORT_STAT_TRIGGER_DISABLE_def USB_VHCI_PORT_STAT_TRIGGER_SUSPEND_def
      USB_VHCI_PORT_STAT_TRIGGER_RESUMING_def USB_VHCI_PORT_STAT_TRIGGER_RESET_def
      USB_VHCI_PORT_STAT_TRIGGER_POWER_ON_def USB_VHCI_PORT_STAT_TRIGGER_POWER_OFF_def
    by (simp only: conj_commute)
  then show ?thesis by (simp only: or_chain trigger_byte_def)
qed

text \<open>
  The two implementations of trigger detection agree: for every pair of port states the
  C function and the constructor of \<open>port_stat_work\<close> compute the same byte.
\<close>

theorem triggers_c_cpp_agree:
  "usb_vhci_port_stat_triggers k stat prev =
     port_stat_work_triggers k (port_stat_of stat) (port_stat_of prev)"
  by (simp only: c_triggers_byte cpp_triggers_byte)

text \<open>
  The byte means what its name says: each of the six bits is set exactly when the
  corresponding flag changed in the corresponding direction between the two states, no
  other bit is ever set, and power-on and power-off exclude each other. The constructor of
  \<open>port_stat_work\<close> computes the same byte.
\<close>

theorem triggers_are_edges:
  "has_mask (usb_vhci_port_stat_triggers k stat prev) (trigger_mask t) =
     edge k (port_stat_of stat) (port_stat_of prev) t \<and>
   port_stat_work_triggers k (port_stat_of stat) (port_stat_of prev) = usb_vhci_port_stat_triggers k stat prev \<and>
   usb_vhci_port_stat_triggers k stat prev AND NOT 0x3f = 0 \<and>
   \<not> (has_mask (usb_vhci_port_stat_triggers k stat prev) USB_VHCI_PORT_STAT_TRIGGER_POWER_ON \<and>
      has_mask (usb_vhci_port_stat_triggers k stat prev) USB_VHCI_PORT_STAT_TRIGGER_POWER_OFF)"
proof -
  let ?e = "edge k (port_stat_of stat) (port_stat_of prev)"
  have "trigger_byte e AND NOT 0x3f = 0" for e
    unfolding trigger_byte_def
    by (cases "e T_Disable"; cases "e T_Suspend"; cases "e T_Resuming"; cases "e T_Reset";
        cases "e T_Power_On"; cases "e T_Power_Off") simp_all
  moreover have "\<not> (has_mask (trigger_byte ?e) (trigger_mask T_Power_On) \<and>
      has_mask (trigger_byte ?e) (trigger_mask T_Power_Off))"
    unfolding trigger_byte_mask by simp
  ultimately show ?thesis
    by (simp only: c_triggers_byte cpp_triggers_byte trigger_byte_mask trigger_mask.simps) simp
qed

end
