(* ===== verification/Machine.thy ===== *)
theory Machine
  imports Kernel_Abi Port_Stat
begin

text \<open>
  The data the library keeps in memory and the machine that runs it: the C structures of
  \<^verbatim>\<open>libusb_vhci.h\<close>, the objects of its C++ classes as heap blocks, an allocator that may
  fail, \<open>errno\<close>, and system calls into the environment.

  An address is a natural number, 0 is \<open>NULL\<close>. Every allocation returns a fresh address
  (\<open>brk\<close>), so a stale pointer never becomes valid again; a block that was never
  written holds \<open>None\<close> cells. \<open>oom\<close> lists, for the coming allocations, which of them fail;
  after the list is used up they all succeed. \<open>naps\<close> lists, for the coming calls of
  \<^verbatim>\<open>usleep\<close>, during which of them another thread asks the background thread to stop.
\<close>

section \<open>Structures\<close>

record usb_vhci_iso_packet =
  pk_offset :: u32
  pk_length :: i32
  pk_actual :: i32
  pk_status :: i32

record usb_vhci_urb =
  u_handle :: u64
  u_buffer :: nat
  u_iso_packets :: nat
  u_buffer_length :: i32
  u_buffer_actual :: i32
  u_packet_count :: i32
  u_error_count :: i32
  u_status :: i32
  u_interval :: i32
  u_flags :: u16
  u_wValue :: u16
  u_wIndex :: u16
  u_wLength :: u16
  u_bmRequestType :: u8
  u_bRequest :: u8
  u_devadr :: u8
  u_epadr :: u8
  u_type :: u8

definition zero_urb :: usb_vhci_urb where
  "zero_urb = \<lparr>u_handle = 0, u_buffer = 0, u_iso_packets = 0, u_buffer_length = 0,
     u_buffer_actual = 0, u_packet_count = 0, u_error_count = 0, u_status = 0, u_interval = 0,
     u_flags = 0, u_wValue = 0, u_wIndex = 0, u_wLength = 0, u_bmRequestType = 0,
     u_bRequest = 0, u_devadr = 0, u_epadr = 0, u_type = 0\<rparr>"

text \<open>The union inside \<^verbatim>\<open>struct usb_vhci_work\<close>: the member that was stored last.\<close>

datatype work_union =
    WorkHandle u64
  | WorkUrb usb_vhci_urb
  | WorkPortStat usb_vhci_port_stat

record usb_vhci_work =
  wk_work :: work_union
  wk_type :: u8

text \<open>
  The macros \<^verbatim>\<open>usb_vhci_is_out\<close> and so on of \<^verbatim>\<open>libusb_vhci.h\<close>.
\<close>

definition usb_vhci_is_out :: "u8 \<Rightarrow> bool" where
  "usb_vhci_is_out epadr \<longleftrightarrow> \<not> has_mask epadr 0x80"
definition usb_vhci_is_in :: "u8 \<Rightarrow> bool" where
  "usb_vhci_is_in epadr \<longleftrightarrow> has_mask epadr 0x80"
definition usb_vhci_is_iso :: "'z abi_scheme \<Rightarrow> u8 \<Rightarrow> bool" where
  "usb_vhci_is_iso k t \<longleftrightarrow> t = URB_TYPE_ISO k"
definition usb_vhci_is_int :: "'z abi_scheme \<Rightarrow> u8 \<Rightarrow> bool" where
  "usb_vhci_is_int k t \<longleftrightarrow> t = URB_TYPE_INT k"
definition usb_vhci_is_control :: "'z abi_scheme \<Rightarrow> u8 \<Rightarrow> bool" where
  "usb_vhci_is_control k t \<longleftrightarrow> t = URB_TYPE_CONTROL k"
definition usb_vhci_is_bulk :: "'z abi_scheme \<Rightarrow> u8 \<Rightarrow> bool" where
  "usb_vhci_is_bulk k t \<longleftrightarrow> t = URB_TYPE_BULK k"

lemma is_out_iff_not_in: "usb_vhci_is_out ep \<longleftrightarrow> \<not> usb_vhci_is_in ep"
  by (simp add: usb_vhci_is_out_def usb_vhci_is_in_def)

section \<open>Work objects\<close>

text \<open>
  The class \<^verbatim>\<open>work\<close> and its three subclasses: the common members, and what the dynamic
  type adds. A \<open>process_urb_work\<close> points to a \<^verbatim>\<open>usb::urb\<close> object.
\<close>

datatype work_kind =
    ProcessUrbWork nat
  | CancelUrbWork u64
  | PortStatWork port_stat u8

record work =
  w_port :: u8
  w_canceled :: bool
  w_kind :: work_kind

section \<open>Heap blocks and the machine\<close>

datatype block =
    Bytes "u8 option list"
  | Packets "usb_vhci_iso_packet option list"
  | IocPackets "(u32 \<times> u32) option list"
  | IocStatus "(i32 \<times> u32) option list"
  | Chars "char list"
  | UrbObj usb_vhci_urb
  | WorkObj work
  | PortTable nat

record 'e machine =
  env :: 'e
  errno :: i32
  heap :: "nat \<Rightarrow> block option"
  brk :: nat
  oom :: "bool list"
  naps :: "bool list"

definition heap_ok :: "('e, 'z) machine_scheme \<Rightarrow> bool" where
  "heap_ok s \<longleftrightarrow> 0 < brk s \<and> (\<forall>p. heap s p \<noteq> None \<longrightarrow> 0 < p \<and> p < brk s)"

text \<open>
  One allocation event: does it fail? Containers of the standard library
  (\<open>push_back\<close>) cause such events, too.
\<close>

definition alloc_fails :: "('e, 'z) machine_scheme \<Rightarrow> bool \<times> ('e, 'z) machine_scheme" where
  "alloc_fails s = (case oom s of [] \<Rightarrow> (False, s) | b # bs \<Rightarrow> (b, s\<lparr>oom := bs\<rparr>))"

text \<open>\<open>malloc\<close> and \<open>new(std::nothrow)\<close>: the address, or 0.\<close>

definition alloc :: "block \<Rightarrow> ('e, 'z) machine_scheme \<Rightarrow> nat \<times> ('e, 'z) machine_scheme" where
  "alloc b s =
     (case alloc_fails s of
        (True, t) \<Rightarrow> (0, t)
      | (False, t) \<Rightarrow> (brk t, t\<lparr>heap := (heap t)(brk t \<mapsto> b), brk := Suc (brk t)\<rparr>))"

text \<open>\<open>free\<close>, \<open>delete\<close> and \<open>delete[]\<close>: nothing for \<open>NULL\<close>, a fault for a dead block.\<close>

definition dealloc :: "nat \<Rightarrow> ('e, 'z) machine_scheme \<Rightarrow> ('e, 'z) machine_scheme option" where
  "dealloc p s =
     (if p = 0 then Some s
      else case heap s p of None \<Rightarrow> None | Some _ \<Rightarrow> Some (s\<lparr>heap := (heap s)(p := None)\<rparr>))"

definition load :: "nat \<Rightarrow> ('e, 'z) machine_scheme \<Rightarrow> block option" where
  "load p s = (if p = 0 then None else heap s p)"

definition store ::
  "nat \<Rightarrow> block \<Rightarrow> ('e, 'z) machine_scheme \<Rightarrow> ('e, 'z) machine_scheme option" where
  "store p b s =
     (if p = 0 then None
      else case heap s p of None \<Rightarrow> None | Some _ \<Rightarrow> Some (s\<lparr>heap := (heap s)(p \<mapsto> b)\<rparr>))"

text \<open>
  \<open>new T[n]\<close> for a signed 32-bit \<open>n\<close>: a negative count is \<open>bad_array_new_length\<close>, a
  \<open>bad_alloc\<close>. The cells are uninitialised.
\<close>

definition cells :: "i32 \<Rightarrow> 'a option list" where
  "cells n = replicate (unat n) None"

definition new_array ::
  "('c option list \<Rightarrow> block) \<Rightarrow> i32 \<Rightarrow> ('e, 'z) machine_scheme \<Rightarrow>
   (exn + nat) \<times> ('e, 'z) machine_scheme" where
  "new_array mk n s =
     (if n <s 0 then (Inl BadAlloc, s)
      else case alloc (mk (cells n)) s of
             (p, t) \<Rightarrow> (if p = 0 then (Inl BadAlloc, t) else (Inr p, t)))"

text \<open>A system call: on failure \<open>errno\<close> is set and there is no result.\<close>

definition syscall ::
  "('e \<Rightarrow> 'e \<times> (i32 + 'r)) \<Rightarrow> ('e, 'z) machine_scheme \<Rightarrow>
   'r option \<times> ('e, 'z) machine_scheme" where
  "syscall f s =
     (case f (env s) of
        (e, Inl err) \<Rightarrow> (None, s\<lparr>env := e, errno := err\<rparr>)
      | (e, Inr r) \<Rightarrow> (Some r, s\<lparr>env := e\<rparr>))"

section \<open>Lemmas about the heap\<close>

lemma alloc_fails_frame [frame_simps]:
  "heap (snd (alloc_fails s)) = heap s" "brk (snd (alloc_fails s)) = brk s"
  "env (snd (alloc_fails s)) = env s" "errno (snd (alloc_fails s)) = errno s"
  "naps (snd (alloc_fails s)) = naps s" "machine.more (snd (alloc_fails s)) = machine.more s"
  by (simp_all add: alloc_fails_def split: list.split)

lemma alloc_cases:
  assumes "heap_ok s" "alloc b s = (p, t)"
  obtains (fail) "p = 0" "heap t = heap s" "brk t = brk s" "env t = env s"
        "errno t = errno s" "machine.more t = machine.more s" "heap_ok t" "naps t = naps s"
  | (ok) "p = brk s" "0 < p" "heap s p = None" "heap t = (heap s)(p \<mapsto> b)"
        "brk t = Suc (brk s)" "env t = env s" "errno t = errno s"
        "machine.more t = machine.more s" "heap_ok t" "naps t = naps s"
proof -
  obtain f r where fr: "alloc_fails s = (f, r)" by fastforce
  have r: "heap r = heap s" "brk r = brk s" "env r = env s" "errno r = errno s"
    "machine.more r = machine.more s" "naps r = naps s"
    using alloc_fails_frame [of s] fr by simp_all
  have br: "heap s (brk s) = None" "0 < brk s"
    using assms(1) unfolding heap_ok_def by (blast, blast)
  show thesis
  proof (cases f)
    case True
    then show thesis using assms fr r by (intro fail) (auto simp: alloc_def heap_ok_def)
  next
    case False
    then have "p = brk s" "t = r\<lparr>heap := (heap s)(p \<mapsto> b), brk := Suc (brk s)\<rparr>"
      using assms(2) fr r by (auto simp: alloc_def)
    then show thesis using assms(1) r br
      by (intro ok) (auto simp: heap_ok_def less_Suc_eq)
  qed
qed

lemma load_Some [simp]: "load p s = Some b \<longleftrightarrow> p \<noteq> 0 \<and> heap s p = Some b"
  by (simp add: load_def)

lemma dealloc_Some:
  "dealloc p s = Some t \<longleftrightarrow>
     (if p = 0 then t = s else heap s p \<noteq> None \<and> t = s\<lparr>heap := (heap s)(p := None)\<rparr>)"
  by (auto simp: dealloc_def split: option.split)

lemma store_Some:
  "store p b s = Some t \<longleftrightarrow> p \<noteq> 0 \<and> heap s p \<noteq> None \<and> t = s\<lparr>heap := (heap s)(p \<mapsto> b)\<rparr>"
  by (auto simp: store_def split: option.split)

lemma heap_ok_update:
  "heap_ok s \<Longrightarrow> heap s p \<noteq> None \<Longrightarrow> heap_ok (s\<lparr>heap := (heap s)(p := x)\<rparr>)"
  by (auto simp: heap_ok_def)

lemma heap_ok_fresh: "heap_ok s \<Longrightarrow> heap s (brk s) = None"
  by (auto simp: heap_ok_def)

lemma store_oom: "store p b s = Some t \<Longrightarrow> oom t = oom s"
  by (auto simp: store_Some)

lemma dealloc_oom: "dealloc p s = Some t \<Longrightarrow> oom t = oom s"
  by (auto simp: dealloc_Some split: if_splits)

end
