(* ===== verification/Sample_Platform.thy ===== *)
theory Sample_Platform
  imports Kernel_Abi
begin

text \<open>
  A concrete environment for the witnesses: the Linux constants, a kernel that answers
  fetch requests with given replies and accepts everything else, and a log of what was
  asked of it, latest first. Closing is interrupted as often as the log demands.
\<close>

datatype sys_event =
    Opened
  | Interrupt
  | Closed i32
  | Registered u8
  | FetchedWork
  | FetchedData ioc_urb_data
  | GaveBack ioc_giveback
  | SentPortStat ioc_port_stat
  | Called callback

type_synonym log = "sys_event list"

definition sample_platform ::
  "(i32 + ioc_work) \<Rightarrow> (ioc_urb_data \<Rightarrow> i32 + u8 list \<times> (u32 \<times> u32) list) \<Rightarrow> (i32 + ioc_register) \<Rightarrow>
   log platform" where
  "sample_platform w d r = abi.extend linux_abi
     \<lparr>p_open = (\<lambda>e. (Opened # e, Inr 3)),
      p_close = (\<lambda>fd e. case e of Interrupt # e' \<Rightarrow> (e', Inl EINTR) | _ \<Rightarrow> (Closed fd # e, Inr ())),
      p_register = (\<lambda>fd n e. (Registered n # e, r)),
      p_fetch_work = (\<lambda>fd n e. (FetchedWork # e, w)),
      p_fetch_data = (\<lambda>fd q e. (FetchedData q # e, d q)),
      p_giveback = (\<lambda>fd q e. (GaveBack q # e, Inr ())),
      p_port_stat = (\<lambda>fd m e. (SentPortStat m # e, Inr ())),
      p_callback = (\<lambda>c e. Called c # e),
      p_thread_create = (\<lambda>e. (e, Inr 1))\<rparr>"

text \<open>A kernel that has one byte for every buffer and packets of one byte each.\<close>

definition sample_reply :: "ioc_urb_data \<Rightarrow> i32 + u8 list \<times> (u32 \<times> u32) list" where
  "sample_reply q =
     (if id_packet_count q \<noteq> 0 \<and> id_iso_packets q = 0 then Inl 14
      else Inr (if id_buffer_length q = 0 then [] else [42],
                replicate (unat (id_packet_count q)) (0, 1)))"

definition plain_platform :: "log platform" where
  "plain_platform = sample_platform (Inl ETIMEDOUT) sample_reply
     (Inr \<lparr>ir_id = 0, ir_usb_busnum = 1, ir_bus_id = ''vhci_hcd.0''\<rparr>)"

lemmas sample_platform_simps =
  sample_platform_def plain_platform_def linux_abi_def abi.extend_def

lemma sample_abi_ok: "abi_ok (sample_platform w d r)" "abi_ok plain_platform"
  by (simp_all add: abi_ok_def work_types_ok_def urb_types_ok_def port_bits_ok_def
      sample_platform_simps)

lemma abi_ok_parts:
  "abi_ok k \<Longrightarrow> work_types_ok k" "abi_ok k \<Longrightarrow> urb_types_ok k" "abi_ok k \<Longrightarrow> port_bits_ok k"
  "abi_ok k \<Longrightarrow> single_bit (FLAG_RESUMING k)"
  by (simp_all add: abi_ok_def)

end
