(* ===== verification/Libusb_C.thy ===== *)
theory Libusb_C
  imports Status_Codes Machine Sample_Platform
begin

text \<open>
  The C library \<^verbatim>\<open>libusb_vhci.c\<close>: opening and closing the controller, fetching work and
  data from the kernel, giving URBs back, and the six port notifications. Every function
  takes the platform \<open>P\<close> and the machine state and returns its C result with the new state;
  the ones that follow pointers are partial (\<open>None\<close> is a fault).
\<close>

section \<open>Reading and writing user memory\<close>

definition load_bytes :: "nat \<Rightarrow> ('e, 'z) machine_scheme \<Rightarrow> u8 option list option" where
  "load_bytes p s = (case load p s of Some (Bytes bs) \<Rightarrow> Some bs | _ \<Rightarrow> None)"

definition load_packets ::
  "nat \<Rightarrow> ('e, 'z) machine_scheme \<Rightarrow> usb_vhci_iso_packet option list option" where
  "load_packets p s = (case load p s of Some (Packets ps) \<Rightarrow> Some ps | _ \<Rightarrow> None)"

definition load_ioc_packets ::
  "nat \<Rightarrow> ('e, 'z) machine_scheme \<Rightarrow> (u32 \<times> u32) option list option" where
  "load_ioc_packets p s = (case load p s of Some (IocPackets ks) \<Rightarrow> Some ks | _ \<Rightarrow> None)"

definition load_ioc_status ::
  "nat \<Rightarrow> ('e, 'z) machine_scheme \<Rightarrow> (i32 \<times> u32) option list option" where
  "load_ioc_status p s = (case load p s of Some (IocStatus ks) \<Rightarrow> Some ks | _ \<Rightarrow> None)"

text \<open>Reading an element: a fault out of range or when it was never written.\<close>

definition cell :: "'a option list \<Rightarrow> nat \<Rightarrow> 'a option" where
  "cell xs i = (if i < length xs then xs ! i else None)"

definition malloc :: "block \<Rightarrow> ('e, 'z) machine_scheme \<Rightarrow> nat \<times> ('e, 'z) machine_scheme" where
  "malloc b s = (case alloc b s of (p, t) \<Rightarrow> (p, if p = 0 then t\<lparr>errno := ENOMEM\<rparr> else t))"

text \<open>
  \<open>malloc(sizeof *a * n)\<close> for a signed \<open>n\<close>: a negative count wraps to a size that no
  allocator can serve.
\<close>

definition malloc_array ::
  "('c option list \<Rightarrow> block) \<Rightarrow> i32 \<Rightarrow> ('e, 'z) machine_scheme \<Rightarrow>
   nat \<times> ('e, 'z) machine_scheme" where
  "malloc_array mk n s =
     (if n <s 0 then (0, s\<lparr>errno := ENOMEM\<rparr>) else malloc (mk (cells n)) s)"

text \<open>What the kernel stores through a pointer of the request.\<close>

definition copy_to_user_bytes ::
  "nat \<Rightarrow> u8 list \<Rightarrow> ('e, 'z) machine_scheme \<Rightarrow> ('e, 'z) machine_scheme option" where
  "copy_to_user_bytes p data s =
     (if data = [] then Some s
      else do {
        bs \<leftarrow> load_bytes p s;
        if length data \<le> length bs
        then store p (Bytes (map Some data @ drop (length data) bs)) s else None })"

definition copy_to_user_packets ::
  "nat \<Rightarrow> (u32 \<times> u32) list \<Rightarrow> ('e, 'z) machine_scheme \<Rightarrow> ('e, 'z) machine_scheme option" where
  "copy_to_user_packets p pkts s =
     (if pkts = [] then Some s
      else do {
        ks \<leftarrow> load_ioc_packets p s;
        if length pkts \<le> length ks
        then store p (IocPackets (map Some pkts @ drop (length pkts) ks)) s else None })"

section \<open>Closing and opening\<close>

text \<open>\<open>while((result = close(fd)) == -1 && errno == EINTR);\<close> (\<open>None\<close>: it never returns).\<close>

partial_function (option) usb_vhci_close ::
  "'e platform \<Rightarrow> i32 \<Rightarrow> ('e, 'z) machine_scheme \<Rightarrow> (i32 \<times> ('e, 'z) machine_scheme) option" where
  "usb_vhci_close P fd s =
     (let rt = syscall (p_close P fd) s
      in if fst rt = None \<and> errno (snd rt) = EINTR then usb_vhci_close P fd (snd rt)
         else Some (if fst rt = None then - 1 else 0, snd rt))"

text \<open>The characters in front of the terminating zero.\<close>

definition c_string :: "char list \<Rightarrow> char list" where
  "c_string cs = takeWhile (\<lambda>c. c \<noteq> CHR 0x00) cs"

text \<open>
  The three output parameters may be \<open>NULL\<close>; the result lists what was stored through them
  (\<open>None\<close>: nothing).
\<close>

record open_result =
  or_fd :: i32
  or_id :: "i32 option"
  or_busnum :: "i32 option"
  or_bus_id :: "nat option"

definition usb_vhci_open ::
  "'e platform \<Rightarrow> u8 \<Rightarrow> bool \<Rightarrow> bool \<Rightarrow> bool \<Rightarrow> ('e, 'z) machine_scheme \<Rightarrow>
   (open_result \<times> ('e, 'z) machine_scheme) option" where
  "usb_vhci_open P port_count want_id want_busnum want_bus_id s =
     (let failed = \<lparr>or_fd = - 1, or_id = None, or_busnum = None, or_bus_id = None\<rparr>
      in case syscall (p_open P) s of
        (None, s) \<Rightarrow> Some (failed, s)
      | (Some fd, s) \<Rightarrow>
          (case syscall (p_register P fd port_count) s of
             (None, s) \<Rightarrow> do {
               let err = errno s;
               (_, s) \<leftarrow> usb_vhci_close P fd s;
               Some (failed, s\<lparr>errno := err\<rparr>) }
           | (Some r, s) \<Rightarrow>
               (let (bus, s) =
                      (if want_bus_id
                       then (let arr = (ir_bus_id r)[length (ir_bus_id r) - 1 := CHR 0x00];
                                 (p, s) = malloc (Chars (c_string arr @ [CHR 0x00])) s
                             in (Some p, s))
                       else (None, s))
                in Some (\<lparr>or_fd = fd,
                          or_id = (if want_id then Some (ir_id r) else None),
                          or_busnum = (if want_busnum then Some (ir_usb_busnum r) else None),
                          or_bus_id = bus\<rparr>, s))))"

section \<open>Fetching work\<close>

text \<open>The inner \<open>switch(w.work.urb.type)\<close>, with its fall-through from ISO to INT.\<close>

definition fetch_urb_by_type ::
  "'z abi_scheme \<Rightarrow> ioc_urb \<Rightarrow> usb_vhci_urb \<Rightarrow> usb_vhci_urb option" where
  "fetch_urb_by_type k w u =
     (if iu_type w = URB_TYPE_ISO k
      then Some (u\<lparr>u_packet_count := iu_packet_count w, u_interval := iu_interval w\<rparr>)
      else if iu_type w = URB_TYPE_INT k then Some (u\<lparr>u_interval := iu_interval w\<rparr>)
      else if iu_type w = URB_TYPE_CONTROL k
      then Some (u\<lparr>u_wValue := is_wValue (iu_setup w), u_wIndex := is_wIndex (iu_setup w),
                   u_wLength := is_wLength (iu_setup w),
                   u_bmRequestType := is_bmRequestType (iu_setup w),
                   u_bRequest := is_bRequest (iu_setup w)\<rparr>)
      else if iu_type w = URB_TYPE_BULK k
      then Some (u\<lparr>u_flags := iu_flags w AND (FLAGS_SHORT_NOT_OK k OR FLAGS_ZERO_PACKET k)\<rparr>)
      else None)"

definition usb_vhci_fetch_work_timeout ::
  "'e platform \<Rightarrow> i32 \<Rightarrow> usb_vhci_work \<Rightarrow> i16 \<Rightarrow> ('e, 'z) machine_scheme \<Rightarrow>
   i32 \<times> usb_vhci_work \<times> ('e, 'z) machine_scheme" where
  "usb_vhci_fetch_work_timeout P fd work timeout s =
     (case syscall (p_fetch_work P fd timeout) s of
        (None, s) \<Rightarrow> (- 1, work, s)
      | (Some w, s) \<Rightarrow>
          if iw_type w = WORK_TYPE_PORT_STAT P then
            (0, \<lparr>wk_work = WorkPortStat \<lparr>ps_status = ip_status (iw_port w),
                                         ps_change = ip_change (iw_port w),
                                         ps_index = ip_index (iw_port w),
                                         ps_flags = ip_flags (iw_port w)\<rparr>,
                 wk_type = WORK_TYPE_PORT_STAT P\<rparr>, s)
          else if iw_type w = WORK_TYPE_PROCESS_URB P then
            (case fetch_urb_by_type P (iw_urb w) zero_urb of
               None \<Rightarrow> (- 1, work\<lparr>wk_work := WorkUrb zero_urb\<rparr>, s\<lparr>errno := EBADMSG\<rparr>)
             | Some u \<Rightarrow>
                 (let u = u\<lparr>u_type := iu_type (iw_urb w),
                            u_status := USB_VHCI_STATUS_PENDING,
                            u_handle := iw_handle w,
                            u_buffer_length := iu_buffer_length (iw_urb w)\<rparr>;
                      u = (if usb_vhci_is_out (iu_endpoint (iw_urb w)) \<or>
                              usb_vhci_is_iso P (u_type u)
                           then u\<lparr>u_buffer_actual := iu_buffer_length (iw_urb w)\<rparr> else u);
                      u = u\<lparr>u_devadr := iu_address (iw_urb w),
                            u_epadr := iu_endpoint (iw_urb w)\<rparr>
                  in (if u_buffer_actual u \<noteq> 0 \<or> u_packet_count u \<noteq> 0 then 1 else 0,
                      \<lparr>wk_work = WorkUrb u, wk_type = WORK_TYPE_PROCESS_URB P\<rparr>, s)))
          else if iw_type w = WORK_TYPE_CANCEL_URB P then
            (0, \<lparr>wk_work = WorkHandle (iw_handle w), wk_type = WORK_TYPE_CANCEL_URB P\<rparr>, s)
          else (- 1, work, s\<lparr>errno := EBADMSG\<rparr>))"

definition usb_vhci_fetch_work ::
  "'e platform \<Rightarrow> i32 \<Rightarrow> usb_vhci_work \<Rightarrow> ('e, 'z) machine_scheme \<Rightarrow>
   i32 \<times> usb_vhci_work \<times> ('e, 'z) machine_scheme" where
  "usb_vhci_fetch_work P fd work s = usb_vhci_fetch_work_timeout P fd work 100 s"

section \<open>Fetching data and giving back\<close>

text \<open>One iteration of the loop over the packets, and \<^verbatim>\<open>usb_vhci_fetch_data\<close>.\<close>

definition fetch_iso_packet ::
  "usb_vhci_urb \<Rightarrow> nat \<Rightarrow> nat \<Rightarrow> ('e, 'z) machine_scheme \<Rightarrow>
   ('e, 'z) machine_scheme option" where
  "fetch_iso_packet urb iso_packets i s = do {
     ks \<leftarrow> load_ioc_packets iso_packets s;
     (offset, packet_length) \<leftarrow> cell ks i;
     ps \<leftarrow> load_packets (u_iso_packets urb) s;
     if i < length ps
     then store (u_iso_packets urb)
            (Packets (ps[i := Some \<lparr>pk_offset = offset, pk_length = packet_length,
                                     pk_actual = 0, pk_status = USB_VHCI_STATUS_PENDING\<rparr>])) s
     else None }"

definition usb_vhci_fetch_data ::
  "'e platform \<Rightarrow> i32 \<Rightarrow> usb_vhci_urb \<Rightarrow> ('e, 'z) machine_scheme \<Rightarrow>
   (i32 \<times> ('e, 'z) machine_scheme) option" where
  "usb_vhci_fetch_data P fd urb s = do {
     let pc = u_packet_count urb;
     let (iso_packets, s) = (if 0 <s pc then malloc_array IocPackets pc s else (0, s));
     let (ret, s) = syscall (p_fetch_data P fd
            \<lparr>id_handle = u_handle urb, id_buffer_length = u_buffer_length urb,
             id_packet_count = pc, id_buffer = u_buffer urb,
             id_iso_packets = iso_packets\<rparr>) s;
     (case ret of
        None \<Rightarrow> do {
          s \<leftarrow> dealloc iso_packets s;
          Some (- 1, s) }
      | Some (data, pkts) \<Rightarrow> do {
          s \<leftarrow> copy_to_user_bytes (u_buffer urb) data s;
          s \<leftarrow> copy_to_user_packets iso_packets pkts s;
          s \<leftarrow> for_upto 0 (nat (sint pc)) (fetch_iso_packet urb iso_packets) s;
          s \<leftarrow> dealloc iso_packets s;
          Some (0, s) }) }"

definition give_iso_packet ::
  "usb_vhci_urb \<Rightarrow> nat \<Rightarrow> nat \<Rightarrow> ('e, 'z) machine_scheme \<Rightarrow>
   ('e, 'z) machine_scheme option" where
  "give_iso_packet urb iso_packets i s = do {
     ps \<leftarrow> load_packets (u_iso_packets urb) s;
     p \<leftarrow> cell ps i;
     ks \<leftarrow> load_ioc_status iso_packets s;
     if i < length ks
     then store iso_packets
            (IocStatus (ks[i := Some (usb_vhci_to_iso_packets_errno (pk_status p), pk_actual p)])) s
     else None }"

text \<open>What the kernel reads through a pointer of the request (\<open>NULL\<close>: nothing).\<close>

definition user_bytes ::
  "nat \<Rightarrow> ('e, 'z) machine_scheme \<Rightarrow> u8 option list option option" where
  "user_bytes p s = (if p = 0 then Some None else map_option Some (load_bytes p s))"

definition user_status ::
  "nat \<Rightarrow> ('e, 'z) machine_scheme \<Rightarrow> (i32 \<times> u32) option list option option" where
  "user_status p s = (if p = 0 then Some None else map_option Some (load_ioc_status p s))"

definition usb_vhci_giveback ::
  "'e platform \<Rightarrow> i32 \<Rightarrow> usb_vhci_urb \<Rightarrow> ('e, 'z) machine_scheme \<Rightarrow>
   (i32 \<times> ('e, 'z) machine_scheme) option" where
  "usb_vhci_giveback P fd urb s = do {
     let is_iso = usb_vhci_is_iso P (u_type urb);
     let status = usb_vhci_to_errno (u_status urb) (if is_iso then 1 else 0);
     let buffer = (if usb_vhci_is_in (u_epadr urb) \<and> 0 <s u_buffer_actual urb
                   then u_buffer urb else 0);
     let pc = u_packet_count urb;
     let (iso_packets, s) = (if is_iso then malloc_array IocStatus pc s else (0, s));
     s \<leftarrow> (if is_iso then for_upto 0 (nat (sint pc)) (give_iso_packet urb iso_packets) s
           else Some s);
     bytes \<leftarrow> user_bytes buffer s;
     packets \<leftarrow> user_status iso_packets s;
     let (ret, s) = syscall (p_giveback P fd
            \<lparr>ig_handle = u_handle urb, ig_status = status,
             ig_buffer_actual = u_buffer_actual urb,
             ig_packet_count = (if is_iso then pc else 0),
             ig_error_count = (if is_iso then u_error_count urb else 0),
             ig_buffer = bytes, ig_iso_packets = packets\<rparr>) s;
     s \<leftarrow> dealloc iso_packets s;
     (case ret of
        None \<Rightarrow> Some (if errno s = ECANCELED then 0 else - 1, s)
      | Some _ \<Rightarrow> Some (0, s\<lparr>errno := 0\<rparr>)) }"

section \<open>System calls\<close>

lemma syscall_frame [frame_simps]:
  "heap (snd (syscall f s)) = heap s" "brk (snd (syscall f s)) = brk s"
  "oom (snd (syscall f s)) = oom s" "naps (snd (syscall f s)) = naps s"
  "machine.more (snd (syscall f s)) = machine.more s"
  "env (snd (syscall f s)) = fst (f (env s))"
  by (simp_all add: syscall_def split: prod.split sum.split)

lemma syscall_None:
  "syscall f s = (None, t) \<longleftrightarrow>
     (\<exists>err. snd (f (env s)) = Inl err \<and> t = s\<lparr>env := fst (f (env s)), errno := err\<rparr>)"
  by (auto simp: syscall_def split: prod.split sum.split)

lemma syscall_Some:
  "syscall f s = (Some r, t) \<longleftrightarrow> snd (f (env s)) = Inr r \<and> t = s\<lparr>env := fst (f (env s))\<rparr>"
  by (auto simp: syscall_def split: prod.split sum.split)

section \<open>Closing\<close>

declare usb_vhci_close.simps [code]

text \<open>The environment after \<open>n\<close> calls of \<open>close\<close>, and the outcome of the next one.\<close>

fun close_env :: "'e platform \<Rightarrow> i32 \<Rightarrow> nat \<Rightarrow> 'e \<Rightarrow> 'e" where
  "close_env P fd 0 e = e"
| "close_env P fd (Suc n) e = close_env P fd n (fst (p_close P fd e))"

definition close_outcome :: "'e platform \<Rightarrow> i32 \<Rightarrow> nat \<Rightarrow> 'e \<Rightarrow> i32 + unit" where
  "close_outcome P fd n e = snd (p_close P fd (close_env P fd n e))"

lemma close_outcome_Suc:
  "close_outcome P fd (Suc n) e = close_outcome P fd n (fst (p_close P fd e))"
  by (simp add: close_outcome_def)

lemma close_step:
  "usb_vhci_close P fd s =
     (case snd (p_close P fd (env s)) of
        Inl err \<Rightarrow>
          (let t = s\<lparr>env := fst (p_close P fd (env s)), errno := err\<rparr>
           in if err = EINTR then usb_vhci_close P fd t else Some (- 1, t))
      | Inr _ \<Rightarrow> Some (0, s\<lparr>env := fst (p_close P fd (env s))\<rparr>))"
  by (subst usb_vhci_close.simps)
    (simp add: Let_def syscall_def split: prod.split sum.split)

lemma close_after_interrupts:
  assumes "\<forall>i<n. close_outcome P fd i (env s) = Inl EINTR"
    and "close_outcome P fd n (env s) \<noteq> Inl EINTR"
  shows "usb_vhci_close P fd s =
    Some (case close_outcome P fd n (env s) of Inl _ \<Rightarrow> - 1 | Inr _ \<Rightarrow> 0,
          s\<lparr>env := close_env P fd (Suc n) (env s),
            errno := (case close_outcome P fd n (env s) of
                        Inl err \<Rightarrow> err | Inr _ \<Rightarrow> if n = 0 then errno s else EINTR)\<rparr>)"
  using assms
proof (induction n arbitrary: s)
  case 0
  then show ?case
    by (subst close_step) (auto simp: close_outcome_def Let_def split: sum.split)
next
  case (Suc n)
  let ?t = "s\<lparr>env := fst (p_close P fd (env s)), errno := EINTR\<rparr>"
  from Suc.prems(1) have "close_outcome P fd 0 (env s) = Inl EINTR" by blast
  then have first: "usb_vhci_close P fd s = usb_vhci_close P fd ?t"
    by (subst close_step) (simp add: close_outcome_def)
  have "\<forall>i<n. close_outcome P fd i (env ?t) = Inl EINTR"
  proof (intro allI impI)
    fix i assume "i < n"
    with Suc.prems(1) have "close_outcome P fd (Suc i) (env s) = Inl EINTR" by blast
    then show "close_outcome P fd i (env ?t) = Inl EINTR" by (simp add: close_outcome_Suc)
  qed
  moreover have "close_outcome P fd n (env ?t) \<noteq> Inl EINTR"
    using Suc.prems(2) by (simp add: close_outcome_Suc)
  ultimately have "usb_vhci_close P fd ?t =
    Some (case close_outcome P fd n (env ?t) of Inl _ \<Rightarrow> - 1 | Inr _ \<Rightarrow> 0,
          ?t\<lparr>env := close_env P fd (Suc n) (env ?t),
            errno := (case close_outcome P fd n (env ?t) of
                        Inl err \<Rightarrow> err | Inr _ \<Rightarrow> if n = 0 then errno ?t else EINTR)\<rparr>)"
    by (rule Suc.IH)
  then show ?case unfolding first by (simp add: close_outcome_Suc split: sum.split)
qed


lemma close_returns_only_if:
  assumes "usb_vhci_close P fd s = Some r"
  shows "\<exists>n. close_outcome P fd n (env s) \<noteq> Inl EINTR"
proof -
  let ?Q = "\<lambda>(Pfs :: ('a platform \<times> i32) \<times> ('a, 'b) machine_scheme)
      (_ :: i32 \<times> ('a, 'b) machine_scheme).
      \<exists>n. close_outcome (fst (fst Pfs)) (snd (fst Pfs)) n (env (snd Pfs)) \<noteq> Inl EINTR"
  have "?Q ((P, fd), s) r"
  proof (rule usb_vhci_close.raw_induct [where Pa = ?Q, OF _ assms])
    fix f :: "'a platform \<Rightarrow> i32 \<Rightarrow> ('a, 'b) machine_scheme \<Rightarrow> (i32 \<times> ('a, 'b) machine_scheme) option"
      and P fd s r
    assume IH: "\<And>P fd s r. f P fd s = Some r \<Longrightarrow> ?Q ((P, fd), s) r"
      and eq: "(let rt = syscall (p_close P fd) s
        in if fst rt = None \<and> errno (snd rt) = EINTR then f P fd (snd rt)
           else Some (if fst rt = None then - 1 else 0, snd rt)) = Some r"
    show "?Q ((P, fd), s) r"
    proof (cases "close_outcome P fd 0 (env s) = Inl EINTR")
      case True
      then have "syscall (p_close P fd) s =
          (None, s\<lparr>env := fst (p_close P fd (env s)), errno := EINTR\<rparr>)"
        by (simp add: syscall_None close_outcome_def)
      with eq have "f P fd (s\<lparr>env := fst (p_close P fd (env s)), errno := EINTR\<rparr>) = Some r"
        by (simp add: Let_def)
      from IH [OF this] obtain n where "close_outcome P fd (Suc n) (env s) \<noteq> Inl EINTR"
        by (auto simp: close_outcome_Suc)
      then show ?thesis by auto
    next
      case False
      then show ?thesis by auto
    qed
  qed
  then show ?thesis by simp
qed

text \<open>
  C25. Closing terminates exactly when some call of \<open>close\<close> is not interrupted: if every call
  fails with \<open>EINTR\<close> the function never returns, otherwise it returns after the first call
  that was not interrupted, with \<open>0\<close> or \<open>-1\<close> as that call succeeded or failed, and never
  with \<open>EINTR\<close> as the reason of a failure.
\<close>

theorem close_terminates_iff:
  "(usb_vhci_close P fd s = None) = (\<forall>n. close_outcome P fd n (env s) = Inl EINTR) \<and>
   (case usb_vhci_close P fd s of
      None \<Rightarrow> True
    | Some (r, t) \<Rightarrow>
        \<exists>n. env t = close_env P fd (Suc n) (env s) \<and>
            (case close_outcome P fd n (env s) of
               Inl err \<Rightarrow> r = - 1 \<and> errno t = err \<and> err \<noteq> EINTR
             | Inr _ \<Rightarrow> r = 0))"
proof (cases "\<forall>n. close_outcome P fd n (env s) = Inl EINTR")
  case True
  then have "usb_vhci_close P fd s = None"
    using close_returns_only_if [of P fd s] by (meson not_None_eq)
  with True show ?thesis by simp
next
  case False
  then obtain n where n: "close_outcome P fd n (env s) \<noteq> Inl EINTR"
      "\<forall>i<n. close_outcome P fd i (env s) = Inl EINTR"
    using exists_least_iff [of "\<lambda>n. close_outcome P fd n (env s) \<noteq> Inl EINTR"] by auto
  note ret = close_after_interrupts [OF n(2,1)]
  show ?thesis
  proof (cases "close_outcome P fd n (env s)")
    case (Inl err)
    with n(1) False show ?thesis unfolding ret by (auto intro!: exI [of _ n])
  next
    case (Inr u)
    with ret obtain er where
      "usb_vhci_close P fd s = Some (0, s\<lparr>env := close_env P fd (Suc n) (env s), errno := er\<rparr>)"
      by simp
    with Inr False show ?thesis by (auto intro!: exI [of _ n])
  qed
qed

section \<open>Opening\<close>

lemma first_outcome:
  assumes "close_outcome P fd k e \<noteq> Inl EINTR"
  obtains n where "close_outcome P fd n e \<noteq> Inl EINTR" "\<forall>i<n. close_outcome P fd i e = Inl EINTR"
  using exists_least_iff [of "\<lambda>n. close_outcome P fd n e \<noteq> Inl EINTR"] assms by auto

lemma close_returns:
  "close_outcome P fd k (env s) \<noteq> Inl EINTR \<Longrightarrow> \<exists>r t. usb_vhci_close P fd s = Some (r, t)"
  by (erule first_outcome) (auto dest: close_after_interrupts)

lemma close_returned:
  assumes "usb_vhci_close P fd s = Some (r, t)"
  shows "\<exists>n er. close_outcome P fd n (env s) \<noteq> Inl EINTR \<and>
    t = s\<lparr>env := close_env P fd (Suc n) (env s), errno := er\<rparr>"
proof -
  obtain n where n: "close_outcome P fd n (env s) \<noteq> Inl EINTR"
      "\<forall>i<n. close_outcome P fd i (env s) = Inl EINTR"
    using close_returns_only_if [OF assms] by (auto elim: first_outcome)
  from close_after_interrupts [OF n(2,1)] assms
  have "\<exists>er. t = s\<lparr>env := close_env P fd (Suc n) (env s), errno := er\<rparr>"
    by (auto simp del: close_env.simps)
  with n(1) show ?thesis by blast
qed

lemma c_string_no_zero: "CHR 0x00 \<notin> set (c_string cs)"
  by (auto simp: c_string_def dest: set_takeWhileD)

lemma c_string_short:
  assumes "cs \<noteq> []"
  shows "length (c_string (cs[length cs - 1 := CHR 0x00])) < length cs"
proof -
  obtain ys y where cs: "cs = ys @ [y]" using assms by (cases cs rule: rev_cases) auto
  have "c_string (cs[length cs - 1 := CHR 0x00]) = c_string ys"
    by (auto simp: c_string_def cs takeWhile_append takeWhile_eq_all_conv [THEN iffD2])
  then show ?thesis
    using length_takeWhile_le [of "\<lambda>c. c \<noteq> CHR 0x00" ys] by (simp add: cs c_string_def)
qed

text \<open>
  The bus id a caller gets: what stands in the kernel's array in front of its last element,
  up to the first zero.
\<close>

definition bus_id_of :: "ioc_register \<Rightarrow> char list" where
  "bus_id_of r = takeWhile (\<lambda>c. c \<noteq> CHR 0x00) (butlast (ir_bus_id r))"

lemma c_string_bus_id:
  "c_string ((ir_bus_id r)[length (ir_bus_id r) - 1 := CHR 0x00]) = bus_id_of r"
  by (cases "ir_bus_id r" rule: rev_cases)
    (auto simp: c_string_def bus_id_of_def takeWhile_append takeWhile_eq_all_conv [THEN iffD2])

lemma bus_id_no_zero: "CHR 0x00 \<notin> set (bus_id_of r)"
  by (auto simp: bus_id_of_def dest: set_takeWhileD)

lemma bus_id_short: "ir_bus_id r \<noteq> [] \<Longrightarrow> length (bus_id_of r) < length (ir_bus_id r)"
  using c_string_short [of "ir_bus_id r"] c_string_bus_id [of r] by simp

lemma open_registered:
  assumes open1: "snd (p_open P (env s)) = Inr fd"
    and reg: "snd (p_register P fd n (fst (p_open P (env s)))) = Inr r"
    and ok: "heap_ok s"
  shows "\<exists>res t. usb_vhci_open P n a b c s = Some (res, t) \<and> or_fd res = fd \<and>
    or_id res = (if a then Some (ir_id r) else None) \<and>
    or_busnum res = (if b then Some (ir_usb_busnum r) else None) \<and>
    env t = fst (p_register P fd n (fst (p_open P (env s)))) \<and>
    (case or_bus_id res of
       None \<Rightarrow> \<not> c \<and> heap t = heap s
     | Some p \<Rightarrow> c \<and>
         (if fst (alloc_fails s) then p = 0 \<and> heap t = heap s \<and> errno t = ENOMEM
          else p \<noteq> 0 \<and> heap s p = None \<and>
            heap t = (heap s)(p \<mapsto> Chars (bus_id_of r @ [CHR 0x00]))))"
proof -
  let ?s2 = "s\<lparr>env := fst (p_register P fd n (fst (p_open P (env s))))\<rparr>"
  have calls: "syscall (p_open P) s = (Some fd, s\<lparr>env := fst (p_open P (env s))\<rparr>)"
      "syscall (p_register P fd n) (s\<lparr>env := fst (p_open P (env s))\<rparr>) = (Some r, ?s2)"
    using open1 reg by (simp_all add: syscall_Some)
  show ?thesis
  proof (cases c)
    case False
    with calls show ?thesis by (simp add: usb_vhci_open_def)
  next
    case True
    obtain p t where pt: "alloc (Chars (bus_id_of r @ [CHR 0x00])) ?s2 = (p, t)" by fastforce
    have op: "usb_vhci_open P n a b c s =
      Some (\<lparr>or_fd = fd, or_id = (if a then Some (ir_id r) else None),
             or_busnum = (if b then Some (ir_usb_busnum r) else None), or_bus_id = Some p\<rparr>,
            if p = 0 then t\<lparr>errno := ENOMEM\<rparr> else t)"
      using calls True pt c_string_bus_id [of r] by (simp add: usb_vhci_open_def malloc_def Let_def)
    have fails: "fst (alloc_fails ?s2) = fst (alloc_fails s)"
      by (simp add: alloc_fails_def split: list.split)
    have pt': "if fst (alloc_fails s) then p = 0 \<and> heap t = heap s \<and> env t = env ?s2
        else p \<noteq> 0 \<and> heap s p = None \<and> env t = env ?s2 \<and>
          heap t = (heap s)(p \<mapsto> Chars (bus_id_of r @ [CHR 0x00]))"
      using pt ok fails by (auto simp: alloc_def alloc_fails_def heap_ok_def split: list.splits if_splits)
    show ?thesis
    proof (cases "fst (alloc_fails s)")
      case f: True
      with pt' have "p = 0" "heap t = heap s" "env t = env ?s2" by simp_all
      with op f True show ?thesis by simp
    next
      case f: False
      with pt' have "p \<noteq> 0" "heap s p = None" "env t = env ?s2"
        "heap t = (heap s)(p \<mapsto> Chars (bus_id_of r @ [CHR 0x00]))" by simp_all
      with op f True show ?thesis by simp
    qed
  qed
qed

text \<open>
  C26. What opening does on each of its paths, and that it never hides the reason of a
  failure. When the device does not open, the result is \<open>-1\<close> with the \<open>errno\<close> of \<open>open\<close> and
  nothing else is called. When it opens but the registration is refused, the descriptor is
  closed again (\<open>close\<close> repeated while it is interrupted, assumed to come to another outcome
  at some time) and the caller sees \<open>-1\<close> with the \<open>errno\<close> of the refused ioctl, whatever
  closing did to \<open>errno\<close>. When both succeed the descriptor, the controller's id and the bus
  number are returned as far as they are asked for, and the bus id, if asked for, is a fresh
  zero-terminated string with the characters that the kernel's array holds in front of its
  first zero and of its last element; when \<open>malloc\<close> fails it is \<open>NULL\<close>, and opening succeeds
  all the same.
\<close>

theorem open_paths:
  assumes "heap_ok s"
    and closes: "\<And>fd err. snd (p_open P (env s)) = Inr fd \<Longrightarrow>
           snd (p_register P fd n (fst (p_open P (env s)))) = Inl err \<Longrightarrow>
           \<exists>k. close_outcome P fd k
                 (fst (p_register P fd n (fst (p_open P (env s))))) \<noteq> Inl EINTR"
    and array: "\<And>fd r. snd (p_open P (env s)) = Inr fd \<Longrightarrow>
           snd (p_register P fd n (fst (p_open P (env s)))) = Inr r \<Longrightarrow> ir_bus_id r \<noteq> []"
  shows "\<exists>res t. usb_vhci_open P n a b c s = Some (res, t) \<and>
    (case snd (p_open P (env s)) of
       Inl err \<Rightarrow> or_fd res = - 1 \<and> or_bus_id res = None \<and> errno t = err \<and> heap t = heap s \<and>
         env t = fst (p_open P (env s))
     | Inr fd \<Rightarrow>
        (case snd (p_register P fd n (fst (p_open P (env s)))) of
           Inl err \<Rightarrow> or_fd res = - 1 \<and> or_bus_id res = None \<and> errno t = err \<and> heap t = heap s \<and>
             (\<exists>j. env t = close_env P fd (Suc j)
                            (fst (p_register P fd n (fst (p_open P (env s))))) \<and>
                  close_outcome P fd j
                    (fst (p_register P fd n (fst (p_open P (env s))))) \<noteq> Inl EINTR)
         | Inr r \<Rightarrow> or_fd res = fd \<and> or_id res = (if a then Some (ir_id r) else None) \<and>
             or_busnum res = (if b then Some (ir_usb_busnum r) else None) \<and>
             env t = fst (p_register P fd n (fst (p_open P (env s)))) \<and>
             (case or_bus_id res of
                None \<Rightarrow> \<not> c \<and> heap t = heap s
              | Some p \<Rightarrow> c \<and>
                  (if fst (alloc_fails s) then p = 0 \<and> heap t = heap s \<and> errno t = ENOMEM
                   else p \<noteq> 0 \<and> heap s p = None \<and>
                     heap t = (heap s)(p \<mapsto> Chars (bus_id_of r @ [CHR 0x00])) \<and>
                     CHR 0x00 \<notin> set (bus_id_of r) \<and>
                     length (bus_id_of r) < length (ir_bus_id r)))))"
proof (cases "snd (p_open P (env s))")
  case (Inl err)
  then have "syscall (p_open P) s = (None, s\<lparr>env := fst (p_open P (env s)), errno := err\<rparr>)"
    by (simp add: syscall_None)
  with Inl show ?thesis by (simp add: usb_vhci_open_def)
next
  case open1: (Inr fd)
  let ?e1 = "fst (p_open P (env s))"
  let ?e2 = "fst (p_register P fd n ?e1)"
  show ?thesis
  proof (cases "snd (p_register P fd n ?e1)")
    case (Inl err)
    let ?s2 = "s\<lparr>env := ?e2, errno := err\<rparr>"
    obtain k where "close_outcome P fd k ?e2 \<noteq> Inl EINTR" using closes [OF open1 Inl] ..
    then obtain r t where close: "usb_vhci_close P fd ?s2 = Some (r, t)"
      using close_returns [of P fd k ?s2] by auto
    then obtain j er where "close_outcome P fd j ?e2 \<noteq> Inl EINTR"
        "t = ?s2\<lparr>env := close_env P fd (Suc j) ?e2, errno := er\<rparr>"
      using close_returned [OF close] by auto
    moreover have "syscall (p_open P) s = (Some fd, s\<lparr>env := ?e1\<rparr>)"
        "syscall (p_register P fd n) (s\<lparr>env := ?e1\<rparr>) = (None, ?s2)"
      using open1 Inl by (simp_all add: syscall_Some syscall_None)
    ultimately show ?thesis
      using open1 Inl close by (auto simp: usb_vhci_open_def simp del: close_env.simps)
  next
    case (Inr r)
    have ne: "ir_bus_id r \<noteq> []" by (rule array [OF open1 Inr])
    obtain res t where "usb_vhci_open P n a b c s = Some (res, t)" "or_fd res = fd"
        "or_id res = (if a then Some (ir_id r) else None)"
        "or_busnum res = (if b then Some (ir_usb_busnum r) else None)" "env t = ?e2"
      and bus: "case or_bus_id res of
         None \<Rightarrow> \<not> c \<and> heap t = heap s
       | Some p \<Rightarrow> c \<and>
           (if fst (alloc_fails s) then p = 0 \<and> heap t = heap s \<and> errno t = ENOMEM
            else p \<noteq> 0 \<and> heap s p = None \<and>
              heap t = (heap s)(p \<mapsto> Chars (bus_id_of r @ [CHR 0x00])))"
      using open_registered [OF open1 Inr \<open>heap_ok s\<close>, of a b c] by blast
    then show ?thesis
      using open1 Inr bus_id_no_zero [of r] bus_id_short [OF ne]
      by (intro exI [of _ res] exI [of _ t]) (cases "or_bus_id res"; simp split: if_splits)
  qed
qed

theorem open_paths_witness:
  "(\<exists>res t. usb_vhci_open (sample_platform (Inl 0) sample_reply (Inl ENODEV)) 4 True True True
       \<lparr>env = [], errno = 0, heap = Map.empty, brk = 1, oom = [], naps = []\<rparr> = Some (res, t) \<and>
     or_fd res = - 1 \<and> errno t = ENODEV) \<and>
   (\<exists>res t. usb_vhci_open plain_platform 4 True True True
       \<lparr>env = [], errno = 0, heap = Map.empty, brk = 1, oom = [], naps = []\<rparr> = Some (res, t) \<and>
     (\<exists>p. or_bus_id res = Some p \<and> heap t = [p \<mapsto> Chars (''vhci_hcd.'' @ [CHR 0x00])]))"
proof -
  let ?s = "\<lparr>env = [], errno = 0, heap = Map.empty, brk = 1, oom = [], naps = []\<rparr> :: log machine"
  let ?P = "sample_platform (Inl 0) sample_reply (Inl ENODEV)"
  have ok: "heap_ok ?s" by (simp add: heap_ok_def)
  let ?r = "\<lparr>ir_id = 0, ir_usb_busnum = 1, ir_bus_id = ''vhci_hcd.0''\<rparr>"
  have P: "p_open ?P [] = ([Opened], Inr 3)" "p_register ?P 3 4 [Opened] = ([Registered 4, Opened], Inl ENODEV)"
      "close_outcome ?P 3 0 [Registered 4, Opened] \<noteq> Inl EINTR"
    by (simp_all add: close_outcome_def sample_platform_simps)
  have "\<exists>k. close_outcome ?P 3 k [Registered 4, Opened] \<noteq> Inl EINTR" using P(3) by blast
  then obtain res and t :: "log machine" where "usb_vhci_open ?P 4 True True True ?s = Some (res, t)"
    "or_fd res = - 1" "errno t = ENODEV"
    using open_paths [of ?s ?P 4 True True True, OF ok] by (auto simp: P(1,2))
  then have refused: "\<exists>res t. usb_vhci_open ?P 4 True True True ?s = Some (res, t) \<and>
      or_fd res = - 1 \<and> errno t = ENODEV" by blast
  have Q: "p_open plain_platform [] = ([Opened], Inr 3)"
      "p_register plain_platform 3 4 [Opened] = ([Registered 4, Opened], Inr ?r)"
      "bus_id_of ?r = ''vhci_hcd.''"
    by (simp_all add: sample_platform_simps bus_id_of_def)
  have "fst (alloc_fails ?s) = False" by (simp add: alloc_fails_def)
  note open_paths [of ?s plain_platform 4 True True True, OF ok, simplified this]
  then obtain res and t :: "log machine" where
      o: "usb_vhci_open plain_platform 4 True True True ?s = Some (res, t)"
    and "case or_bus_id res of None \<Rightarrow> False
         | Some p \<Rightarrow> heap t = (heap ?s)(p \<mapsto> Chars (bus_id_of ?r @ [CHR 0x00]))"
    by (simp add: Q(1,2)) (force split: option.splits)
  then obtain p where "or_bus_id res = Some p" "heap t = [p \<mapsto> Chars (bus_id_of ?r @ [CHR 0x00])]"
    by (cases "or_bus_id res") simp_all
  with o refused Q(3) show ?thesis by auto
qed

section \<open>What fetching work delivers\<close>

definition known_urb_type :: "'z abi_scheme \<Rightarrow> u8 \<Rightarrow> bool" where
  "known_urb_type k t \<longleftrightarrow>
     t = URB_TYPE_ISO k \<or> t = URB_TYPE_INT k \<or> t = URB_TYPE_CONTROL k \<or> t = URB_TYPE_BULK k"

definition known_work :: "'z abi_scheme \<Rightarrow> ioc_work \<Rightarrow> bool" where
  "known_work k w \<longleftrightarrow>
     (if iw_type w = WORK_TYPE_PORT_STAT k then True
      else if iw_type w = WORK_TYPE_PROCESS_URB k then known_urb_type k (iu_type (iw_urb w))
      else iw_type w = WORK_TYPE_CANCEL_URB k)"

text \<open>
  The shape of a URB as it comes from the kernel: pending, without memory, and with the
  fields that its transfer type does not have all zero.
\<close>

definition fetched_urb_wf :: "'z abi_scheme \<Rightarrow> usb_vhci_urb \<Rightarrow> bool" where
  "fetched_urb_wf k u \<longleftrightarrow>
     known_urb_type k (u_type u) \<and> u_status u = USB_VHCI_STATUS_PENDING \<and>
     u_buffer u = 0 \<and> u_iso_packets u = 0 \<and> u_error_count u = 0 \<and>
     (u_type u \<noteq> URB_TYPE_ISO k \<longrightarrow> u_packet_count u = 0) \<and>
     (u_type u \<noteq> URB_TYPE_ISO k \<and> u_type u \<noteq> URB_TYPE_INT k \<longrightarrow> u_interval u = 0) \<and>
     (u_type u \<noteq> URB_TYPE_CONTROL k \<longrightarrow>
        u_wValue u = 0 \<and> u_wIndex u = 0 \<and> u_wLength u = 0 \<and> u_bmRequestType u = 0 \<and>
        u_bRequest u = 0) \<and>
     (u_type u \<noteq> URB_TYPE_BULK k \<longrightarrow> u_flags u = 0) \<and>
     u_flags u AND NOT (FLAGS_SHORT_NOT_OK k OR FLAGS_ZERO_PACKET k) = 0 \<and>
     u_buffer_actual u =
       (if usb_vhci_is_out (u_epadr u) \<or> usb_vhci_is_iso k (u_type u) then u_buffer_length u else 0)"

definition urb_from_kernel :: "ioc_work \<Rightarrow> usb_vhci_urb \<Rightarrow> bool" where
  "urb_from_kernel w u \<longleftrightarrow>
     u_handle u = iw_handle w \<and> u_type u = iu_type (iw_urb w) \<and>
     u_devadr u = iu_address (iw_urb w) \<and> u_epadr u = iu_endpoint (iw_urb w) \<and>
     u_buffer_length u = iu_buffer_length (iw_urb w)"

text \<open>
  What the fields of its transfer type hold (in the order of the \<open>switch\<close>, whose constants
  come from the kernel's header).
\<close>

definition urb_fields_sent :: "'z abi_scheme \<Rightarrow> ioc_work \<Rightarrow> usb_vhci_urb \<Rightarrow> bool" where
  "urb_fields_sent k w u \<longleftrightarrow>
     (if u_type u = URB_TYPE_ISO k
      then u_packet_count u = iu_packet_count (iw_urb w) \<and> u_interval u = iu_interval (iw_urb w)
      else if u_type u = URB_TYPE_INT k then u_interval u = iu_interval (iw_urb w)
      else if u_type u = URB_TYPE_CONTROL k
      then u_wValue u = is_wValue (iu_setup (iw_urb w)) \<and>
           u_wIndex u = is_wIndex (iu_setup (iw_urb w)) \<and>
           u_wLength u = is_wLength (iu_setup (iw_urb w)) \<and>
           u_bmRequestType u = is_bmRequestType (iu_setup (iw_urb w)) \<and>
           u_bRequest u = is_bRequest (iu_setup (iw_urb w))
      else u_flags u = iu_flags (iw_urb w) AND (FLAGS_SHORT_NOT_OK k OR FLAGS_ZERO_PACKET k))"

lemma and_not_and: "(x AND m) AND NOT m = (0 :: 'a::len word)"
  by (auto simp: bit_eq_iff bit_simps)

lemma fetch_urb_by_type_cases:
  assumes "fetch_urb_by_type k w u = Some v"
  shows "known_urb_type k (iu_type w) \<and> u_buffer v = u_buffer u \<and> u_iso_packets v = u_iso_packets u \<and>
    u_error_count v = u_error_count u \<and> u_buffer_actual v = u_buffer_actual u \<and>
    (iu_type w \<noteq> URB_TYPE_ISO k \<longrightarrow> u_packet_count v = u_packet_count u) \<and>
    (iu_type w \<noteq> URB_TYPE_ISO k \<and> iu_type w \<noteq> URB_TYPE_INT k \<longrightarrow> u_interval v = u_interval u) \<and>
    (iu_type w \<noteq> URB_TYPE_CONTROL k \<longrightarrow> u_wValue v = u_wValue u \<and> u_wIndex v = u_wIndex u \<and>
       u_wLength v = u_wLength u \<and> u_bmRequestType v = u_bmRequestType u \<and>
       u_bRequest v = u_bRequest u) \<and>
    (iu_type w \<noteq> URB_TYPE_BULK k \<longrightarrow> u_flags v = u_flags u) \<and>
    (u_flags v = u_flags u \<or>
     u_flags v = iu_flags w AND (FLAGS_SHORT_NOT_OK k OR FLAGS_ZERO_PACKET k))"
  using assms
  by (auto simp: fetch_urb_by_type_def known_urb_type_def split: if_splits)

lemma fetch_urb_by_type_None:
  "fetch_urb_by_type k w u = None \<longleftrightarrow> \<not> known_urb_type k (iu_type w)"
  by (auto simp: fetch_urb_by_type_def known_urb_type_def)

definition fetched_urb :: "'z abi_scheme \<Rightarrow> ioc_work \<Rightarrow> usb_vhci_urb \<Rightarrow> usb_vhci_urb" where
  "fetched_urb k w v =
     (let u = v\<lparr>u_type := iu_type (iw_urb w), u_status := USB_VHCI_STATUS_PENDING,
                u_handle := iw_handle w, u_buffer_length := iu_buffer_length (iw_urb w)\<rparr>;
          u = (if usb_vhci_is_out (iu_endpoint (iw_urb w)) \<or> usb_vhci_is_iso k (u_type u)
               then u\<lparr>u_buffer_actual := iu_buffer_length (iw_urb w)\<rparr> else u)
      in u\<lparr>u_devadr := iu_address (iw_urb w), u_epadr := iu_endpoint (iw_urb w)\<rparr>)"

lemma fetched_urb_shape:
  assumes "fetch_urb_by_type k (iw_urb w) zero_urb = Some v"
  shows "fetched_urb_wf k (fetched_urb k w v) \<and> urb_from_kernel w (fetched_urb k w v)"
proof -
  note v = fetch_urb_by_type_cases [OF assms, unfolded zero_urb_def, simplified]
  have "u_flags v AND NOT (FLAGS_SHORT_NOT_OK k OR FLAGS_ZERO_PACKET k) = 0"
    using v and_not_and [of "iu_flags (iw_urb w)"] by (metis and_zero_eq bit.conj_zero_left)
  then show ?thesis
    using v by (simp add: fetched_urb_def fetched_urb_wf_def urb_from_kernel_def Let_def)
qed

lemma fetched_urb_sent:
  assumes "fetch_urb_by_type k (iw_urb w) zero_urb = Some v"
  shows "urb_fields_sent k w (fetched_urb k w v)"
  using assms
  by (auto simp: fetch_urb_by_type_def fetched_urb_def urb_fields_sent_def Let_def split: if_splits)

text \<open>
  C24. What fetching work returns, for every answer of the kernel. A failing ioctl gives
  \<open>-1\<close> and leaves the caller's structure alone; work of unknown type gives \<open>-1\<close> with
  \<open>EBADMSG\<close>; everything else is passed on as the kernel sent it: handle, addresses, type and
  length of a URB, and the fields of its transfer type (packet count and interval, the five
  setup fields each from its own, or the two known flags), while it is pending, without
  memory and with the fields foreign to its transfer type zero. The result is 1
  exactly for a URB whose data still has to be fetched.
\<close>

theorem fetch_work_result:
  "case usb_vhci_fetch_work_timeout P fd work timeout s of (r, w, t) \<Rightarrow>
     heap t = heap s \<and> env t = fst (p_fetch_work P fd timeout (env s)) \<and>
     (case snd (p_fetch_work P fd timeout (env s)) of
        Inl err \<Rightarrow> r = - 1 \<and> w = work \<and> errno t = err
      | Inr kw \<Rightarrow>
          if \<not> known_work P kw
          then r = - 1 \<and> errno t = EBADMSG \<and> wk_type w = wk_type work
          else wk_type w = iw_type kw \<and>
            (case wk_work w of
               WorkPortStat p \<Rightarrow> r = 0 \<and> iw_type kw = WORK_TYPE_PORT_STAT P \<and>
                 p = \<lparr>ps_status = ip_status (iw_port kw), ps_change = ip_change (iw_port kw),
                      ps_index = ip_index (iw_port kw), ps_flags = ip_flags (iw_port kw)\<rparr>
             | WorkHandle h \<Rightarrow> r = 0 \<and> iw_type kw = WORK_TYPE_CANCEL_URB P \<and> h = iw_handle kw
             | WorkUrb u \<Rightarrow> iw_type kw = WORK_TYPE_PROCESS_URB P \<and> fetched_urb_wf P u \<and>
                 urb_from_kernel kw u \<and> urb_fields_sent P kw u \<and>
                 r = (if u_buffer_actual u = 0 \<and> u_packet_count u = 0 then 0 else 1)))"
proof (cases "snd (p_fetch_work P fd timeout (env s))")
  case (Inl err)
  then have "syscall (p_fetch_work P fd timeout) s =
      (None, s\<lparr>env := fst (p_fetch_work P fd timeout (env s)), errno := err\<rparr>)"
    by (simp add: syscall_None)
  with Inl show ?thesis by (simp add: usb_vhci_fetch_work_timeout_def)
next
  case (Inr kw)
  then have call: "syscall (p_fetch_work P fd timeout) s =
      (Some kw, s\<lparr>env := fst (p_fetch_work P fd timeout (env s))\<rparr>)"
    by (simp add: syscall_Some)
  show ?thesis
  proof (cases "iw_type kw = WORK_TYPE_PROCESS_URB P \<and> iw_type kw \<noteq> WORK_TYPE_PORT_STAT P")
    case True
    show ?thesis
    proof (cases "fetch_urb_by_type P (iw_urb kw) zero_urb")
      case None
      then have "\<not> known_work P kw"
        using True fetch_urb_by_type_None [of P "iw_urb kw" zero_urb] by (auto simp: known_work_def)
      with True call Inr None show ?thesis
        by (auto simp: usb_vhci_fetch_work_timeout_def split del: if_split)
    next
      case (Some v)
      then have "known_work P kw"
        using True fetch_urb_by_type_None [of P "iw_urb kw" zero_urb] by (auto simp: known_work_def)
      moreover have "usb_vhci_fetch_work_timeout P fd work timeout s =
        (let u = fetched_urb P kw v
         in (if u_buffer_actual u \<noteq> 0 \<or> u_packet_count u \<noteq> 0 then 1 else 0,
             \<lparr>wk_work = WorkUrb u, wk_type = WORK_TYPE_PROCESS_URB P\<rparr>,
             s\<lparr>env := fst (p_fetch_work P fd timeout (env s))\<rparr>))"
        using True call Some
        by (auto simp: usb_vhci_fetch_work_timeout_def fetched_urb_def Let_def split del: if_split)
      ultimately show ?thesis
        using True Inr fetched_urb_shape [OF Some] fetched_urb_sent [OF Some] by (auto simp: Let_def)
    qed
  next
    case False
    with call Inr show ?thesis
      by (simp add: usb_vhci_fetch_work_timeout_def known_work_def)
  qed
qed
end
