(* ===== verification/Port_Requests.thy ===== *)
theory Port_Requests
  imports Libusb_C
begin

text \<open>
  The six port notifications of \<^verbatim>\<open>libusb_vhci.c\<close> (\<^verbatim>\<open>usb_vhci_port_connect\<close> and so on).
  Each checks its arguments, builds a port status message and sends it with one ioctl. The
  abstract side is a type of port events, and a decoder that reads an event back from a
  message, so that the messages are shown to be faithful and pairwise distinguishable.
\<close>

section \<open>The code\<close>

definition USB_VHCI_DATA_RATE_FULL :: u8 where [simp]: "USB_VHCI_DATA_RATE_FULL = 0"
definition USB_VHCI_DATA_RATE_LOW :: u8 where [simp]: "USB_VHCI_DATA_RATE_LOW = 1"
definition USB_VHCI_DATA_RATE_HIGH :: u8 where [simp]: "USB_VHCI_DATA_RATE_HIGH = 2"

text \<open>The common tail: \<open>if(ioctl(fd, USB_VHCI_HCD_IOCPORTSTAT, &ps) == -1) return -1; return 0;\<close>\<close>

definition send_port_stat ::
  "'e platform \<Rightarrow> i32 \<Rightarrow> ioc_port_stat \<Rightarrow> ('e, 'z) machine_scheme \<Rightarrow>
   i32 \<times> ('e, 'z) machine_scheme" where
  "send_port_stat P fd ps s =
     (case syscall (p_port_stat P fd ps) s of (None, s) \<Rightarrow> (- 1, s) | (Some _, s) \<Rightarrow> (0, s))"

definition usb_vhci_port_connect ::
  "'e platform \<Rightarrow> i32 \<Rightarrow> u8 \<Rightarrow> u8 \<Rightarrow> ('e, 'z) machine_scheme \<Rightarrow>
   i32 \<times> ('e, 'z) machine_scheme" where
  "usb_vhci_port_connect P fd port data_rate s =
     (if port = 0 \<or>
         (data_rate \<noteq> USB_VHCI_DATA_RATE_FULL \<and> data_rate \<noteq> USB_VHCI_DATA_RATE_LOW \<and>
          data_rate \<noteq> USB_VHCI_DATA_RATE_HIGH)
      then (- 1, s\<lparr>errno := EINVAL\<rparr>)
      else
        let status = USB_PORT_STAT_CONNECTION P;
            status = (if data_rate = USB_VHCI_DATA_RATE_LOW
                      then status OR USB_PORT_STAT_LOW_SPEED P else status);
            status = (if data_rate = USB_VHCI_DATA_RATE_HIGH
                      then status OR USB_PORT_STAT_HIGH_SPEED P else status)
        in send_port_stat P fd
             \<lparr>ip_status = status, ip_change = USB_PORT_STAT_C_CONNECTION P,
              ip_index = port, ip_flags = 0\<rparr> s)"

definition usb_vhci_port_disconnect ::
  "'e platform \<Rightarrow> i32 \<Rightarrow> u8 \<Rightarrow> ('e, 'z) machine_scheme \<Rightarrow> i32 \<times> ('e, 'z) machine_scheme" where
  "usb_vhci_port_disconnect P fd port s =
     (if port = 0 then (- 1, s\<lparr>errno := EINVAL\<rparr>)
      else send_port_stat P fd
             \<lparr>ip_status = 0, ip_change = USB_PORT_STAT_C_CONNECTION P,
              ip_index = port, ip_flags = 0\<rparr> s)"

definition usb_vhci_port_disable ::
  "'e platform \<Rightarrow> i32 \<Rightarrow> u8 \<Rightarrow> ('e, 'z) machine_scheme \<Rightarrow> i32 \<times> ('e, 'z) machine_scheme" where
  "usb_vhci_port_disable P fd port s =
     (if port = 0 then (- 1, s\<lparr>errno := EINVAL\<rparr>)
      else send_port_stat P fd
             \<lparr>ip_status = 0, ip_change = USB_PORT_STAT_C_ENABLE P,
              ip_index = port, ip_flags = 0\<rparr> s)"

definition usb_vhci_port_resumed ::
  "'e platform \<Rightarrow> i32 \<Rightarrow> u8 \<Rightarrow> ('e, 'z) machine_scheme \<Rightarrow> i32 \<times> ('e, 'z) machine_scheme" where
  "usb_vhci_port_resumed P fd port s =
     (if port = 0 then (- 1, s\<lparr>errno := EINVAL\<rparr>)
      else send_port_stat P fd
             \<lparr>ip_status = 0, ip_change = USB_PORT_STAT_C_SUSPEND P,
              ip_index = port, ip_flags = 0\<rparr> s)"

definition usb_vhci_port_overcurrent ::
  "'e platform \<Rightarrow> i32 \<Rightarrow> u8 \<Rightarrow> u8 \<Rightarrow> ('e, 'z) machine_scheme \<Rightarrow>
   i32 \<times> ('e, 'z) machine_scheme" where
  "usb_vhci_port_overcurrent P fd port set_oc s =
     (if port = 0 then (- 1, s\<lparr>errno := EINVAL\<rparr>)
      else send_port_stat P fd
             \<lparr>ip_status = (if set_oc \<noteq> 0 then USB_PORT_STAT_OVERCURRENT P else 0),
              ip_change = USB_PORT_STAT_C_OVERCURRENT P, ip_index = port, ip_flags = 0\<rparr> s)"

definition usb_vhci_port_reset_done ::
  "'e platform \<Rightarrow> i32 \<Rightarrow> u8 \<Rightarrow> u8 \<Rightarrow> ('e, 'z) machine_scheme \<Rightarrow>
   i32 \<times> ('e, 'z) machine_scheme" where
  "usb_vhci_port_reset_done P fd port enable s =
     (if port = 0 then (- 1, s\<lparr>errno := EINVAL\<rparr>)
      else
        let change = USB_PORT_STAT_C_RESET P;
            change = change OR (if enable \<noteq> 0 then 0 else USB_PORT_STAT_C_ENABLE P)
        in send_port_stat P fd
             \<lparr>ip_status = (if enable \<noteq> 0 then USB_PORT_STAT_ENABLE P else 0),
              ip_change = change, ip_index = port, ip_flags = 0\<rparr> s)"

section \<open>Port events\<close>

datatype data_rate = Full | Low | High

datatype port_event =
    Connect data_rate
  | Disconnect
  | Disable
  | Resumed
  | Overcurrent bool
  | ResetDone bool

fun rate_code :: "data_rate \<Rightarrow> u8" where
  "rate_code Full = USB_VHCI_DATA_RATE_FULL"
| "rate_code Low = USB_VHCI_DATA_RATE_LOW"
| "rate_code High = USB_VHCI_DATA_RATE_HIGH"

definition c_bool :: "bool \<Rightarrow> u8" where
  "c_bool b = (if b then 1 else 0)"

text \<open>The library call that reports an event.\<close>

fun port_call ::
  "'e platform \<Rightarrow> i32 \<Rightarrow> u8 \<Rightarrow> port_event \<Rightarrow> ('e, 'z) machine_scheme \<Rightarrow>
   i32 \<times> ('e, 'z) machine_scheme" where
  "port_call P fd port (Connect r) = usb_vhci_port_connect P fd port (rate_code r)"
| "port_call P fd port Disconnect = usb_vhci_port_disconnect P fd port"
| "port_call P fd port Disable = usb_vhci_port_disable P fd port"
| "port_call P fd port Resumed = usb_vhci_port_resumed P fd port"
| "port_call P fd port (Overcurrent b) = usb_vhci_port_overcurrent P fd port (c_bool b)"
| "port_call P fd port (ResetDone b) = usb_vhci_port_reset_done P fd port (c_bool b)"

text \<open>
  Reading a message the way the USB specification's hub status tables say: the change bits
  name the event, the status bits its details.
\<close>

definition decode_port_stat :: "ioc_port_stat \<Rightarrow> (u8 \<times> port_event) option" where
  "decode_port_stat m =
     (let st = ip_status m; ch = ip_change m
      in map_option (Pair (ip_index m))
        (if ip_flags m \<noteq> 0 then None
         else if ch = 0x0001 \<and> st = 0x0001 then Some (Connect Full)
         else if ch = 0x0001 \<and> st = 0x0201 then Some (Connect Low)
         else if ch = 0x0001 \<and> st = 0x0401 then Some (Connect High)
         else if ch = 0x0001 \<and> st = 0 then Some Disconnect
         else if ch = 0x0002 \<and> st = 0 then Some Disable
         else if ch = 0x0004 \<and> st = 0 then Some Resumed
         else if ch = 0x0008 \<and> st = 0x0008 then Some (Overcurrent True)
         else if ch = 0x0008 \<and> st = 0 then Some (Overcurrent False)
         else if ch = 0x0010 \<and> st = 0x0002 then Some (ResetDone True)
         else if ch = 0x0012 \<and> st = 0 then Some (ResetDone False)
         else None))"

text \<open>The message that stands for an event.\<close>

fun event_status :: "port_event \<Rightarrow> u16" where
  "event_status (Connect Full) = 0x0001"
| "event_status (Connect Low) = 0x0201"
| "event_status (Connect High) = 0x0401"
| "event_status (Overcurrent b) = (if b then 0x0008 else 0)"
| "event_status (ResetDone b) = (if b then 0x0002 else 0)"
| "event_status _ = 0"

fun event_change :: "port_event \<Rightarrow> u16" where
  "event_change (Connect _) = 0x0001"
| "event_change Disconnect = 0x0001"
| "event_change Disable = 0x0002"
| "event_change Resumed = 0x0004"
| "event_change (Overcurrent _) = 0x0008"
| "event_change (ResetDone b) = (if b then 0x0010 else 0x0012)"

definition event_msg :: "u8 \<Rightarrow> port_event \<Rightarrow> ioc_port_stat" where
  "event_msg port ev =
     \<lparr>ip_status = event_status ev, ip_change = event_change ev, ip_index = port, ip_flags = 0\<rparr>"

lemma event_cases:
  obtains "ev = Connect Full" | "ev = Connect Low" | "ev = Connect High" | "ev = Disconnect"
  | "ev = Disable" | "ev = Resumed" | "ev = Overcurrent True" | "ev = Overcurrent False"
  | "ev = ResetDone True" | "ev = ResetDone False"
  by (metis (full_types) port_event.exhaust data_rate.exhaust)

lemma decode_event_msg: "decode_port_stat (event_msg port ev) = Some (port, ev)"
  by (rule event_cases [of ev]) (simp_all add: decode_port_stat_def event_msg_def)

lemma event_msg_inj: "event_msg p e = event_msg p' e' \<longleftrightarrow> p = p' \<and> e = e'"
proof
  assume "event_msg p e = event_msg p' e'"
  then have "decode_port_stat (event_msg p e) = decode_port_stat (event_msg p' e')" by simp
  then show "p = p' \<and> e = e'" by (simp add: decode_event_msg)
qed simp

lemmas port_request_defs =
  usb_vhci_port_connect_def usb_vhci_port_disconnect_def usb_vhci_port_disable_def
  usb_vhci_port_resumed_def usb_vhci_port_overcurrent_def usb_vhci_port_reset_done_def

lemma port_call_send:
  assumes "port_bits_ok P" "port \<noteq> 0"
  shows "port_call P fd port ev s = send_port_stat P fd (event_msg port ev) s"
  using assms
  by (cases rule: event_cases [of ev])
    (simp_all add: port_request_defs event_msg_def port_bits_ok_def c_bool_def)

lemma port_call_zero: "port_call P fd 0 ev s = (- 1, s\<lparr>errno := EINVAL\<rparr>)"
  by (cases ev) (simp_all add: port_request_defs)

lemma send_port_stat_syscall:
  "send_port_stat P fd m s =
     (case p_port_stat P fd m (env s) of
        (e, Inl err) \<Rightarrow> (- 1, s\<lparr>env := e, errno := err\<rparr>)
      | (e, Inr _) \<Rightarrow> (0, s\<lparr>env := e\<rparr>))"
  by (simp add: send_port_stat_def syscall_def split: prod.split sum.split)

text \<open>
  A port notification sends exactly one message, and the message says what was asked:
  for a port other than 0 every call is one ioctl whose argument decodes to the same port
  and the same event, and the result is \<open>0\<close>, or \<open>-1\<close> with the kernel's \<open>errno\<close>; with port 0
  nothing is sent and the call fails with \<open>EINVAL\<close>.
\<close>

theorem port_call_message:
  assumes "port_bits_ok P"
  shows "if port = 0 then port_call P fd port ev s = (- 1, s\<lparr>errno := EINVAL\<rparr>)
         else \<exists>m. decode_port_stat m = Some (port, ev) \<and>
                port_call P fd port ev s =
                  (case p_port_stat P fd m (env s) of
                     (e, Inl err) \<Rightarrow> (- 1, s\<lparr>env := e, errno := err\<rparr>)
                   | (e, Inr _) \<Rightarrow> (0, s\<lparr>env := e\<rparr>))"
proof (cases "port = 0")
  case True
  then show ?thesis by (simp add: port_call_zero)
next
  case False
  with assms show ?thesis
    using decode_event_msg [of port ev]
    by (auto simp: port_call_send send_port_stat_syscall intro: exI [of _ "event_msg port ev"])
qed

theorem port_call_message_witness:
  "\<exists>m. decode_port_stat m = Some (2, ResetDone False) \<and>
     port_call plain_platform 3 2 (ResetDone False)
       \<lparr>env = [], errno = 0, heap = Map.empty, brk = 1, oom = [], naps = []\<rparr> =
     (0, \<lparr>env = [SentPortStat m], errno = 0, heap = Map.empty, brk = 1, oom = [], naps = []\<rparr>)"
proof -
  have "port_bits_ok plain_platform" using sample_abi_ok(2) abi_ok_parts(3) by blast
  from port_call_message [OF this, of 2 3 "ResetDone False"
      "\<lparr>env = [], errno = 0, heap = Map.empty, brk = 1, oom = [], naps = []\<rparr>"]
  show ?thesis by (auto simp: plain_platform_def sample_platform_def abi.extend_def)
qed

end
