(* ===== verification/Urb_Memory.thy ===== *)
theory Urb_Memory
  imports Libusb_C
begin

text \<open>
  How the functions of \<^verbatim>\<open>libusb_vhci.c\<close> that follow pointers behave on a URB whose
  pointers are good: they do not fault, touch only the two blocks the URB owns, free the
  temporary array they allocate, and exchange the right data with the kernel.
\<close>

section \<open>Good pointers\<close>

definition bytes_at :: "('e, 'z) machine_scheme \<Rightarrow> nat \<Rightarrow> nat \<Rightarrow> bool" where
  "bytes_at s p n \<longleftrightarrow> (case load_bytes p s of Some bs \<Rightarrow> length bs = n | None \<Rightarrow> False)"

definition packets_at :: "('e, 'z) machine_scheme \<Rightarrow> nat \<Rightarrow> nat \<Rightarrow> bool" where
  "packets_at s p n \<longleftrightarrow> (case load_packets p s of Some ps \<Rightarrow> length ps = n | None \<Rightarrow> False)"

text \<open>
  The pointers of a URB: each is \<open>NULL\<close> when its length is 0 and otherwise points to a
  block of that many elements.
\<close>

definition urb_mem :: "('e, 'z) machine_scheme \<Rightarrow> usb_vhci_urb \<Rightarrow> bool" where
  "urb_mem s u \<longleftrightarrow>
     0 \<le>s u_buffer_length u \<and> 0 \<le>s u_packet_count u \<and>
     (if u_buffer_length u = 0 then u_buffer u = 0
      else bytes_at s (u_buffer u) (unat (u_buffer_length u))) \<and>
     (if u_packet_count u = 0 then u_iso_packets u = 0
      else packets_at s (u_iso_packets u) (unat (u_packet_count u)))"

text \<open>Every packet has been written (the kernel's data was fetched).\<close>

definition packets_set :: "('e, 'z) machine_scheme \<Rightarrow> usb_vhci_urb \<Rightarrow> bool" where
  "packets_set s u \<longleftrightarrow>
     u_packet_count u = 0 \<or>
     (case load_packets (u_iso_packets u) s of Some ps \<Rightarrow> None \<notin> set ps | None \<Rightarrow> False)"

lemma load_bytes_Some:
  "load_bytes p s = Some bs \<longleftrightarrow> p \<noteq> 0 \<and> heap s p = Some (Bytes bs)"
  by (auto simp: load_bytes_def load_def split: option.splits block.splits)

lemma load_packets_Some:
  "load_packets p s = Some ps \<longleftrightarrow> p \<noteq> 0 \<and> heap s p = Some (Packets ps)"
  by (auto simp: load_packets_def load_def split: option.splits block.splits)

lemma load_ioc_packets_Some:
  "load_ioc_packets p s = Some ps \<longleftrightarrow> p \<noteq> 0 \<and> heap s p = Some (IocPackets ps)"
  by (auto simp: load_ioc_packets_def load_def split: option.splits block.splits)

lemma load_ioc_status_Some:
  "load_ioc_status p s = Some ps \<longleftrightarrow> p \<noteq> 0 \<and> heap s p = Some (IocStatus ps)"
  by (auto simp: load_ioc_status_def load_def split: option.splits block.splits)

lemmas load_Some_iffs =
  load_bytes_Some load_packets_Some load_ioc_packets_Some load_ioc_status_Some

lemma bytes_at_iff: "bytes_at s p n \<longleftrightarrow> (\<exists>bs. p \<noteq> 0 \<and> heap s p = Some (Bytes bs) \<and> length bs = n)"
  by (auto simp: bytes_at_def load_bytes_def load_def split: option.splits block.splits)

lemma packets_at_iff:
  "packets_at s p n \<longleftrightarrow> (\<exists>ps. p \<noteq> 0 \<and> heap s p = Some (Packets ps) \<and> length ps = n)"
  by (auto simp: packets_at_def load_packets_def load_def split: option.splits block.splits)

lemma packets_set_iff:
  "packets_set s u \<longleftrightarrow> u_packet_count u = 0 \<or>
     (\<exists>ps. u_iso_packets u \<noteq> 0 \<and> heap s (u_iso_packets u) = Some (Packets (map Some ps)))"
proof -
  have "None \<notin> set xs \<longleftrightarrow> (\<exists>ps. xs = map Some ps)" for xs :: "'x option list"
  proof
    assume "None \<notin> set xs"
    then have "map Some (map the xs) = xs" by (induction xs) auto
    then show "\<exists>ps. xs = map Some ps" by metis
  qed auto
  then show ?thesis
    by (auto simp: packets_set_def load_packets_def load_def split: option.splits block.splits)
qed

lemma nat_sint_nonneg:
  assumes "0 \<le>s (w :: i32)" shows "nat (sint w) = unat w"
proof -
  have "0 \<le> sint w" "sint w < 2 ^ 31"
    using assms sint_lt [of w] by (simp_all add: word_sle_eq)
  then have "uint w = sint w"
    by (simp add: uint_sint take_bit_int_eq_self)
  then show ?thesis by (simp flip: nat_uint_eq)
qed

lemma sless_zero_iff: "(w :: i32) <s 0 \<longleftrightarrow> \<not> 0 \<le>s w"
  by (auto simp: word_sless_alt word_sle_eq)

lemma zero_sless_iff: "0 <s (w :: i32) \<longleftrightarrow> 0 \<le>s w \<and> w \<noteq> 0"
  using signed_eq_0_iff [of w] by (auto simp: word_sless_alt word_sle_eq order_less_le)

lemma unat_pos_iff: "0 < unat (w :: i32) \<longleftrightarrow> w \<noteq> 0"
  by (simp add: unat_gt_0)

section \<open>Allocation of a temporary\<close>

lemma heap_update_same: "heap s q = Some b \<Longrightarrow> s\<lparr>heap := (heap s)(q \<mapsto> b)\<rparr> = s"
  by (simp add: fun_upd_idem)

lemma malloc_array_cases:
  assumes "heap_ok s" "0 \<le>s n" "malloc_array mk n s = (q, t)"
  obtains (fail) "fst (alloc_fails s)" "q = 0" "heap t = heap s" "heap_ok t" "env t = env s"
        "brk t = brk s" "machine.more t = machine.more s" "naps t = naps s"
  | (ok) "\<not> fst (alloc_fails s)" "q = brk s" "q \<noteq> 0" "heap s q = None"
        "heap t = (heap s)(q \<mapsto> mk (cells n))" "heap_ok t" "env t = env s"
        "brk t = Suc (brk s)" "machine.more t = machine.more s" "naps t = naps s"
proof -
  obtain p r where pr: "alloc (mk (cells n)) s = (p, r)" by fastforce
  have t: "q = p" "t = (if p = 0 then r\<lparr>errno := ENOMEM\<rparr> else r)"
    using assms(2,3) pr by (auto simp: malloc_array_def malloc_def sless_zero_iff)
  have f: "p = 0 \<longleftrightarrow> fst (alloc_fails s)"
    using pr assms(1) alloc_fails_frame(2) [of s]
    by (auto simp: alloc_def heap_ok_def split: prod.splits bool.splits)
  show thesis
    using assms(1) pr
  proof (cases rule: alloc_cases)
    case fail
    then show thesis using t f that(1) by (auto simp: heap_ok_def)
  next
    case ok
    then show thesis using t f that(2) by auto
  qed
qed

lemma list_update_prefix:
  "i < length xs \<Longrightarrow> length ys = length xs \<Longrightarrow>
   (map f (take i xs) @ drop i ys)[i := f (xs ! i)] = map f (take (Suc i) xs) @ drop (Suc i) ys"
  by (simp add: list_update_append take_Suc_conv_app_nth flip: Cons_nth_drop_Suc)

section \<open>Giving back\<close>

definition given_packet :: "usb_vhci_iso_packet \<Rightarrow> i32 \<times> u32" where
  "given_packet p = (usb_vhci_to_iso_packets_errno (pk_status p), pk_actual p)"

lemma give_loop:
  assumes q: "q \<noteq> 0" "heap s q = Some (IocStatus ks)" "length ks = length ps"
    and ps: "u_iso_packets u \<noteq> 0" "heap s (u_iso_packets u) = Some (Packets (map Some ps))"
  shows "for_upto 0 (length ps) (give_iso_packet u q) s =
    Some (s\<lparr>heap := (heap s)(q \<mapsto> IocStatus (map (Some \<circ> given_packet) ps))\<rparr>)"
proof -
  let ?st = "\<lambda>i. s\<lparr>heap := (heap s)(q \<mapsto>
      IocStatus (map (Some \<circ> given_packet) (take i ps) @ drop i ks))\<rparr>"
  have ne: "u_iso_packets u \<noteq> q" using q ps by auto
  have "\<exists>t. for_upto 0 (length ps) (give_iso_packet u q) s = Some t \<and> t = ?st (length ps)"
  proof (rule for_upto_rule [where I = "\<lambda>i t. t = ?st i"])
    show "s = ?st 0" using q by (simp add: heap_update_same)
    fix j t assume "j < length ps" "t = ?st j"
    then show "\<exists>t'. give_iso_packet u q j t = Some t' \<and> t' = ?st (Suc j)"
      using q ps ne list_update_prefix [of j ps ks "Some \<circ> given_packet"]
      by (auto simp: give_iso_packet_def load_Some_iffs cell_def store_def given_packet_def
          Option.bind_eq_Some_conv)
  qed simp
  then show ?thesis using q by simp
qed

text \<open>Reading a packet that was never set is a fault.\<close>

lemma give_loop_unset:
  assumes "q \<noteq> 0" "heap s q = Some (IocStatus ks)" "length ks = length ps"
    and "u_iso_packets u \<noteq> 0" "heap s (u_iso_packets u) = Some (Packets ps)"
    and "None \<in> set (drop i ps)"
  shows "for_upto i (length ps) (give_iso_packet u q) s = None"
  using assms
proof (induction "length ps - i" arbitrary: i s ks)
  case (Suc d)
  have i: "i < length ps" using Suc.hyps(2) by simp
  have ne: "u_iso_packets u \<noteq> q" using Suc.prems by auto
  show ?case
  proof (cases "ps ! i")
    case None
    then show ?thesis
      using i Suc.prems(4,5) by (simp add: give_iso_packet_def load_packets_def load_def cell_def)
  next
    case (Some p)
    let ?t = "s\<lparr>heap := (heap s)(q \<mapsto> IocStatus (ks[i := Some (given_packet p)]))\<rparr>"
    have "give_iso_packet u q i s = Some ?t"
      using i Some Suc.prems by (simp add: give_iso_packet_def load_packets_def load_ioc_status_def
          load_def cell_def store_def given_packet_def)
    moreover have "None \<in> set (drop (Suc i) ps)"
      using Suc.prems(6) Some i by (simp flip: Cons_nth_drop_Suc)
    then have "for_upto (Suc i) (length ps) (give_iso_packet u q) ?t = None"
      using Suc.hyps(1) [of "Suc i" ?t] Suc.hyps(2) Suc.prems ne by simp
    ultimately show ?thesis using i by simp
  qed
qed simp

text \<open>The request \<^verbatim>\<open>usb_vhci_giveback\<close> sends for a URB with packets \<open>ps\<close>.\<close>

definition giveback_request ::
  "'z abi_scheme \<Rightarrow> ('e, 'y) machine_scheme \<Rightarrow> usb_vhci_urb \<Rightarrow>
   (i32 \<times> u32) option list option \<Rightarrow> ioc_giveback" where
  "giveback_request P s u packets =
     (let is_iso = usb_vhci_is_iso P (u_type u)
      in \<lparr>ig_handle = u_handle u,
          ig_status = usb_vhci_to_errno (u_status u) (if is_iso then 1 else 0),
          ig_buffer_actual = u_buffer_actual u,
          ig_packet_count = (if is_iso then u_packet_count u else 0),
          ig_error_count = (if is_iso then u_error_count u else 0),
          ig_buffer = (if usb_vhci_is_in (u_epadr u) \<and> 0 <s u_buffer_actual u
                       then load_bytes (u_buffer u) s else None),
          ig_iso_packets = packets\<rparr>)"

definition giveback_result :: "i32 + unit \<Rightarrow> i32" where
  "giveback_result r = (case r of Inl err \<Rightarrow> if err = ECANCELED then 0 else - 1 | Inr _ \<Rightarrow> 0)"

text \<open>What a call leaves alone: everything but the environment and \<open>errno\<close>.\<close>

definition quiet :: "('e, 'z) machine_scheme \<Rightarrow> ('e, 'z) machine_scheme \<Rightarrow> bool" where
  "quiet s t \<longleftrightarrow> heap t = heap s \<and> brk s \<le> brk t \<and> naps t = naps s \<and>
     machine.more t = machine.more s \<and> (heap_ok s \<longrightarrow> heap_ok t)"

lemma quiet_refl [simp]: "quiet s s"
  by (simp add: quiet_def)

lemma user_bytes_ok: "p = 0 \<or> load_bytes p s \<noteq> None \<Longrightarrow> user_bytes p s = Some (load_bytes p s)"
  by (auto simp: user_bytes_def load_bytes_def load_def)

lemma urb_mem_buffer:
  "urb_mem s u \<Longrightarrow> u_buffer u = 0 \<or> load_bytes (u_buffer u) s \<noteq> None"
  by (auto simp: urb_mem_def bytes_at_def split: if_splits option.splits)

lemma giveback_plain:
  assumes "urb_mem s u" "\<not> usb_vhci_is_iso P (u_type u)"
    and "p_giveback P fd (giveback_request P s u None) (env s) = (e, r)"
  shows "usb_vhci_giveback P fd u s =
    Some (giveback_result r, s\<lparr>env := e, errno := (case r of Inl err \<Rightarrow> err | Inr _ \<Rightarrow> 0)\<rparr>)"
proof -
  have b: "user_bytes (if usb_vhci_is_in (u_epadr u) \<and> 0 <s u_buffer_actual u
      then u_buffer u else 0) s = Some (if usb_vhci_is_in (u_epadr u) \<and> 0 <s u_buffer_actual u
      then load_bytes (u_buffer u) s else None)"
    using urb_mem_buffer [OF assms(1)] user_bytes_ok [of "u_buffer u" s]
    by (auto simp: user_bytes_def)
  show ?thesis
    unfolding usb_vhci_giveback_def Let_def
    using assms(2,3) b
    by (cases r) (auto simp: user_status_def syscall_def dealloc_def giveback_result_def
        giveback_request_def Let_def)
qed

text \<open>The packets an isochronous URB's request carries, when its array could be allocated.\<close>

definition packet_reports ::
  "('e, 'z) machine_scheme \<Rightarrow> usb_vhci_urb \<Rightarrow> (i32 \<times> u32) option list" where
  "packet_reports s u =
     (if u_packet_count u = 0 then []
      else map (map_option given_packet) (the (load_packets (u_iso_packets u) s)))"

lemma giveback_iso_ok:
  assumes "heap_ok s" "urb_mem s u" "packets_set s u" "usb_vhci_is_iso P (u_type u)"
    and "\<not> fst (alloc_fails s)"
    and r: "p_giveback P fd (giveback_request P s u (Some (packet_reports s u))) (env s) = (e, r)"
  shows "\<exists>t. usb_vhci_giveback P fd u s = Some (giveback_result r, t) \<and> quiet s t \<and> env t = e"
proof -
  obtain q s1 where m: "malloc_array IocStatus (u_packet_count u) s = (q, s1)" by fastforce
  have pc: "0 \<le>s u_packet_count u" using assms(2) by (simp add: urb_mem_def)
  from assms(1) pc m have
    q: "q = brk s" "q \<noteq> 0" "heap s q = None" "heap s1 = (heap s)(q \<mapsto> IocStatus (cells (u_packet_count u)))"
       "heap_ok s1" "env s1 = env s" "brk s1 = Suc (brk s)" "machine.more s1 = machine.more s"
       "naps s1 = naps s"
    using assms(5) by (cases rule: malloc_array_cases; simp)+
  have "\<exists>ps. packet_reports s u = map (Some \<circ> given_packet) ps \<and> unat (u_packet_count u) = length ps \<and>
      (ps \<noteq> [] \<longrightarrow> u_iso_packets u \<noteq> 0 \<and> heap s (u_iso_packets u) = Some (Packets (map Some ps)))"
  proof (cases "u_packet_count u = 0")
    case False
    with assms(3) obtain ps where "u_iso_packets u \<noteq> 0"
        "heap s (u_iso_packets u) = Some (Packets (map Some ps))"
      by (auto simp: packets_set_iff)
    moreover from this have "load_packets (u_iso_packets u) s = Some (map Some ps)"
      by (simp add: load_packets_Some)
    ultimately show ?thesis using assms(2) False
      by (auto simp: packet_reports_def urb_mem_def packets_at_iff intro!: exI [of _ ps])
  qed (simp add: packet_reports_def)
  then obtain ps where ps: "packet_reports s u = map (Some \<circ> given_packet) ps"
    "unat (u_packet_count u) = length ps"
    "ps \<noteq> [] \<Longrightarrow> u_iso_packets u \<noteq> 0 \<and> heap s (u_iso_packets u) = Some (Packets (map Some ps))"
    by blast
  let ?s2 = "s1\<lparr>heap := (heap s)(q \<mapsto> IocStatus (map (Some \<circ> given_packet) ps))\<rparr>"
  have loop: "for_upto 0 (nat (sint (u_packet_count u))) (give_iso_packet u q) s1 = Some ?s2"
  proof (cases "ps = []")
    case True
    then show ?thesis using ps(2) q(4) heap_update_same [of s1 q "IocStatus []"]
      by (simp add: nat_sint_nonneg [OF pc] cells_def)
  next
    case False
    with ps(2,3) q have "for_upto 0 (length ps) (give_iso_packet u q) s1 =
      Some (s1\<lparr>heap := (heap s1)(q \<mapsto> IocStatus (map (Some \<circ> given_packet) ps))\<rparr>)"
      by (intro give_loop) (auto simp: cells_def)
    then show ?thesis using q(4) ps(2) by (simp add: nat_sint_nonneg [OF pc])
  qed
  have lb: "load_bytes (u_buffer u) ?s2 = load_bytes (u_buffer u) s"
    using q by (auto simp: load_bytes_def load_def)
  have b: "user_bytes (if usb_vhci_is_in (u_epadr u) \<and> 0 <s u_buffer_actual u
      then u_buffer u else 0) ?s2 = Some (if usb_vhci_is_in (u_epadr u) \<and> 0 <s u_buffer_actual u
      then load_bytes (u_buffer u) s else None)"
    using urb_mem_buffer [OF assms(2)] user_bytes_ok [of "u_buffer u" ?s2] lb
    by (auto simp: user_bytes_def)
  have "load_ioc_status q ?s2 = Some (packet_reports s u)"
    using q(2) ps(1) by (simp add: load_ioc_status_Some)
  then have "user_status q ?s2 = Some (Some (packet_reports s u))"
    using q(2) by (simp add: user_status_def)
  with assms(4) r b have "usb_vhci_giveback P fd u s =
    Some (giveback_result r,
      ?s2\<lparr>env := e, errno := (case r of Inl err \<Rightarrow> err | Inr _ \<Rightarrow> 0), heap := heap s\<rparr>)"
    unfolding usb_vhci_giveback_def Let_def
    using m loop q(2,3,6)
    by (cases r) (auto simp: syscall_def dealloc_def giveback_result_def giveback_request_def
        Let_def fun_upd_idem)
  then show ?thesis using q assms(1) by (auto simp: quiet_def heap_ok_def)
qed

lemma giveback_iso_fail:
  assumes "heap_ok s" "urb_mem s u" "usb_vhci_is_iso P (u_type u)" "fst (alloc_fails s)"
    and r: "p_giveback P fd (giveback_request P s u None) (env s) = (e, r)"
  shows "if u_packet_count u = 0
    then \<exists>t. usb_vhci_giveback P fd u s = Some (giveback_result r, t) \<and> quiet s t \<and> env t = e
    else usb_vhci_giveback P fd u s = None"
proof -
  obtain q s1 where m: "malloc_array IocStatus (u_packet_count u) s = (q, s1)" by fastforce
  have pc: "0 \<le>s u_packet_count u" using assms(2) by (simp add: urb_mem_def)
  from assms(1) pc m have
    q: "q = 0" "heap s1 = heap s" "heap_ok s1" "env s1 = env s" "brk s1 = brk s"
       "machine.more s1 = machine.more s" "naps s1 = naps s"
    using assms(4) by (cases rule: malloc_array_cases; simp)+
  show ?thesis
  proof (cases "u_packet_count u = 0")
    case True
    have lb: "load_bytes (u_buffer u) s1 = load_bytes (u_buffer u) s"
      using q by (auto simp: load_bytes_def load_def)
    have b: "user_bytes (if usb_vhci_is_in (u_epadr u) \<and> 0 <s u_buffer_actual u
        then u_buffer u else 0) s1 = Some (if usb_vhci_is_in (u_epadr u) \<and> 0 <s u_buffer_actual u
        then load_bytes (u_buffer u) s else None)"
      using urb_mem_buffer [OF assms(2)] user_bytes_ok [of "u_buffer u" s1] lb
      by (auto simp: user_bytes_def)
    have "usb_vhci_giveback P fd u s =
        Some (giveback_result r, s1\<lparr>env := e, errno := (case r of Inl err \<Rightarrow> err | Inr _ \<Rightarrow> 0)\<rparr>)"
      unfolding usb_vhci_giveback_def Let_def
      using assms(3) r m True q b
      by (cases r) (auto simp: syscall_def dealloc_def giveback_result_def giveback_request_def
          Let_def user_status_def)
    with True q assms(1) show ?thesis by (auto simp: quiet_def heap_ok_def)
  next
    case False
    then have "0 < nat (sint (u_packet_count u))"
      by (simp add: nat_sint_nonneg [OF pc] unat_pos_iff)
    moreover have "give_iso_packet u q 0 s1 = None"
      by (auto simp: give_iso_packet_def q(1) load_ioc_status_def load_def bind_eq_None_conv)
    ultimately have "for_upto 0 (nat (sint (u_packet_count u))) (give_iso_packet u q) s1 = None"
      by simp
    with False assms(3) m show ?thesis
      unfolding usb_vhci_giveback_def Let_def by simp
  qed
qed

definition giveback_packets ::
  "'z abi_scheme \<Rightarrow> ('e, 'y) machine_scheme \<Rightarrow> usb_vhci_urb \<Rightarrow> (i32 \<times> u32) option list option" where
  "giveback_packets P s u =
     (if usb_vhci_is_iso P (u_type u) \<and> \<not> fst (alloc_fails s) then Some (packet_reports s u)
      else None)"

definition giveback_oom ::
  "'z abi_scheme \<Rightarrow> ('e, 'y) machine_scheme \<Rightarrow> usb_vhci_urb \<Rightarrow> bool" where
  "giveback_oom P s u \<longleftrightarrow>
     usb_vhci_is_iso P (u_type u) \<and> fst (alloc_fails s) \<and> u_packet_count u \<noteq> 0"

text \<open>
  What giving back relies on: the packets of an isochronous URB are set, and the array for
  their reports can be allocated.
\<close>

definition giveback_ready ::
  "'z abi_scheme \<Rightarrow> ('e, 'y) machine_scheme \<Rightarrow> usb_vhci_urb \<Rightarrow> bool" where
  "giveback_ready P s u \<longleftrightarrow>
     (usb_vhci_is_iso P (u_type u) \<longrightarrow> packets_set s u) \<and> \<not> giveback_oom P s u"

lemma giveback_unset:
  assumes "heap_ok s" "urb_mem s u" "usb_vhci_is_iso P (u_type u)" "\<not> packets_set s u"
  shows "usb_vhci_giveback P fd u s = None"
proof -
  obtain q s1 where m: "malloc_array IocStatus (u_packet_count u) s = (q, s1)" by fastforce
  have pc: "0 \<le>s u_packet_count u" "u_packet_count u \<noteq> 0"
    using assms(2,4) by (simp_all add: urb_mem_def packets_set_def)
  then obtain ps where ps: "u_iso_packets u \<noteq> 0" "heap s (u_iso_packets u) = Some (Packets ps)"
    "length ps = unat (u_packet_count u)"
    using assms(2) by (auto simp: urb_mem_def packets_at_iff)
  then have unset: "None \<in> set ps"
    using assms(4) pc by (auto simp: packets_set_def load_packets_def load_def)
  have "for_upto 0 (length ps) (give_iso_packet u q) s1 = None"
  proof (cases "fst (alloc_fails s)")
    case True
    with assms(1) pc(1) m have "q = 0" by (cases rule: malloc_array_cases; simp)
    then have "give_iso_packet u q 0 s1 = None"
      by (auto simp: give_iso_packet_def load_ioc_status_def load_def bind_eq_None_conv)
    moreover have "0 < length ps" using unset by auto
    ultimately show ?thesis by simp
  next
    case False
    with assms(1) pc(1) m have "q \<noteq> 0" "heap s q = None"
      "heap s1 = (heap s)(q \<mapsto> IocStatus (cells (u_packet_count u)))"
      by (cases rule: malloc_array_cases; simp)+
    then show ?thesis
      using ps unset by (intro give_loop_unset) (auto simp: cells_def)
  qed
  then have "for_upto 0 (nat (sint (u_packet_count u))) (give_iso_packet u q) s1 = None"
    using ps(3) by (simp add: nat_sint_nonneg [OF pc(1)])
  then show ?thesis
    unfolding usb_vhci_giveback_def Let_def using assms(3) m by simp
qed

lemma giveback_run:
  assumes "heap_ok s" "urb_mem s u"
  shows "if giveback_ready P s u
    then \<exists>t. usb_vhci_giveback P fd u s = Some (giveback_result (snd (p_giveback P fd
              (giveback_request P s u (giveback_packets P s u)) (env s))), t) \<and> quiet s t \<and>
            env t = fst (p_giveback P fd (giveback_request P s u (giveback_packets P s u)) (env s))
    else usb_vhci_giveback P fd u s = None"
proof -
  obtain e r where er: "p_giveback P fd (giveback_request P s u (giveback_packets P s u)) (env s) = (e, r)"
    by fastforce
  consider (plain) "\<not> usb_vhci_is_iso P (u_type u)"
    | (unset) "usb_vhci_is_iso P (u_type u)" "\<not> packets_set s u"
    | (ok) "packets_set s u" "usb_vhci_is_iso P (u_type u)" "\<not> fst (alloc_fails s)"
    | (oom) "usb_vhci_is_iso P (u_type u)" "packets_set s u" "fst (alloc_fails s)" by blast
  then show ?thesis
  proof cases
    case plain
    with er giveback_plain [OF assms(2) plain] show ?thesis
      by (auto simp: giveback_ready_def giveback_oom_def giveback_packets_def quiet_def heap_ok_def)
  next
    case unset
    with giveback_unset [OF assms unset] show ?thesis by (simp add: giveback_ready_def)
  next
    case ok
    with er giveback_iso_ok [OF assms ok] show ?thesis
      by (auto simp: giveback_ready_def giveback_oom_def giveback_packets_def)
  next
    case oom
    with er giveback_iso_fail [OF assms oom(1,3)] show ?thesis
      by (auto simp: giveback_ready_def giveback_oom_def giveback_packets_def split: if_splits)
  qed
qed

section \<open>Fetching data\<close>

definition fetched_packet :: "u32 \<times> u32 \<Rightarrow> usb_vhci_iso_packet" where
  "fetched_packet k = \<lparr>pk_offset = fst k, pk_length = snd k, pk_actual = 0,
     pk_status = USB_VHCI_STATUS_PENDING\<rparr>"

lemma fetch_loop:
  assumes q: "q \<noteq> 0" "heap s q = Some (IocPackets (map Some ks))"
    and ps: "u_iso_packets u \<noteq> 0" "heap s (u_iso_packets u) = Some (Packets ps)"
      "length ps = length ks"
  shows "for_upto 0 (length ks) (fetch_iso_packet u q) s =
    Some (s\<lparr>heap := (heap s)(u_iso_packets u \<mapsto> Packets (map (Some \<circ> fetched_packet) ks))\<rparr>)"
proof -
  let ?st = "\<lambda>i. s\<lparr>heap := (heap s)(u_iso_packets u \<mapsto>
      Packets (map (Some \<circ> fetched_packet) (take i ks) @ drop i ps))\<rparr>"
  have ne: "u_iso_packets u \<noteq> q" using q ps by auto
  have "\<exists>t. for_upto 0 (length ks) (fetch_iso_packet u q) s = Some t \<and> t = ?st (length ks)"
  proof (rule for_upto_rule [where I = "\<lambda>i t. t = ?st i"])
    show "s = ?st 0" using ps by (simp add: heap_update_same)
    fix j t assume "j < length ks" "t = ?st j"
    then show "\<exists>t'. fetch_iso_packet u q j t = Some t' \<and> t' = ?st (Suc j)"
      using q ps ne list_update_prefix [of j ks ps "Some \<circ> fetched_packet"]
      by (cases "ks ! j") (auto simp: fetch_iso_packet_def load_Some_iffs cell_def store_def fetched_packet_def
          Option.bind_eq_Some_conv split: prod.split)
  qed simp
  then show ?thesis using ps by simp
qed

text \<open>
  What the code relies on from the kernel: it never sends more bytes than the buffer
  holds, describes exactly the requested packets, and refuses a null packet array for a
  URB that has packets.
\<close>

definition fetch_reply_ok :: "ioc_urb_data \<Rightarrow> u8 list \<times> (u32 \<times> u32) list \<Rightarrow> bool" where
  "fetch_reply_ok q r \<longleftrightarrow>
     length (fst r) \<le> unat (id_buffer_length q) \<and>
     length (snd r) = unat (id_packet_count q) \<and>
     (id_packet_count q \<noteq> 0 \<longrightarrow> id_iso_packets q \<noteq> 0)"

definition fetch_data_ok :: "'e platform \<Rightarrow> bool" where
  "fetch_data_ok P \<longleftrightarrow>
     (\<forall>fd q e r. snd (p_fetch_data P fd q e) = Inr r \<longrightarrow> fetch_reply_ok q r)"

definition fetch_request ::
  "('e, 'z) machine_scheme \<Rightarrow> usb_vhci_urb \<Rightarrow> ioc_urb_data" where
  "fetch_request s u =
     \<lparr>id_handle = u_handle u, id_buffer_length = u_buffer_length u,
      id_packet_count = u_packet_count u, id_buffer = u_buffer u,
      id_iso_packets =
        (if u_packet_count u \<noteq> 0 \<and> \<not> fst (alloc_fails s) then brk s else 0)\<rparr>"

text \<open>The heap after a successful fetch: the data in front of the buffer's old contents.\<close>

definition put_data :: "u8 list \<Rightarrow> u8 option list \<Rightarrow> u8 option list" where
  "put_data data bs = map Some data @ drop (length data) bs"

definition data_heap :: "(nat \<Rightarrow> block option) \<Rightarrow> nat \<Rightarrow> u8 list \<Rightarrow> nat \<Rightarrow> block option" where
  "data_heap h p data =
     (if p = 0 then h
      else case h p of Some (Bytes bs) \<Rightarrow> h(p \<mapsto> Bytes (put_data data bs)) | _ \<Rightarrow> h)"

definition fetched_heap ::
  "(nat \<Rightarrow> block option) \<Rightarrow> usb_vhci_urb \<Rightarrow> u8 list \<Rightarrow> (u32 \<times> u32) list \<Rightarrow>
   nat \<Rightarrow> block option" where
  "fetched_heap h u data pkts =
     (if pkts = [] then data_heap h (u_buffer u) data
      else (data_heap h (u_buffer u) data)
             (u_iso_packets u \<mapsto> Packets (map (Some \<circ> fetched_packet) pkts)))"

lemma data_heap_other: "x \<noteq> p \<Longrightarrow> data_heap h p data x = h x"
  by (auto simp: data_heap_def split: option.split block.split)

lemma data_heap_None: "data_heap h p data x = None \<longleftrightarrow> h x = None"
  by (auto simp: data_heap_def split: option.split block.split)

lemma dom_data_heap: "dom (data_heap h p data) = dom h"
  by (simp add: set_eq_iff domIff data_heap_None)

lemma data_heap_packets: "h p = Some (Packets ps) \<Longrightarrow> data_heap h p' data p = Some (Packets ps)"
  by (auto simp: data_heap_def split: option.split block.split)

lemma data_heap_upd:
  "p \<noteq> q \<Longrightarrow> data_heap (h(q := b)) p data = (data_heap h p data)(q := b)"
  by (auto simp: data_heap_def fun_upd_twist split: option.split block.split)

lemma copy_to_user_bytes_ok:
  assumes "urb_mem s u" "length data \<le> unat (u_buffer_length u)"
    and "u_buffer u \<noteq> 0 \<Longrightarrow> heap t (u_buffer u) = heap s (u_buffer u)"
  shows "copy_to_user_bytes (u_buffer u) data t =
    Some (t\<lparr>heap := data_heap (heap t) (u_buffer u) data\<rparr>)"
proof (cases "u_buffer_length u = 0")
  case True
  then show ?thesis using assms
    by (simp add: copy_to_user_bytes_def data_heap_def urb_mem_def)
next
  case False
  with assms obtain bs where bs: "u_buffer u \<noteq> 0" "heap t (u_buffer u) = Some (Bytes bs)"
    "length bs = unat (u_buffer_length u)"
    by (auto simp: urb_mem_def bytes_at_iff)
  then have "load_bytes (u_buffer u) t = Some bs" by (simp add: load_bytes_Some)
  then show ?thesis
    using bs assms(2) heap_update_same [of t "u_buffer u" "Bytes bs"]
    by (auto simp: copy_to_user_bytes_def store_def put_data_def data_heap_def)
qed

lemma copy_to_user_packets_ok:
  assumes "q \<noteq> 0" "heap s q = Some (IocPackets ks)" "length pkts = length ks"
  shows "copy_to_user_packets q pkts s =
    Some (s\<lparr>heap := (heap s)(q \<mapsto> IocPackets (map Some pkts))\<rparr>)"
proof -
  have "load_ioc_packets q s = Some ks" using assms by (simp add: load_ioc_packets_Some)
  then show ?thesis
    using assms heap_update_same [of s q "IocPackets ks"]
    by (auto simp: copy_to_user_packets_def store_def)
qed

lemma heap_ok_dom:
  "heap_ok s \<Longrightarrow> dom (heap t) \<subseteq> dom (heap s) \<Longrightarrow> brk s \<le> brk t \<Longrightarrow> heap_ok t"
  by (fastforce simp: heap_ok_def)

lemma fetched_heap_dom:
  assumes "urb_mem s u" "length pkts = unat (u_packet_count u)"
  shows "dom (fetched_heap (heap s) u data pkts) = dom (heap s)"
proof -
  have p: "pkts \<noteq> [] \<Longrightarrow> heap s (u_iso_packets u) \<noteq> None"
    using assms by (auto simp: urb_mem_def packets_at_iff split: if_splits)
  show ?thesis using p
    by (auto simp: fetched_heap_def dom_data_heap)
qed

text \<open>The result of a fetch, relative to the state it started in.\<close>

definition fetched ::
  "'e platform \<Rightarrow> i32 \<Rightarrow> usb_vhci_urb \<Rightarrow> ('e, 'z) machine_scheme \<Rightarrow>
   i32 \<Rightarrow> ('e, 'z) machine_scheme \<Rightarrow> bool" where
  "fetched P fd u s r t \<longleftrightarrow>
     env t = fst (p_fetch_data P fd (fetch_request s u) (env s)) \<and>
     heap_ok t \<and> brk s \<le> brk t \<and> naps t = naps s \<and> machine.more t = machine.more s \<and>
     (case snd (p_fetch_data P fd (fetch_request s u) (env s)) of
        Inl err \<Rightarrow> r = - 1 \<and> errno t = err \<and> heap t = heap s
      | Inr (data, pkts) \<Rightarrow> r = 0 \<and> heap t = fetched_heap (heap s) u data pkts)"

lemma fetch_data_no_packets:
  assumes "heap_ok s" "urb_mem s u" "fetch_data_ok P" "u_packet_count u = 0"
  shows "\<exists>r t. usb_vhci_fetch_data P fd u s = Some (r, t) \<and> fetched P fd u s r t"
proof -
  have req: "fetch_request s u = \<lparr>id_handle = u_handle u, id_buffer_length = u_buffer_length u,
      id_packet_count = 0, id_buffer = u_buffer u, id_iso_packets = 0\<rparr>"
    using assms(4) by (simp add: fetch_request_def)
  obtain e r where er: "p_fetch_data P fd (fetch_request s u) (env s) = (e, r)" by fastforce
  show ?thesis
  proof (cases r)
    case (Inl err)
    with er req assms(1,4) show ?thesis
      by (auto simp: usb_vhci_fetch_data_def syscall_def dealloc_def fetched_def heap_ok_def)
  next
    case (Inr dp)
    then obtain data pkts where dp: "r = Inr (data, pkts)" by (cases dp) auto
    have "fetch_reply_ok (fetch_request s u) (data, pkts)"
      using assms(3) er dp unfolding fetch_data_ok_def by (metis snd_conv)
    then have len: "length data \<le> unat (u_buffer_length u)" "pkts = []"
      by (simp_all add: fetch_reply_ok_def req)
    let ?s1 = "s\<lparr>env := e, heap := fetched_heap (heap s) u data []\<rparr>"
    have "copy_to_user_bytes (u_buffer u) data (s\<lparr>env := e\<rparr>) = Some ?s1"
      using len copy_to_user_bytes_ok [OF assms(2), of data "s\<lparr>env := e\<rparr>"]
      by (simp add: fetched_heap_def)
    then have "usb_vhci_fetch_data P fd u s = Some (0, ?s1)"
      using er dp req assms(4) len
      by (auto simp: usb_vhci_fetch_data_def syscall_def dealloc_def copy_to_user_packets_def)
    moreover have "heap_ok ?s1"
      using assms(1,2,4) fetched_heap_dom [of s u "[]" data]
      by (intro heap_ok_dom [OF assms(1)]) auto
    ultimately show ?thesis using er dp len by (auto simp: fetched_def)
  qed
qed

lemma fetch_data_packets:
  assumes "heap_ok s" "urb_mem s u" "fetch_data_ok P" "u_packet_count u \<noteq> 0"
  shows "\<exists>r t. usb_vhci_fetch_data P fd u s = Some (r, t) \<and> fetched P fd u s r t"
proof -
  have pc: "0 \<le>s u_packet_count u" "0 <s u_packet_count u"
    using assms(2,4) by (simp_all add: urb_mem_def zero_sless_iff)
  obtain q s1 where m: "malloc_array IocPackets (u_packet_count u) s = (q, s1)" by fastforce
  obtain e r where er: "p_fetch_data P fd (fetch_request s u) (env s) = (e, r)" by fastforce
  show ?thesis
    using assms(1) pc(1) m
  proof (cases rule: malloc_array_cases)
    case fail
    then have req: "fetch_request s u = \<lparr>id_handle = u_handle u, id_buffer_length = u_buffer_length u,
        id_packet_count = u_packet_count u, id_buffer = u_buffer u, id_iso_packets = q\<rparr>"
      using assms(4) by (simp add: fetch_request_def)
    have "\<not> fetch_reply_ok (fetch_request s u) d" for d
      using fail assms(4) by (simp add: fetch_reply_ok_def req)
    then obtain err where "r = Inl err"
      using assms(3) er unfolding fetch_data_ok_def by (cases r) (metis snd_conv)+
    with fail er req m pc(2) show ?thesis
      by (auto simp: usb_vhci_fetch_data_def syscall_def dealloc_def fetched_def heap_ok_def)
  next
    case ok
    then have req: "fetch_request s u = \<lparr>id_handle = u_handle u, id_buffer_length = u_buffer_length u,
        id_packet_count = u_packet_count u, id_buffer = u_buffer u, id_iso_packets = q\<rparr>"
      using assms(4) by (simp add: fetch_request_def)
    show ?thesis
    proof (cases r)
      case (Inl err)
      have "heap_ok (s1\<lparr>env := e, errno := err, heap := heap s\<rparr>)"
        using ok by (intro heap_ok_dom [OF assms(1)]) auto
      with Inl ok er req m pc(2) show ?thesis
        by (auto simp: usb_vhci_fetch_data_def syscall_def dealloc_def fetched_def fun_upd_idem)
    next
      case (Inr dp)
      then obtain data pkts where dp: "r = Inr (data, pkts)" by (cases dp) auto
      have "fetch_reply_ok (fetch_request s u) (data, pkts)"
        using assms(3) er dp unfolding fetch_data_ok_def by (metis snd_conv)
      then have len: "length data \<le> unat (u_buffer_length u)" "length pkts = unat (u_packet_count u)"
        by (simp_all add: fetch_reply_ok_def req)
      then have pne: "pkts \<noteq> []" using assms(4) by (auto simp: unat_eq_zero)
      obtain ps where ps: "u_iso_packets u \<noteq> 0" "heap s (u_iso_packets u) = Some (Packets ps)"
        "length ps = length pkts"
        using assms(2,4) len by (auto simp: urb_mem_def packets_at_iff)
      let ?s2 = "s1\<lparr>env := e\<rparr>"
      let ?dh = "\<lambda>h. data_heap h (u_buffer u) data"
      have bne: "u_buffer u \<noteq> q" "u_iso_packets u \<noteq> q"
        using ok assms(2) ps by (auto simp: urb_mem_def bytes_at_iff split: if_splits)
      let ?s3 = "?s2\<lparr>heap := ?dh (heap s1)\<rparr>"
      have c1: "copy_to_user_bytes (u_buffer u) data ?s2 = Some ?s3"
        using len bne ok copy_to_user_bytes_ok [OF assms(2), of data ?s2] by simp
      have q3: "heap ?s3 q = Some (IocPackets (cells (u_packet_count u)))"
        using ok bne by (simp add: data_heap_upd)
      let ?s4 = "?s3\<lparr>heap := (heap ?s3)(q \<mapsto> IocPackets (map Some pkts))\<rparr>"
      have c2: "copy_to_user_packets q pkts ?s3 = Some ?s4"
        using ok(3) q3 len(2) by (intro copy_to_user_packets_ok) (auto simp: cells_def)
      have ps4: "heap ?s4 (u_iso_packets u) = Some (Packets ps)"
        using ps bne ok by (simp add: data_heap_upd data_heap_packets)
      let ?s5 = "?s4\<lparr>heap := (heap ?s4)(u_iso_packets u \<mapsto> Packets (map (Some \<circ> fetched_packet) pkts))\<rparr>"
      have c3: "for_upto 0 (nat (sint (u_packet_count u))) (fetch_iso_packet u q) ?s4 = Some ?s5"
        using fetch_loop [OF ok(3) _ ps(1) ps4 ps(3)] len(2)
        by (simp add: nat_sint_nonneg [OF pc(1)])
      have "?dh (heap s) q = None" using ok bne by (simp add: data_heap_other)
      then have h: "(heap ?s5)(q := None) = fetched_heap (heap s) u data pkts"
        using ok pne bne by (simp add: fetched_heap_def data_heap_upd fun_upd_twist fun_upd_idem)
      have c4: "dealloc q ?s5 = Some (?s5\<lparr>heap := fetched_heap (heap s) u data pkts\<rparr>)"
        using ok(3) bne by (simp add: dealloc_Some flip: h)
      have "usb_vhci_fetch_data P fd u s = Some (0, ?s5\<lparr>heap := fetched_heap (heap s) u data pkts\<rparr>)"
        using er dp req m pc(2) ok(7) c1 c2 c3 c4
        unfolding usb_vhci_fetch_data_def Let_def by (simp add: syscall_def)
      moreover have "heap_ok (?s5\<lparr>heap := fetched_heap (heap s) u data pkts\<rparr>)"
        using ok fetched_heap_dom [OF assms(2) len(2), of data]
        by (intro heap_ok_dom [OF assms(1)]) auto
      ultimately show ?thesis using er dp ok by (auto simp: fetched_def)
    qed
  qed
qed

lemma fetch_data_run:
  assumes "heap_ok s" "urb_mem s u" "fetch_data_ok P"
  shows "\<exists>r t. usb_vhci_fetch_data P fd u s = Some (r, t) \<and> fetched P fd u s r t"
  using fetch_data_packets [OF assms] fetch_data_no_packets [OF assms] by blast

section \<open>Properties\<close>

text \<open>
  C23. Fetching the data of a URB with good pointers never faults. When the kernel refuses,
  the call returns \<open>-1\<close> with the kernel's \<open>errno\<close> and memory is as before; when it delivers,
  the data bytes stand at the front of the buffer, every packet has the offset and length
  the kernel sent, no bytes received and status \<open>PENDING\<close>, and nothing else in memory
  changed: the temporary packet array is gone on both paths.
\<close>

theorem fetch_data_correct:
  assumes "heap_ok s" and "urb_mem s u" and "fetch_data_ok P"
  shows "\<exists>r t. usb_vhci_fetch_data P fd u s = Some (r, t) \<and>
    env t = fst (p_fetch_data P fd (fetch_request s u) (env s)) \<and>
    (case snd (p_fetch_data P fd (fetch_request s u) (env s)) of
       Inl err \<Rightarrow> r = - 1 \<and> errno t = err \<and> heap t = heap s
     | Inr (data, pkts) \<Rightarrow> r = 0 \<and> heap t = fetched_heap (heap s) u data pkts)"
  using fetch_data_run [OF assms, of fd] unfolding fetched_def by blast

text \<open>
  C22. Giving a URB with good pointers back makes exactly one ioctl, whose argument carries
  the handle, the converted URB status, the buffer of an IN transfer that moved data, and
  for isochronous URBs one converted status and byte count per packet, in order. The
  kernel's \<open>ECANCELED\<close> counts as success and memory is left as it was. The call faults in
  exactly two cases, both of an isochronous URB with packets: when \<open>malloc\<close> cannot give the
  array of the reports, which the code does not check, and when a packet was never set.
\<close>

theorem giveback_correct:
  assumes "heap_ok s" and "urb_mem s u"
  shows "let req = giveback_request P s u (giveback_packets P s u)
    in if (usb_vhci_is_iso P (u_type u) \<longrightarrow> packets_set s u) \<and> \<not> giveback_oom P s u
       then \<exists>t. usb_vhci_giveback P fd u s =
                 Some (giveback_result (snd (p_giveback P fd req (env s))), t) \<and>
               env t = fst (p_giveback P fd req (env s)) \<and> heap t = heap s
       else usb_vhci_giveback P fd u s = None"
  using giveback_run [OF assms, of P fd]
  by (auto simp: Let_def quiet_def giveback_ready_def)

section \<open>Witnesses\<close>

definition sample_iso_urb :: usb_vhci_urb where
  "sample_iso_urb = zero_urb\<lparr>u_handle := 7, u_buffer := 1, u_iso_packets := 2,
     u_buffer_length := 3, u_packet_count := 2, u_epadr := 0x81, u_type := 0\<rparr>"

definition sample_machine :: "bool list \<Rightarrow> log machine" where
  "sample_machine fails = \<lparr>env = [], errno = 0,
     heap = [1 \<mapsto> Bytes [None, None, None], 2 \<mapsto> Packets [None, None]],
     brk = 3, oom = fails, naps = []\<rparr>"

definition sample_given_machine :: "bool list \<Rightarrow> log machine" where
  "sample_given_machine fails = \<lparr>env = [], errno = 0,
     heap = [1 \<mapsto> Bytes [Some 9, None, None],
       2 \<mapsto> Packets [Some \<lparr>pk_offset = 0, pk_length = 2, pk_actual = 1, pk_status = 0\<rparr>,
                    Some \<lparr>pk_offset = 2, pk_length = 1, pk_actual = 0,
                          pk_status = USB_VHCI_STATUS_STALL\<rparr>]],
     brk = 3, oom = fails, naps = []\<rparr>"

lemma fetch_data_ok_sample: "fetch_data_ok (sample_platform w sample_reply r)"
  by (auto simp: fetch_data_ok_def fetch_reply_ok_def sample_platform_simps sample_reply_def
      unat_pos_iff Suc_le_eq split: if_splits)

lemma sample_machine_ok:
  "heap_ok (sample_machine fails)" "urb_mem (sample_machine fails) sample_iso_urb"
  by (auto simp: heap_ok_def sample_machine_def urb_mem_def bytes_at_iff packets_at_iff
      sample_iso_urb_def zero_urb_def word_sle_eq)

lemma sample_given_machine_ok:
  "heap_ok (sample_given_machine fails)" "urb_mem (sample_given_machine fails) sample_iso_urb"
  "packets_set (sample_given_machine fails) sample_iso_urb"
  by (auto simp: heap_ok_def sample_given_machine_def urb_mem_def bytes_at_iff packets_at_iff
      packets_set_def load_packets_def load_def sample_iso_urb_def zero_urb_def word_sle_eq)

lemma replicate_numeral_2: "replicate 2 x = [x, x]"
  by (simp add: numeral_2_eq_2)

theorem fetch_data_correct_witness:
  "\<exists>r t. usb_vhci_fetch_data (sample_platform (Inl 0) sample_reply (Inl 0)) 3 sample_iso_urb
           (sample_machine []) = Some (r, t) \<and> r = 0 \<and>
     heap t 1 = Some (Bytes [Some 42, None, None]) \<and>
     heap t 2 = Some (Packets [Some (fetched_packet (0, 1)), Some (fetched_packet (0, 1))])"
  using fetch_data_correct [OF sample_machine_ok [of "[]"]
      fetch_data_ok_sample [of "Inl 0" "Inl 0"], of 3]
  by (auto simp: fetch_request_def sample_platform_simps sample_reply_def sample_iso_urb_def
      zero_urb_def sample_machine_def fetched_heap_def data_heap_def put_data_def alloc_fails_def
      replicate_numeral_2)

theorem giveback_correct_witness:
  "(\<exists>t. usb_vhci_giveback plain_platform 3 sample_iso_urb (sample_given_machine []) = Some (0, t) \<and>
     env t = [GaveBack \<lparr>ig_handle = 7, ig_status = 0, ig_buffer_actual = 0, ig_packet_count = 2,
       ig_error_count = 0, ig_buffer = None,
       ig_iso_packets = Some [Some (0, 1), Some (- EPIPE, 0)]\<rparr>]) \<and>
   usb_vhci_giveback plain_platform 3 sample_iso_urb (sample_given_machine [True]) = None"
  using giveback_correct [OF sample_given_machine_ok(1,2) [of "[]"], of plain_platform 3]
    giveback_correct [OF sample_given_machine_ok(1,2) [of "[True]"], of plain_platform 3]
    sample_given_machine_ok(3) [of "[]"]
  by (auto simp: Let_def giveback_oom_def giveback_request_def giveback_packets_def
      packet_reports_def given_packet_def giveback_result_def usb_vhci_is_iso_def
      sample_platform_simps sample_iso_urb_def zero_urb_def sample_given_machine_def
      alloc_fails_def load_packets_def load_def usb_vhci_to_iso_packets_errno_def
      usb_vhci_to_errno_def)

end
