(* ===== verification/Urb_Class.thy ===== *)
theory Urb_Class
  imports Urb_Memory
begin

text \<open>
  The C++ class \<^verbatim>\<open>usb::urb\<close> (\<^verbatim>\<open>urb.cpp\<close> and its inline members in
  \<^verbatim>\<open>libusb_vhci.h\<close>): the four constructors, the destructor, assignment, the accessors and
  \<^verbatim>\<open>set_iso_results\<close>. An object is its \<^verbatim>\<open>_urb\<close> structure; it owns the two blocks its
  pointers lead to. Constructors return the object or the exception they throw.
\<close>

section \<open>Copying and checking\<close>

definition load_urb :: "nat \<Rightarrow> ('e, 'z) machine_scheme \<Rightarrow> usb_vhci_urb option" where
  "load_urb p s = (case load p s of Some (UrbObj u) \<Rightarrow> Some u | _ \<Rightarrow> None)"

text \<open>\<open>std::copy(src, src + n, dst)\<close> into a freshly allocated array of \<open>n\<close> elements.\<close>

definition copy_bytes ::
  "nat \<Rightarrow> nat \<Rightarrow> nat \<Rightarrow> ('e, 'z) machine_scheme \<Rightarrow> ('e, 'z) machine_scheme option" where
  "copy_bytes src dst n s = do {
     bs \<leftarrow> load_bytes src s;
     if n \<le> length bs then store dst (Bytes (take n bs)) s else None }"

definition copy_packets ::
  "nat \<Rightarrow> nat \<Rightarrow> nat \<Rightarrow> ('e, 'z) machine_scheme \<Rightarrow> ('e, 'z) machine_scheme option" where
  "copy_packets src dst n s = do {
     ps \<leftarrow> load_packets src s;
     if n \<le> length ps then store dst (Packets (take n ps)) s else None }"

text \<open>
  \<^verbatim>\<open>urb::_cpy\<close>, its two \<open>if\<close> statements: the object as it is afterwards, also when
  an allocation throws.
\<close>

definition urb_cpy_buffer ::
  "usb_vhci_urb \<Rightarrow> usb_vhci_urb \<Rightarrow> ('e, 'z) machine_scheme \<Rightarrow>
   ((exn + unit) \<times> usb_vhci_urb \<times> ('e, 'z) machine_scheme) option" where
  "urb_cpy_buffer this u s =
     (if u_buffer_length this \<noteq> 0 then
        (case new_array Bytes (u_buffer_length this) s of
           (Inl e, s) \<Rightarrow> Some (Inl e, this, s)
         | (Inr p, s) \<Rightarrow> do {
             let this = this\<lparr>u_buffer := p\<rparr>;
             s \<leftarrow> copy_bytes (u_buffer u) p (unat (u_buffer_length this)) s;
             Some (Inr (), this, s) })
      else Some (Inr (), this, s))"

definition urb_cpy_packets ::
  "usb_vhci_urb \<Rightarrow> usb_vhci_urb \<Rightarrow> ('e, 'z) machine_scheme \<Rightarrow>
   ((exn + unit) \<times> usb_vhci_urb \<times> ('e, 'z) machine_scheme) option" where
  "urb_cpy_packets this u s =
     (if u_packet_count this \<noteq> 0 then
        (case new_array Packets (u_packet_count this) s of
           (Inl e, s) \<Rightarrow> Some (Inl e, this, s)
         | (Inr p, s) \<Rightarrow> do {
             let this = this\<lparr>u_iso_packets := p\<rparr>;
             s \<leftarrow> copy_packets (u_iso_packets u) p (unat (u_packet_count this)) s;
             Some (Inr (), this, s) })
      else Some (Inr (), this, s))"

definition urb_cpy ::
  "usb_vhci_urb \<Rightarrow> usb_vhci_urb \<Rightarrow> ('e, 'z) machine_scheme \<Rightarrow>
   ((exn + unit) \<times> usb_vhci_urb \<times> ('e, 'z) machine_scheme) option" where
  "urb_cpy this u s = do {
     (r, this, s) \<leftarrow> urb_cpy_buffer this u s;
     (case r of
        Inl e \<Rightarrow> Some (Inl e, this, s)
      | Inr _ \<Rightarrow> urb_cpy_packets this u s) }"

definition urb_chk :: "'z abi_scheme \<Rightarrow> usb_vhci_urb \<Rightarrow> exn + usb_vhci_urb" where
  "urb_chk k this =
     (if u_type this = URB_TYPE_ISO k then
        (if u_packet_count this \<noteq> 0 \<and> u_buffer_length this = 0
         then Inl (InvalidArgument ''urb'') else Inr this)
      else if u_type this = URB_TYPE_INT k \<or> u_type this = URB_TYPE_CONTROL k \<or>
              u_type this = URB_TYPE_BULK k
      then Inr (this\<lparr>u_packet_count := 0\<rparr>)
      else Inl (InvalidArgument ''urb''))"

section \<open>Constructors, destructor, assignment\<close>

text \<open>
  The result of running a constructor that stores to memory: an exception thrown by it
  discards the half-built object without running its destructor.
\<close>

definition built ::
  "(exn + unit) \<times> usb_vhci_urb \<times> ('e, 'z) machine_scheme \<Rightarrow>
   (exn + usb_vhci_urb) \<times> ('e, 'z) machine_scheme" where
  "built x = (case x of (Inl e, _, s) \<Rightarrow> (Inl e, s) | (Inr _, u, s) \<Rightarrow> (Inr u, s))"

definition urb_copy_ctor ::
  "usb_vhci_urb \<Rightarrow> ('e, 'z) machine_scheme \<Rightarrow>
   ((exn + usb_vhci_urb) \<times> ('e, 'z) machine_scheme) option" where
  "urb_copy_ctor u s = map_option built (urb_cpy (u\<lparr>u_buffer := 0, u_iso_packets := 0\<rparr>) u s)"

definition urb_struct_ctor ::
  "'y abi_scheme \<Rightarrow> usb_vhci_urb \<Rightarrow> ('e, 'z) machine_scheme \<Rightarrow>
   ((exn + usb_vhci_urb) \<times> ('e, 'z) machine_scheme) option" where
  "urb_struct_ctor k u s =
     (case urb_chk k (u\<lparr>u_buffer := 0, u_iso_packets := 0\<rparr>) of
        Inl e \<Rightarrow> Some (Inl e, s)
      | Inr this \<Rightarrow> map_option built (urb_cpy this u s))"

definition urb_own_ctor ::
  "'y abi_scheme \<Rightarrow> usb_vhci_urb \<Rightarrow> bool \<Rightarrow> ('e, 'z) machine_scheme \<Rightarrow>
   ((exn + usb_vhci_urb) \<times> ('e, 'z) machine_scheme) option" where
  "urb_own_ctor k u own s =
     (if \<not> own then
        (case urb_chk k (u\<lparr>u_buffer := 0, u_iso_packets := 0\<rparr>) of
           Inl e \<Rightarrow> Some (Inl e, s)
         | Inr this \<Rightarrow> map_option built (urb_cpy this u s))
      else
        (case urb_chk k u of
           Inl e \<Rightarrow> Some (Inl e, s)
         | Inr this \<Rightarrow>
             if u_buffer_length this = 0 \<and> u_buffer this \<noteq> 0
             then Some (Inl (InvalidArgument ''urb''), s)
             else if u_packet_count this = 0 \<and> u_iso_packets this \<noteq> 0
             then Some (Inl (InvalidArgument ''urb''), s)
             else Some (Inr this, s)))"

definition urb_dtor ::
  "usb_vhci_urb \<Rightarrow> ('e, 'z) machine_scheme \<Rightarrow> ('e, 'z) machine_scheme option" where
  "urb_dtor this s = do {
     s \<leftarrow> (if u_buffer this \<noteq> 0 then dealloc (u_buffer this) s else Some s);
     if u_iso_packets this \<noteq> 0 then dealloc (u_iso_packets this) s else Some s }"

text \<open>
  \<^verbatim>\<open>urb::operator=\<close> on the objects at \<open>this\<close> and \<open>other\<close>, which may be the same object.
\<close>

definition urb_assign ::
  "nat \<Rightarrow> nat \<Rightarrow> ('e, 'z) machine_scheme \<Rightarrow>
   ((exn + unit) \<times> ('e, 'z) machine_scheme) option" where
  "urb_assign this other s = do {
     u \<leftarrow> load_urb this s;
     s \<leftarrow> (if u_buffer u \<noteq> 0 then dealloc (u_buffer u) s else Some s);
     s \<leftarrow> (if u_iso_packets u \<noteq> 0 then dealloc (u_iso_packets u) s else Some s);
     v \<leftarrow> load_urb other s;
     let u = v\<lparr>u_buffer := 0, u_iso_packets := 0\<rparr>;
     s \<leftarrow> store this (UrbObj u) s;
     v \<leftarrow> load_urb other s;
     (r, u, s) \<leftarrow> urb_cpy u v s;
     s \<leftarrow> store this (UrbObj u) s;
     Some (r, s) }"

text \<open>The arguments of the member-wise constructor.\<close>

record urb_args =
  a_handle :: u64
  a_type :: u8
  a_buffer_length :: i32
  a_buffer :: nat
  a_own_buffer :: bool
  a_iso_packet_count :: i32
  a_iso_packets :: nat
  a_own_iso_packets :: bool
  a_buffer_actual :: i32
  a_status :: i32
  a_error_count :: i32
  a_flags :: u16
  a_interval :: u16
  a_devadr :: u8
  a_epadr :: u8
  a_bmRequestType :: u8
  a_bRequest :: u8
  a_wValue :: u16
  a_wIndex :: u16
  a_wLength :: u16

text \<open>The two blocks of argument checks before the \<open>switch\<close>.\<close>

definition urb_args_check :: "'y abi_scheme \<Rightarrow> urb_args \<Rightarrow> exn + unit" where
  "urb_args_check k a =
     (if a_type a \<noteq> URB_TYPE_CONTROL k \<and> a_bmRequestType a \<noteq> 0
      then Inl (InvalidArgument ''bmRequestType'')
      else if a_type a \<noteq> URB_TYPE_CONTROL k \<and> a_bRequest a \<noteq> 0
      then Inl (InvalidArgument ''bRequest'')
      else if a_type a \<noteq> URB_TYPE_CONTROL k \<and> a_wValue a \<noteq> 0
      then Inl (InvalidArgument ''wValue'')
      else if a_type a \<noteq> URB_TYPE_CONTROL k \<and> a_wIndex a \<noteq> 0
      then Inl (InvalidArgument ''wIndex'')
      else if a_type a \<noteq> URB_TYPE_CONTROL k \<and> a_wLength a \<noteq> 0
      then Inl (InvalidArgument ''wLength'')
      else if a_type a \<noteq> URB_TYPE_ISO k \<and> a_iso_packet_count a \<noteq> 0
      then Inl (InvalidArgument ''iso_packet_count'')
      else if a_type a \<noteq> URB_TYPE_ISO k \<and> a_iso_packets a \<noteq> 0
      then Inl (InvalidArgument ''iso_packets'')
      else if a_type a \<noteq> URB_TYPE_ISO k \<and> a_error_count a \<noteq> 0
      then Inl (InvalidArgument ''error_count'')
      else Inr ())"

text \<open>The \<open>switch(type)\<close>, and the allocation of the data buffer after it.\<close>

definition urb_args_switch ::
  "'y abi_scheme \<Rightarrow> urb_args \<Rightarrow> usb_vhci_urb \<Rightarrow> ('e, 'z) machine_scheme \<Rightarrow>
   ((exn + unit) \<times> usb_vhci_urb \<times> ('e, 'z) machine_scheme) option" where
  "urb_args_switch k a this s =
     (if a_type a = URB_TYPE_ISO k then
        (let this = this\<lparr>u_type := URB_TYPE_ISO k, u_packet_count := a_iso_packet_count a,
                         u_error_count := a_error_count a\<rparr>
         in if a_iso_packet_count a = 0 then Some (Inr (), this, s)
            else if a_buffer_length a = 0
            then Some (Inl (InvalidArgument ''iso_packet_count''), this, s)
            else if a_iso_packets a = 0
            then Some (Inl (InvalidArgument ''iso_packets''), this, s)
            else if a_own_iso_packets a
            then Some (Inr (), this\<lparr>u_iso_packets := a_iso_packets a\<rparr>, s)
            else (case new_array Packets (a_iso_packet_count a) s of
                    (Inl e, s) \<Rightarrow> Some (Inl e, this, s)
                  | (Inr p, s) \<Rightarrow> do {
                      s \<leftarrow> copy_packets (a_iso_packets a) p (unat (a_iso_packet_count a)) s;
                      Some (Inr (), this\<lparr>u_iso_packets := p\<rparr>, s) }))
      else if a_type a = URB_TYPE_INT k then Some (Inr (), this\<lparr>u_type := URB_TYPE_INT k\<rparr>, s)
      else if a_type a = URB_TYPE_CONTROL k then
        Some (Inr (), this\<lparr>u_type := URB_TYPE_CONTROL k, u_bmRequestType := a_bmRequestType a,
                           u_bRequest := a_bRequest a, u_wValue := a_wValue a,
                           u_wIndex := a_wIndex a, u_wLength := a_wLength a\<rparr>, s)
      else if a_type a = URB_TYPE_BULK k then
        (if a_interval a \<noteq> 0 then Some (Inl (InvalidArgument ''interval''), this, s)
         else Some (Inr (), this\<lparr>u_type := URB_TYPE_BULK k\<rparr>, s))
      else Some (Inl (InvalidArgument ''type''), this, s))"

definition urb_args_buffer ::
  "urb_args \<Rightarrow> usb_vhci_urb \<Rightarrow> ('e, 'z) machine_scheme \<Rightarrow>
   ((exn + unit) \<times> usb_vhci_urb \<times> ('e, 'z) machine_scheme) option" where
  "urb_args_buffer a this s =
     (if a_buffer_length a = 0 then Some (Inr (), this, s)
      else if a_buffer a \<noteq> 0 \<and> a_own_buffer a
      then Some (Inr (), this\<lparr>u_buffer := a_buffer a\<rparr>, s)
      else (case new_array Bytes (a_buffer_length a) s of
              (Inl e, s) \<Rightarrow> Some (Inl e, this, s)
            | (Inr p, s) \<Rightarrow>
                if a_buffer a \<noteq> 0 then do {
                  s \<leftarrow> copy_bytes (a_buffer a) p (unat (a_buffer_length a)) s;
                  Some (Inr (), this\<lparr>u_buffer := p\<rparr>, s) }
                else Some (Inr (), this\<lparr>u_buffer := p\<rparr>, s)))"

definition urb_full_ctor ::
  "'y abi_scheme \<Rightarrow> urb_args \<Rightarrow> ('e, 'z) machine_scheme \<Rightarrow>
   ((exn + usb_vhci_urb) \<times> ('e, 'z) machine_scheme) option" where
  "urb_full_ctor k a s =
     (let this = zero_urb\<lparr>u_handle := a_handle a, u_buffer_length := a_buffer_length a,
                          u_buffer_actual := a_buffer_actual a, u_status := a_status a,
                          u_flags := a_flags a, u_interval := ucast (a_interval a),
                          u_devadr := a_devadr a, u_epadr := a_epadr a\<rparr>
      in case urb_args_check k a of
           Inl e \<Rightarrow> Some (Inl e, s)
         | Inr _ \<Rightarrow> do {
             (r, this, s) \<leftarrow> urb_args_switch k a this s;
             (case r of
                Inl e \<Rightarrow> Some (Inl e, s)
              | Inr _ \<Rightarrow> map_option built (urb_args_buffer a this s)) })"

section \<open>Accessors\<close>

text \<open>Plain getters are the fields of the structure; these compute something.\<close>

definition get_endpoint_number :: "usb_vhci_urb \<Rightarrow> u8" where
  "get_endpoint_number u = u_epadr u AND 0x07"
definition is_in :: "usb_vhci_urb \<Rightarrow> bool" where
  "is_in u \<longleftrightarrow> has_mask (u_epadr u) 0x80"
definition is_out :: "usb_vhci_urb \<Rightarrow> bool" where
  "is_out u \<longleftrightarrow> \<not> is_in u"
definition is_isochronous :: "'z abi_scheme \<Rightarrow> usb_vhci_urb \<Rightarrow> bool" where
  "is_isochronous k u \<longleftrightarrow> u_type u = URB_TYPE_ISO k"
definition is_interrupt :: "'z abi_scheme \<Rightarrow> usb_vhci_urb \<Rightarrow> bool" where
  "is_interrupt k u \<longleftrightarrow> u_type u = URB_TYPE_INT k"
definition is_control :: "'z abi_scheme \<Rightarrow> usb_vhci_urb \<Rightarrow> bool" where
  "is_control k u \<longleftrightarrow> u_type u = URB_TYPE_CONTROL k"
definition is_bulk :: "'z abi_scheme \<Rightarrow> usb_vhci_urb \<Rightarrow> bool" where
  "is_bulk k u \<longleftrightarrow> u_type u = URB_TYPE_BULK k"
definition is_short_not_ok :: "'z abi_scheme \<Rightarrow> usb_vhci_urb \<Rightarrow> bool" where
  "is_short_not_ok k u \<longleftrightarrow> has_mask (u_flags u) (FLAGS_SHORT_NOT_OK k)"
definition is_zero_packet :: "'z abi_scheme \<Rightarrow> usb_vhci_urb \<Rightarrow> bool" where
  "is_zero_packet k u \<longleftrightarrow> has_mask (u_flags u) (FLAGS_ZERO_PACKET k)"

definition set_status :: "i32 \<Rightarrow> usb_vhci_urb \<Rightarrow> usb_vhci_urb" where
  "set_status v u = u\<lparr>u_status := v\<rparr>"
definition ack :: "usb_vhci_urb \<Rightarrow> usb_vhci_urb" where
  "ack u = set_status USB_VHCI_STATUS_SUCCESS u"
definition stall :: "usb_vhci_urb \<Rightarrow> usb_vhci_urb" where
  "stall u = set_status USB_VHCI_STATUS_STALL u"
definition set_buffer_actual :: "i32 \<Rightarrow> usb_vhci_urb \<Rightarrow> usb_vhci_urb" where
  "set_buffer_actual v u = u\<lparr>u_buffer_actual := v\<rparr>"
definition set_iso_error_count :: "i32 \<Rightarrow> usb_vhci_urb \<Rightarrow> usb_vhci_urb" where
  "set_iso_error_count v u = u\<lparr>u_error_count := v\<rparr>"

text \<open>Accessors of one packet; an index out of range or an unset packet is a fault.\<close>

definition get_iso_packet ::
  "usb_vhci_urb \<Rightarrow> i32 \<Rightarrow> ('e, 'z) machine_scheme \<Rightarrow> usb_vhci_iso_packet option" where
  "get_iso_packet u i s =
     (if i <s 0 then None
      else do { ps \<leftarrow> load_packets (u_iso_packets u) s; cell ps (unat i) })"

definition get_iso_packet_offset ::
  "usb_vhci_urb \<Rightarrow> i32 \<Rightarrow> ('e, 'z) machine_scheme \<Rightarrow> u32 option" where
  "get_iso_packet_offset u i s = map_option pk_offset (get_iso_packet u i s)"
definition get_iso_packet_length ::
  "usb_vhci_urb \<Rightarrow> i32 \<Rightarrow> ('e, 'z) machine_scheme \<Rightarrow> i32 option" where
  "get_iso_packet_length u i s = map_option pk_length (get_iso_packet u i s)"
definition get_iso_packet_actual ::
  "usb_vhci_urb \<Rightarrow> i32 \<Rightarrow> ('e, 'z) machine_scheme \<Rightarrow> i32 option" where
  "get_iso_packet_actual u i s = map_option pk_actual (get_iso_packet u i s)"
definition get_iso_packet_status ::
  "usb_vhci_urb \<Rightarrow> i32 \<Rightarrow> ('e, 'z) machine_scheme \<Rightarrow> i32 option" where
  "get_iso_packet_status u i s = map_option pk_status (get_iso_packet u i s)"

definition upd_iso_packet ::
  "(usb_vhci_iso_packet \<Rightarrow> usb_vhci_iso_packet) \<Rightarrow> usb_vhci_urb \<Rightarrow> i32 \<Rightarrow>
   ('e, 'z) machine_scheme \<Rightarrow> ('e, 'z) machine_scheme option" where
  "upd_iso_packet f u i s =
     (if i <s 0 then None
      else do {
        ps \<leftarrow> load_packets (u_iso_packets u) s;
        p \<leftarrow> cell ps (unat i);
        store (u_iso_packets u) (Packets (ps[unat i := Some (f p)])) s })"

definition set_iso_status ::
  "usb_vhci_urb \<Rightarrow> i32 \<Rightarrow> i32 \<Rightarrow> ('e, 'z) machine_scheme \<Rightarrow> ('e, 'z) machine_scheme option" where
  "set_iso_status u i v = upd_iso_packet (\<lambda>p. p\<lparr>pk_status := v\<rparr>) u i"
definition ack_iso ::
  "usb_vhci_urb \<Rightarrow> i32 \<Rightarrow> ('e, 'z) machine_scheme \<Rightarrow> ('e, 'z) machine_scheme option" where
  "ack_iso u i = set_iso_status u i USB_VHCI_STATUS_SUCCESS"
definition stall_iso ::
  "usb_vhci_urb \<Rightarrow> i32 \<Rightarrow> ('e, 'z) machine_scheme \<Rightarrow> ('e, 'z) machine_scheme option" where
  "stall_iso u i = set_iso_status u i USB_VHCI_STATUS_STALL"
definition set_iso_packet_actual ::
  "usb_vhci_urb \<Rightarrow> i32 \<Rightarrow> i32 \<Rightarrow> ('e, 'z) machine_scheme \<Rightarrow> ('e, 'z) machine_scheme option" where
  "set_iso_packet_actual u i v = upd_iso_packet (\<lambda>p. p\<lparr>pk_actual := v\<rparr>) u i"

section \<open>Results of an isochronous URB\<close>

text \<open>
  \<^verbatim>\<open>urb::set_iso_results\<close>: count the failed packets, then set the URB's status and, for
  IN, its length.
\<close>

definition count_iso_error ::
  "usb_vhci_urb \<Rightarrow> ('e, 'z) machine_scheme \<Rightarrow> nat \<Rightarrow> i32 \<Rightarrow> i32 option" where
  "count_iso_error u s i errors = do {
     st \<leftarrow> get_iso_packet_status u (of_nat i) s;
     Some (if st \<noteq> USB_VHCI_STATUS_SUCCESS then errors + 1 else errors) }"

definition set_iso_results ::
  "'y abi_scheme \<Rightarrow> usb_vhci_urb \<Rightarrow> ('e, 'z) machine_scheme \<Rightarrow> (exn + usb_vhci_urb) option" where
  "set_iso_results k u s =
     (if \<not> is_isochronous k u then Some (Inl (LogicError ''not an isochronous urb''))
      else do {
        errors \<leftarrow> for_upto 0 (nat (sint (u_packet_count u))) (count_iso_error u s) 0;
        let u = set_iso_error_count errors u;
        let u = (if errors = u_packet_count u
                 then set_status USB_VHCI_STATUS_ALL_ISO_PACKETS_FAILED u else ack u);
        let u = (if is_in u then set_buffer_actual (u_buffer_length u) u else u);
        Some (Inr u) })"

definition failed_packets :: "usb_vhci_iso_packet list \<Rightarrow> nat" where
  "failed_packets ps = length (filter (\<lambda>p. pk_status p \<noteq> USB_VHCI_STATUS_SUCCESS) ps)"

lemma failed_packets_le: "failed_packets ps \<le> length ps"
  by (simp add: failed_packets_def)

lemma failed_packets_all_iff:
  "failed_packets ps = length ps \<longleftrightarrow> (\<forall>p \<in> set ps. pk_status p \<noteq> USB_VHCI_STATUS_SUCCESS)"
  unfolding failed_packets_def
  by (metis (mono_tags, lifting) filter_True length_filter_less less_irrefl)

lemma of_nat_small:
  assumes "j < 2 ^ 31"
  shows "unat (of_nat j :: i32) = j \<and> \<not> (of_nat j :: i32) <s 0"
proof -
  have "uint (of_nat j :: i32) = int j" "sint (of_nat j :: i32) = int j"
    using assms by (simp_all add: unsigned_of_nat signed_of_nat take_bit_nat_eq_self
        signed_take_bit_int_eq_self)
  then show ?thesis by (simp add: word_sless_alt) (metis nat_int unat_eq_nat_uint)
qed

lemma count_iso_errors_loop:
  assumes "u_iso_packets u \<noteq> 0" "heap s (u_iso_packets u) = Some (Packets (map Some ps))"
    and "length ps < 2 ^ 31"
  shows "for_upto 0 (length ps) (count_iso_error u s) 0 = Some (of_nat (failed_packets ps))"
proof -
  have "\<exists>e. for_upto 0 (length ps) (count_iso_error u s) 0 = Some e \<and>
      e = of_nat (failed_packets (take (length ps) ps))"
  proof (rule for_upto_rule [where I = "\<lambda>i e. e = of_nat (failed_packets (take i ps))"])
    fix j and e :: i32 assume j: "j < length ps" "e = of_nat (failed_packets (take j ps))"
    have "load_packets (u_iso_packets u) s = Some (map Some ps)"
      using assms by (simp add: load_packets_Some)
    moreover have "unat (of_nat j :: i32) = j" "\<not> (of_nat j :: i32) <s 0"
      using of_nat_small [of j] j(1) assms(3) by simp_all
    ultimately show "\<exists>e'. count_iso_error u s j e = Some e' \<and>
        e' = of_nat (failed_packets (take (Suc j) ps))"
      using j by (simp add: count_iso_error_def get_iso_packet_status_def get_iso_packet_def
          cell_def take_Suc_conv_app_nth failed_packets_def)
  qed (simp_all add: failed_packets_def)
  then show ?thesis by simp
qed

text \<open>The packets of a URB whose packets are all set.\<close>

definition iso_packets_of :: "('e, 'z) machine_scheme \<Rightarrow> usb_vhci_urb \<Rightarrow> usb_vhci_iso_packet list" where
  "iso_packets_of s u =
     (if u_packet_count u = 0 then []
      else case load_packets (u_iso_packets u) s of Some ps \<Rightarrow> map the ps | None \<Rightarrow> [])"

lemma iso_packets_of_heap:
  assumes "urb_mem s u" "packets_set s u"
  shows "length (iso_packets_of s u) = unat (u_packet_count u)"
    and "u_packet_count u \<noteq> 0 \<Longrightarrow> u_iso_packets u \<noteq> 0 \<and>
      heap s (u_iso_packets u) = Some (Packets (map Some (iso_packets_of s u)))"
proof -
  have "u_iso_packets u \<noteq> 0 \<and> length (iso_packets_of s u) = unat (u_packet_count u) \<and>
      heap s (u_iso_packets u) = Some (Packets (map Some (iso_packets_of s u)))"
    if pc: "u_packet_count u \<noteq> 0"
  proof -
    obtain ps where ps: "u_iso_packets u \<noteq> 0"
        "heap s (u_iso_packets u) = Some (Packets (map Some ps))"
      using assms(2) pc by (auto simp: packets_set_iff)
    then have "load_packets (u_iso_packets u) s = Some (map Some ps)"
      by (simp add: load_packets_Some)
    with pc have "iso_packets_of s u = ps" by (simp add: iso_packets_of_def comp_def)
    with ps assms(1) pc show ?thesis by (auto simp: urb_mem_def packets_at_iff)
  qed
  then show "length (iso_packets_of s u) = unat (u_packet_count u)"
    "u_packet_count u \<noteq> 0 \<Longrightarrow> u_iso_packets u \<noteq> 0 \<and>
      heap s (u_iso_packets u) = Some (Packets (map Some (iso_packets_of s u)))"
    by (auto simp: iso_packets_of_def)
qed

lemma unat_nonneg_small: "0 \<le>s (w :: i32) \<Longrightarrow> unat w < 2 ^ 31"
  using sint_lt [of w] by (simp flip: nat_sint_nonneg)

lemma of_nat_eq_count:
  assumes "n \<le> unat (w :: i32)"
  shows "of_nat n = w \<longleftrightarrow> n = unat w" "unat (of_nat n :: i32) = n"
proof -
  have "unat w < 2 ^ 32" using unsigned_less [where 'a = nat and 'b = 32, of w] by simp
  with assms have "n < 2 ^ LENGTH(32)" by simp
  then show "unat (of_nat n :: i32) = n" by (simp add: unat_of_nat)
  then show "of_nat n = w \<longleftrightarrow> n = unat w" by auto
qed

text \<open>
  \<open>set_iso_results\<close> refuses URBs that are not isochronous. On an isochronous URB
  whose packets are all set it never faults: the error count is the number of packets whose
  status is not \<open>SUCCESS\<close> (no overflow), the URB fails exactly when every packet failed
  (which includes a URB without packets) and succeeds otherwise, an IN URB reports its full
  length, and nothing else changes.
\<close>

theorem set_iso_results_correct:
  assumes "urb_mem s u" and "packets_set s u"
  shows "if is_isochronous k u
    then \<exists>n. set_iso_results k u s = Some (Inr (u\<lparr>u_error_count := n,
           u_status := (if \<forall>p \<in> set (iso_packets_of s u). pk_status p \<noteq> USB_VHCI_STATUS_SUCCESS
                        then USB_VHCI_STATUS_ALL_ISO_PACKETS_FAILED
                        else USB_VHCI_STATUS_SUCCESS),
           u_buffer_actual := (if is_in u then u_buffer_length u else u_buffer_actual u)\<rparr>)) \<and>
         unat n = failed_packets (iso_packets_of s u)
    else set_iso_results k u s = Some (Inl (LogicError ''not an isochronous urb''))"
proof (cases "is_isochronous k u")
  case True
  let ?ps = "iso_packets_of s u"
  have pc: "0 \<le>s u_packet_count u" using assms(1) by (simp add: urb_mem_def)
  note heap = iso_packets_of_heap [OF assms]
  have le: "failed_packets ?ps \<le> unat (u_packet_count u)"
    using failed_packets_le [of ?ps] heap(1) by simp
  have loop: "for_upto 0 (nat (sint (u_packet_count u))) (count_iso_error u s) 0 =
      Some (of_nat (failed_packets ?ps))"
  proof (cases "u_packet_count u = 0")
    case True
    then show ?thesis by (simp add: iso_packets_of_def failed_packets_def)
  next
    case False
    with heap unat_nonneg_small [OF pc] show ?thesis
      using count_iso_errors_loop [of u s ?ps] by (simp add: nat_sint_nonneg [OF pc])
  qed
  have "(of_nat (failed_packets ?ps) = u_packet_count u) =
      (\<forall>p \<in> set ?ps. pk_status p \<noteq> USB_VHCI_STATUS_SUCCESS)"
    using of_nat_eq_count(1) [OF le] heap(1) failed_packets_all_iff [of ?ps] by simp
  with True loop of_nat_eq_count(2) [OF le] show ?thesis
    by (auto intro!: exI [of _ "of_nat (failed_packets ?ps)"] simp: set_iso_results_def set_iso_error_count_def set_status_def ack_def
        set_buffer_actual_def is_in_def Let_def)
qed (simp add: set_iso_results_def)

theorem set_iso_results_correct_witness:
  "\<exists>n. set_iso_results plain_platform (sample_iso_urb\<lparr>u_status := 5\<rparr>) (sample_given_machine []) =
     Some (Inr (sample_iso_urb\<lparr>u_error_count := n, u_status := USB_VHCI_STATUS_SUCCESS,
                              u_buffer_actual := 3\<rparr>)) \<and> unat n = 1"
proof -
  let ?u = "sample_iso_urb\<lparr>u_status := 5\<rparr>"
  have "urb_mem (sample_given_machine []) ?u" "packets_set (sample_given_machine []) ?u"
    using sample_given_machine_ok by (simp_all add: urb_mem_def packets_set_def)
  from set_iso_results_correct [OF this, of plain_platform] show ?thesis
    by (simp add: is_isochronous_def is_in_def has_mask_def iso_packets_of_def failed_packets_def
        sample_platform_simps sample_iso_urb_def zero_urb_def sample_given_machine_def
        load_packets_def load_def)
qed

end
