(* ===== verification/Urb_Lifetime.thy ===== *)
theory Urb_Lifetime
  imports Urb_Class
begin

text \<open>
  Who owns the memory of a \<^verbatim>\<open>usb::urb\<close>: copying allocates, destroying frees, assignment
  does both. The lemmas say exactly how the heap changes, on success and when an allocation
  fails.
\<close>

section \<open>Frames\<close>

text \<open>What operations on objects leave alone: everything but the heap and its allocator.\<close>

definition memory_only :: "('e, 'z) machine_scheme \<Rightarrow> ('e, 'z) machine_scheme \<Rightarrow> bool" where
  "memory_only s t \<longleftrightarrow> env t = env s \<and> errno t = errno s \<and> naps t = naps s \<and>
     machine.more t = machine.more s \<and> brk s \<le> brk t"

lemma memory_only_refl [simp]: "memory_only s s"
  by (simp add: memory_only_def)

lemma memory_only_trans: "memory_only r s \<Longrightarrow> memory_only s t \<Longrightarrow> memory_only r t"
  by (simp add: memory_only_def)

lemma memory_only_heap [simp]: "memory_only r (s\<lparr>heap := h\<rparr>) = memory_only r s"
  by (simp add: memory_only_def)

lemma new_array_cases:
  assumes "heap_ok s" "0 \<le>s n" "new_array mk n s = (r, t)"
  obtains (fail) "r = Inl BadAlloc" "heap t = heap s" "heap_ok t" "memory_only s t"
  | (ok) "r = Inr (brk s)" "0 < brk s" "heap s (brk s) = None" "brk s < brk t"
        "heap t = (heap s)(brk s \<mapsto> mk (cells n))" "heap_ok t" "memory_only s t"
proof -
  obtain p q where pq: "alloc (mk (cells n)) s = (p, q)" by fastforce
  have r: "r = (if p = 0 then Inl BadAlloc else Inr p)" "t = q"
    using assms(2,3) pq by (auto simp: new_array_def sless_zero_iff split: if_splits)
  show thesis
    using assms(1) pq
  proof (cases rule: alloc_cases)
    case fail
    then show thesis using r that(1) by (simp add: memory_only_def)
  next
    case ok
    then show thesis using r that(2) by (simp add: memory_only_def)
  qed
qed

section \<open>Copying\<close>

text \<open>Put a block into the heap when there is one to put.\<close>

definition put_block :: "i32 \<Rightarrow> nat \<Rightarrow> block option \<Rightarrow> (nat \<Rightarrow> block option) \<Rightarrow> nat \<Rightarrow> block option" where
  "put_block n p b h = (if n = 0 then h else h(p := b))"

definition dup_heap ::
  "(nat \<Rightarrow> block option) \<Rightarrow> usb_vhci_urb \<Rightarrow> usb_vhci_urb \<Rightarrow> nat \<Rightarrow> block option" where
  "dup_heap h u v =
     put_block (u_packet_count v) (u_iso_packets v) (h (u_iso_packets u))
       (put_block (u_buffer_length v) (u_buffer v) (h (u_buffer u)) h)"

text \<open>The pointers of \<open>v\<close> lead to blocks that are free in \<open>h\<close>, and are different.\<close>

definition fresh_urb :: "(nat \<Rightarrow> block option) \<Rightarrow> usb_vhci_urb \<Rightarrow> bool" where
  "fresh_urb h v \<longleftrightarrow>
     (if u_buffer_length v = 0 then u_buffer v = 0
      else u_buffer v \<noteq> 0 \<and> h (u_buffer v) = None) \<and>
     (if u_packet_count v = 0 then u_iso_packets v = 0
      else u_iso_packets v \<noteq> 0 \<and> h (u_iso_packets v) = None \<and> u_iso_packets v \<noteq> u_buffer v)"

text \<open>What \<open>_cpy\<close> needs of its source: at least as much data as the copy will hold.\<close>

definition copy_source :: "('e, 'z) machine_scheme \<Rightarrow> usb_vhci_urb \<Rightarrow> usb_vhci_urb \<Rightarrow> bool" where
  "copy_source s this u \<longleftrightarrow>
     0 \<le>s u_buffer_length this \<and> 0 \<le>s u_packet_count this \<and>
     (u_buffer_length this \<noteq> 0 \<longrightarrow> bytes_at s (u_buffer u) (unat (u_buffer_length this))) \<and>
     (u_packet_count this \<noteq> 0 \<longrightarrow> packets_at s (u_iso_packets u) (unat (u_packet_count this)))"

lemma copy_bytes_to:
  assumes "bytes_at s src n" "dst \<noteq> 0" "heap s dst \<noteq> None"
  shows "copy_bytes src dst n s = Some (s\<lparr>heap := (heap s)(dst := heap s src)\<rparr>)"
proof -
  obtain bs where "load_bytes src s = Some bs" "heap s src = Some (Bytes bs)" "length bs = n"
    using assms(1) by (auto simp: bytes_at_iff load_bytes_Some)
  then show ?thesis using assms(2,3) by (auto simp: copy_bytes_def store_def)
qed

lemma copy_packets_to:
  assumes "packets_at s src n" "dst \<noteq> 0" "heap s dst \<noteq> None"
  shows "copy_packets src dst n s = Some (s\<lparr>heap := (heap s)(dst := heap s src)\<rparr>)"
proof -
  obtain ps where "load_packets src s = Some ps" "heap s src = Some (Packets ps)" "length ps = n"
    using assms(1) by (auto simp: packets_at_iff load_packets_Some)
  then show ?thesis using assms(2,3) by (auto simp: copy_packets_def store_def)
qed

text \<open>The two halves of \<open>_cpy\<close>.\<close>

lemma new_copy_bytes:
  assumes "heap_ok s" "0 \<le>s n" "bytes_at s src (unat n)" "new_array Bytes n s = (r, t)"
  shows "case r of Inl e \<Rightarrow> e = BadAlloc \<and> heap t = heap s \<and> heap_ok t \<and> memory_only s t
    | Inr p \<Rightarrow> p \<noteq> 0 \<and> heap s p = None \<and> (\<exists>t'. copy_bytes src p (unat n) t = Some t' \<and>
        heap t' = (heap s)(p := heap s src) \<and> heap_ok t' \<and> memory_only s t')"
  using assms(1,2,4)
proof (cases rule: new_array_cases)
  case ok
  then have src: "src \<noteq> brk s" using assms(3) by (auto simp: bytes_at_iff)
  then have "bytes_at t src (unat n)" using ok assms(3) by (auto simp: bytes_at_iff)
  then have "copy_bytes src (brk s) (unat n) t =
      Some (t\<lparr>heap := (heap t)(brk s := heap t src)\<rparr>)"
    using ok by (intro copy_bytes_to) auto
  then show ?thesis using ok src heap_ok_update [of t "brk s"] by simp
qed simp

lemma new_copy_packets:
  assumes "heap_ok s" "0 \<le>s n" "packets_at s src (unat n)" "new_array Packets n s = (r, t)"
  shows "case r of Inl e \<Rightarrow> e = BadAlloc \<and> heap t = heap s \<and> heap_ok t \<and> memory_only s t
    | Inr p \<Rightarrow> p \<noteq> 0 \<and> heap s p = None \<and> (\<exists>t'. copy_packets src p (unat n) t = Some t' \<and>
        heap t' = (heap s)(p := heap s src) \<and> heap_ok t' \<and> memory_only s t')"
  using assms(1,2,4)
proof (cases rule: new_array_cases)
  case ok
  then have src: "src \<noteq> brk s" using assms(3) by (auto simp: packets_at_iff)
  then have "packets_at t src (unat n)" using ok assms(3) by (auto simp: packets_at_iff)
  then have "copy_packets src (brk s) (unat n) t =
      Some (t\<lparr>heap := (heap t)(brk s := heap t src)\<rparr>)"
    using ok by (intro copy_packets_to) auto
  then show ?thesis using ok src heap_ok_update [of t "brk s"] by simp
qed simp

text \<open>How the heap looks after \<open>_cpy\<close>; a failure may leave the first copy behind.\<close>

definition cpy_post ::
  "(nat \<Rightarrow> block option) \<Rightarrow> usb_vhci_urb \<Rightarrow> exn + unit \<Rightarrow> usb_vhci_urb \<Rightarrow>
   (nat \<Rightarrow> block option) \<Rightarrow> bool" where
  "cpy_post h u r v h' \<longleftrightarrow>
     (case r of
        Inl e \<Rightarrow> e = BadAlloc \<and> u_iso_packets v = 0 \<and> (u_buffer v \<noteq> 0 \<longrightarrow> h (u_buffer v) = None) \<and>
          h' = (if u_buffer v = 0 then h else h(u_buffer v := h (u_buffer u)))
      | Inr _ \<Rightarrow> fresh_urb h v \<and> h' = dup_heap h u v)"

lemma urb_cpy_buffer_spec:
  assumes "heap_ok s" "copy_source s this u" "u_buffer this = 0"
  shows "\<exists>r v t. urb_cpy_buffer this u s = Some (r, v, t) \<and>
    v\<lparr>u_buffer := 0\<rparr> = this \<and> heap_ok t \<and> memory_only s t \<and>
    (case r of Inl e \<Rightarrow> e = BadAlloc \<and> u_buffer v = 0 \<and> heap t = heap s
     | Inr _ \<Rightarrow> (if u_buffer_length v = 0 then u_buffer v = 0
                else u_buffer v \<noteq> 0 \<and> heap s (u_buffer v) = None) \<and>
               heap t = put_block (u_buffer_length v) (u_buffer v) (heap s (u_buffer u)) (heap s))"
proof (cases "u_buffer_length this = 0")
  case True
  then show ?thesis using assms by (auto simp: urb_cpy_buffer_def put_block_def)
next
  case False
  obtain r t where rt: "new_array Bytes (u_buffer_length this) s = (r, t)" by fastforce
  from assms(2) False have len: "0 \<le>s u_buffer_length this"
    and src: "bytes_at s (u_buffer u) (unat (u_buffer_length this))" by (auto simp: copy_source_def)
  show ?thesis
  proof (cases r)
    case (Inl e)
    then show ?thesis using new_copy_bytes [OF assms(1) len src rt] False rt assms(3)
      by (auto simp: urb_cpy_buffer_def)
  next
    case (Inr p)
    then obtain t' where "p \<noteq> 0" "heap s p = None" "heap_ok t'" "memory_only s t'"
      "copy_bytes (u_buffer u) p (unat (u_buffer_length this)) t = Some t'"
      "heap t' = (heap s)(p := heap s (u_buffer u))"
      using new_copy_bytes [OF assms(1) len src rt] by auto
    then show ?thesis using False rt Inr assms(3)
      by (intro exI [of _ "Inr ()"] exI [of _ "this\<lparr>u_buffer := p\<rparr>"] exI [of _ t'])
        (simp add: urb_cpy_buffer_def put_block_def)
  qed
qed

lemma urb_cpy_packets_spec:
  assumes "heap_ok s" "0 \<le>s u_packet_count this" "u_iso_packets this = 0"
    and "u_packet_count this \<noteq> 0 \<longrightarrow> packets_at s (u_iso_packets u) (unat (u_packet_count this))"
  shows "\<exists>r v t. urb_cpy_packets this u s = Some (r, v, t) \<and>
    v\<lparr>u_iso_packets := 0\<rparr> = this \<and> heap_ok t \<and> memory_only s t \<and>
    (case r of Inl e \<Rightarrow> e = BadAlloc \<and> u_iso_packets v = 0 \<and> heap t = heap s
     | Inr _ \<Rightarrow> (if u_packet_count v = 0 then u_iso_packets v = 0
                else u_iso_packets v \<noteq> 0 \<and> heap s (u_iso_packets v) = None) \<and>
               heap t = put_block (u_packet_count v) (u_iso_packets v)
                          (heap s (u_iso_packets u)) (heap s))"
proof (cases "u_packet_count this = 0")
  case True
  then show ?thesis using assms by (auto simp: urb_cpy_packets_def put_block_def)
next
  case False
  obtain r t where rt: "new_array Packets (u_packet_count this) s = (r, t)" by fastforce
  from assms False have len: "0 \<le>s u_packet_count this"
    and src: "packets_at s (u_iso_packets u) (unat (u_packet_count this))" by auto
  show ?thesis
  proof (cases r)
    case (Inl e)
    then show ?thesis using new_copy_packets [OF assms(1) len src rt] False rt assms(3)
      by (auto simp: urb_cpy_packets_def)
  next
    case (Inr p)
    then obtain t' where "p \<noteq> 0" "heap s p = None" "heap_ok t'" "memory_only s t'"
      "copy_packets (u_iso_packets u) p (unat (u_packet_count this)) t = Some t'"
      "heap t' = (heap s)(p := heap s (u_iso_packets u))"
      using new_copy_packets [OF assms(1) len src rt] by auto
    then show ?thesis using False rt Inr assms(3)
      by (intro exI [of _ "Inr ()"] exI [of _ "this\<lparr>u_iso_packets := p\<rparr>"] exI [of _ t'])
        (simp add: urb_cpy_packets_def put_block_def)
  qed
qed

lemma urb_cpy_spec:
  assumes "heap_ok s" "copy_source s this u" "u_buffer this = 0" "u_iso_packets this = 0"
  shows "\<exists>r v t. urb_cpy this u s = Some (r, v, t) \<and>
    v\<lparr>u_buffer := 0, u_iso_packets := 0\<rparr> = this \<and> heap_ok t \<and> memory_only s t \<and>
    cpy_post (heap s) u r v (heap t)"
proof -
  obtain r v t where 1: "urb_cpy_buffer this u s = Some (r, v, t)"
    "v\<lparr>u_buffer := 0\<rparr> = this" "heap_ok t" "memory_only s t"
    "case r of Inl e \<Rightarrow> e = BadAlloc \<and> u_buffer v = 0 \<and> heap t = heap s
     | Inr _ \<Rightarrow> (if u_buffer_length v = 0 then u_buffer v = 0
                else u_buffer v \<noteq> 0 \<and> heap s (u_buffer v) = None) \<and>
               heap t = put_block (u_buffer_length v) (u_buffer v) (heap s (u_buffer u)) (heap s)"
    using urb_cpy_buffer_spec [OF assms(1-3)] by blast
  have v: "u_iso_packets v = 0" "u_packet_count v = u_packet_count this"
    using 1(2) assms(4) by auto
  show ?thesis
  proof (cases r)
    case (Inl e)
    then show ?thesis using 1 v by (auto simp: urb_cpy_def cpy_post_def)
  next
    case (Inr x)
    then have ht: "heap t = put_block (u_buffer_length v) (u_buffer v) (heap s (u_buffer u)) (heap s)"
      "if u_buffer_length v = 0 then u_buffer v = 0
       else u_buffer v \<noteq> 0 \<and> heap s (u_buffer v) = None"
      using 1(5) by auto
    have same: "heap t (u_iso_packets u) = heap s (u_iso_packets u) \<and>
        packets_at t (u_iso_packets u) (unat (u_packet_count v))" if "u_packet_count v \<noteq> 0"
      using that ht assms(2) v by (auto simp: copy_source_def packets_at_iff put_block_def)
    obtain r' v' t' where 2: "urb_cpy_packets v u t = Some (r', v', t')"
      "v'\<lparr>u_iso_packets := 0\<rparr> = v" "heap_ok t'" "memory_only t t'"
      "case r' of Inl e \<Rightarrow> e = BadAlloc \<and> u_iso_packets v' = 0 \<and> heap t' = heap t
       | Inr _ \<Rightarrow> (if u_packet_count v' = 0 then u_iso_packets v' = 0
                  else u_iso_packets v' \<noteq> 0 \<and> heap t (u_iso_packets v') = None) \<and>
                 heap t' = put_block (u_packet_count v') (u_iso_packets v')
                            (heap t (u_iso_packets u)) (heap t)"
      using urb_cpy_packets_spec [of t v u] 1(3) v same assms(2)
      by (auto simp: copy_source_def)
    have v': "u_packet_count v' = u_packet_count v" "u_buffer_length v' = u_buffer_length v"
      "u_buffer v' = u_buffer v" "v'\<lparr>u_buffer := 0, u_iso_packets := 0\<rparr> = this"
      using 1(2) 2(2) v by auto
    have "cpy_post (heap s) u r' v' (heap t')"
      using 2(5) ht same v' v assms(2)
      by (cases r') (auto simp: cpy_post_def fresh_urb_def dup_heap_def put_block_def
          copy_source_def bytes_at_iff split: if_splits)
    then show ?thesis
      using Inr 1 2 v' memory_only_trans [OF 1(4) 2(4)] by (auto simp: urb_cpy_def)
  qed
qed

section \<open>Destroying\<close>

definition free_urb :: "(nat \<Rightarrow> block option) \<Rightarrow> usb_vhci_urb \<Rightarrow> nat \<Rightarrow> block option" where
  "free_urb h u = h(u_buffer u := None, u_iso_packets u := None)"

lemma heap_ok_null: "heap_ok s \<Longrightarrow> heap s 0 = None"
  by (auto simp: heap_ok_def)

lemma urb_mem_pointers:
  assumes "urb_mem s u"
  shows "u_buffer u = 0 \<or> heap s (u_buffer u) \<noteq> None"
    and "u_iso_packets u = 0 \<or> heap s (u_iso_packets u) \<noteq> None"
    and "u_iso_packets u = u_buffer u \<Longrightarrow> u_buffer u = 0"
  using assms by (auto simp: urb_mem_def bytes_at_iff packets_at_iff split: if_splits)

lemma urb_dtor_spec:
  assumes "heap_ok s" "urb_mem s u"
  shows "urb_dtor u s = Some (s\<lparr>heap := free_urb (heap s) u\<rparr>)"
  using urb_mem_pointers [OF assms(2)] heap_ok_null [OF assms(1)]
  by (auto simp: urb_dtor_def dealloc_def free_urb_def fun_upd_idem fun_upd_twist)

lemma heap_ok_free: "heap_ok s \<Longrightarrow> heap_ok (s\<lparr>heap := free_urb (heap s) u\<rparr>)"
  by (simp add: heap_ok_def free_urb_def)

lemma urb_mem_dup:
  assumes "copy_source s v u" "fresh_urb (heap s) v" "heap t = dup_heap (heap s) u v"
  shows "urb_mem t v"
  using assms
  by (auto simp: urb_mem_def copy_source_def fresh_urb_def dup_heap_def put_block_def
      bytes_at_iff packets_at_iff split: if_splits)

lemma free_dup:
  assumes "heap_ok s" "fresh_urb (heap s) v"
  shows "free_urb (dup_heap (heap s) u v) v = heap s"
  using assms(2) heap_ok_null [OF assms(1)]
  by (auto simp: fresh_urb_def dup_heap_def put_block_def free_urb_def fun_eq_iff split: if_splits)

lemma urb_mem_copy_source: "urb_mem s u \<Longrightarrow> copy_source s (u\<lparr>u_buffer := a, u_iso_packets := b\<rparr>) u"
  by (simp add: urb_mem_def copy_source_def split: if_splits)

lemma copy_source_cong:
  "u_buffer_length v = u_buffer_length w \<Longrightarrow> u_packet_count v = u_packet_count w \<Longrightarrow>
   copy_source s v u = copy_source s w u"
  by (simp add: copy_source_def)

lemma same_but_pointers:
  assumes "v\<lparr>u_buffer := 0, u_iso_packets := 0\<rparr> = u\<lparr>u_buffer := 0, u_iso_packets := 0\<rparr>"
  shows "u_buffer_length v = u_buffer_length u" "u_packet_count v = u_packet_count u"
    "v\<lparr>u_buffer := u_buffer u, u_iso_packets := u_iso_packets u\<rparr> = u"
proof -
  show "u_buffer_length v = u_buffer_length u"
    using arg_cong [OF assms, of u_buffer_length] by simp
  show "u_packet_count v = u_packet_count u"
    using arg_cong [OF assms, of u_packet_count] by simp
  show "v\<lparr>u_buffer := u_buffer u, u_iso_packets := u_iso_packets u\<rparr> = u"
    using arg_cong [OF assms, of "\<lambda>w. w\<lparr>u_buffer := u_buffer u, u_iso_packets := u_iso_packets u\<rparr>"]
    by simp
qed

lemma urb_copy_ctor_spec:
  assumes "heap_ok s" and "urb_mem s u"
  shows "\<exists>r t. urb_copy_ctor u s = Some (r, t) \<and> heap_ok t \<and> memory_only s t \<and>
    (case r of
       Inl e \<Rightarrow> e = BadAlloc \<and> heap s \<subseteq>\<^sub>m heap t
     | Inr v \<Rightarrow> v\<lparr>u_buffer := u_buffer u, u_iso_packets := u_iso_packets u\<rparr> = u \<and>
         fresh_urb (heap s) v \<and> heap t = dup_heap (heap s) u v \<and> urb_mem t v)"
proof -
  let ?z = "u\<lparr>u_buffer := 0, u_iso_packets := 0\<rparr>"
  obtain r v t where 1: "urb_cpy ?z u s = Some (r, v, t)"
    "v\<lparr>u_buffer := 0, u_iso_packets := 0\<rparr> = ?z" "heap_ok t" "memory_only s t"
    "cpy_post (heap s) u r v (heap t)"
    using urb_cpy_spec [OF assms(1) urb_mem_copy_source [OF assms(2)], of 0 0] by auto
  show ?thesis
  proof (cases r)
    case (Inl e)
    then show ?thesis using 1 by (auto simp: urb_copy_ctor_def built_def cpy_post_def map_le_def)
  next
    case (Inr x)
    then have post: "fresh_urb (heap s) v" "heap t = dup_heap (heap s) u v"
      using 1(5) by (auto simp: cpy_post_def)
    have eqs: "u_buffer_length v = u_buffer_length ?z" "u_packet_count v = u_packet_count ?z"
      "v\<lparr>u_buffer := u_buffer u, u_iso_packets := u_iso_packets u\<rparr> = u"
      using same_but_pointers [OF 1(2)] by simp_all
    have "copy_source s v u"
      using urb_mem_copy_source [OF assms(2), of 0 0] copy_source_cong eqs(1,2) by blast
    then have "urb_mem t v" using post by (rule urb_mem_dup)
    then show ?thesis
      using Inr 1 post eqs by (auto simp: urb_copy_ctor_def built_def)
  qed
qed

text \<open>
  C39. Copying a URB is deep, and the copy's destructor undoes it. For a URB with good
  pointers the copy constructor never faults and can only throw \<open>bad_alloc\<close>, with every block
  of the original as it was. On success the copy agrees with the original in every field but
  the pointers, which lead to fresh blocks with the same contents; destroying the copy
  gives back exactly the memory that was there before.
\<close>

theorem urb_copy_deep:
  assumes "heap_ok s" and "urb_mem s u"
  shows "\<exists>r t. urb_copy_ctor u s = Some (r, t) \<and> heap_ok t \<and> memory_only s t \<and>
    (case r of
       Inl e \<Rightarrow> e = BadAlloc \<and> heap s \<subseteq>\<^sub>m heap t
     | Inr v \<Rightarrow> v\<lparr>u_buffer := u_buffer u, u_iso_packets := u_iso_packets u\<rparr> = u \<and>
         fresh_urb (heap s) v \<and> heap t = dup_heap (heap s) u v \<and> urb_mem t v \<and>
         (\<exists>t'. urb_dtor v t = Some t' \<and> heap t' = heap s \<and> memory_only t t'))"
proof -
  obtain r t where 1: "urb_copy_ctor u s = Some (r, t)" "heap_ok t" "memory_only s t"
    "case r of Inl e \<Rightarrow> e = BadAlloc \<and> heap s \<subseteq>\<^sub>m heap t
     | Inr v \<Rightarrow> v\<lparr>u_buffer := u_buffer u, u_iso_packets := u_iso_packets u\<rparr> = u \<and>
         fresh_urb (heap s) v \<and> heap t = dup_heap (heap s) u v \<and> urb_mem t v"
    using urb_copy_ctor_spec [OF assms] by blast
  show ?thesis
  proof (cases r)
    case (Inr v)
    have "urb_dtor v t = Some (t\<lparr>heap := heap s\<rparr>)"
      using urb_dtor_spec [OF 1(2)] free_dup [OF assms(1)] 1(4) Inr by simp
    then show ?thesis using 1 Inr by auto
  qed (use 1 in auto)
qed

lemma sample_copy_succeeds:
  "\<exists>v t. urb_copy_ctor sample_iso_urb (sample_given_machine []) = Some (Inr v, t)"
  by (simp add: urb_copy_ctor_def urb_cpy_def urb_cpy_buffer_def urb_cpy_packets_def built_def
      new_array_def alloc_def alloc_fails_def sample_given_machine_def sample_iso_urb_def
      zero_urb_def copy_bytes_def copy_packets_def load_bytes_def load_packets_def load_def
      store_def word_sless_alt)

theorem urb_copy_deep_witness:
  "\<exists>v t t'. urb_copy_ctor sample_iso_urb (sample_given_machine []) = Some (Inr v, t) \<and>
     urb_mem t v \<and> urb_dtor v t = Some t' \<and> heap t' = heap (sample_given_machine [])"
  using urb_copy_deep [OF sample_given_machine_ok(1,2), of "[]"] sample_copy_succeeds by auto

section \<open>Assignment\<close>

lemma copy_source_frame:
  assumes "copy_source s v u"
    and "u_buffer_length v \<noteq> 0 \<Longrightarrow> heap t (u_buffer u) = heap s (u_buffer u)"
    and "u_packet_count v \<noteq> 0 \<Longrightarrow> heap t (u_iso_packets u) = heap s (u_iso_packets u)"
  shows "copy_source t v u"
  using assms by (auto simp: copy_source_def bytes_at_iff packets_at_iff)

text \<open>The blocks of \<open>u\<close> are not those of \<open>v\<close>.\<close>

definition disjoint_urbs :: "usb_vhci_urb \<Rightarrow> usb_vhci_urb \<Rightarrow> bool" where
  "disjoint_urbs u v \<longleftrightarrow>
     (\<forall>p \<in> {u_buffer u, u_iso_packets u}. p \<in> {u_buffer v, u_iso_packets v} \<longrightarrow> p = 0)"

lemma free_urb_at:
  assumes "h 0 = None" and "p = u_buffer u \<Longrightarrow> p = 0" and "p = u_iso_packets u \<Longrightarrow> p = 0"
  shows "free_urb h u p = h p"
  using assms by (cases "p = 0") (auto simp: free_urb_def)

lemma free_urb_other:
  assumes "h 0 = None" and d: "disjoint_urbs u v"
  shows "free_urb h u (u_buffer v) = h (u_buffer v)"
    and "free_urb h u (u_iso_packets v) = h (u_iso_packets v)"
proof -
  show "free_urb h u (u_buffer v) = h (u_buffer v)"
    by (rule free_urb_at [where h = h, OF assms(1)]) (use d in \<open>auto simp: disjoint_urbs_def\<close>)
  show "free_urb h u (u_iso_packets v) = h (u_iso_packets v)"
    by (rule free_urb_at [where h = h, OF assms(1)]) (use d in \<open>auto simp: disjoint_urbs_def\<close>)
qed

lemma load_urb_Some: "load_urb p s = Some u \<longleftrightarrow> p \<noteq> 0 \<and> heap s p = Some (UrbObj u)"
  by (auto simp: load_urb_def load_def split: option.splits block.splits)

text \<open>
  Assignment between different URB objects with good, disjoint pointers never faults: the
  target's old blocks are freed, the source and everything else stay as they are, and on
  success the target is a deep copy of the source. When an allocation fails
  \<open>bad_alloc\<close> leaves the target with the source's lengths but a null packet pointer.
\<close>

theorem urb_assign_copies:
  assumes "heap_ok s" and "load_urb this s = Some u" and "load_urb other s = Some v"
    and "this \<noteq> other" and "urb_mem s u" and "urb_mem s v" and "disjoint_urbs u v"
  shows "\<exists>r w t h. urb_assign this other s = Some (r, t) \<and>
    load_urb this t = Some w \<and> heap t = h(this \<mapsto> UrbObj w) \<and>
    w\<lparr>u_buffer := u_buffer v, u_iso_packets := u_iso_packets v\<rparr> = v \<and>
    (case r of
       Inl e \<Rightarrow> e = BadAlloc \<and> u_iso_packets w = 0 \<and> h = (free_urb (heap s) u)
         (u_buffer w := if u_buffer w = 0 then None else heap s (u_buffer v))
     | Inr _ \<Rightarrow> fresh_urb (free_urb (heap s) u) w \<and> h = dup_heap (free_urb (heap s) u) v w)"
proof -
  let ?h1 = "free_urb (heap s) u"
  let ?s1 = "s\<lparr>heap := ?h1\<rparr>"
  let ?z = "v\<lparr>u_buffer := 0, u_iso_packets := 0\<rparr>"
  let ?s2 = "s\<lparr>heap := ?h1(this \<mapsto> UrbObj ?z)\<rparr>"
  have obj: "this \<noteq> 0" "heap s this = Some (UrbObj u)" "other \<noteq> 0" "heap s other = Some (UrbObj v)"
    using assms(2,3) by (simp_all add: load_urb_Some)
  have ptr: "u_buffer u \<noteq> this \<and> u_iso_packets u \<noteq> this \<and> u_buffer u \<noteq> other \<and> u_iso_packets u \<noteq> other"
    using assms(5) obj by (auto simp: urb_mem_def bytes_at_iff packets_at_iff split: if_splits)
  have ptr2: "u_buffer v \<noteq> this \<and> u_iso_packets v \<noteq> this"
    using assms(6) obj by (auto simp: urb_mem_def bytes_at_iff packets_at_iff split: if_splits)
  have "(do { s \<leftarrow> (if u_buffer u \<noteq> 0 then dealloc (u_buffer u) s else Some s);
       if u_iso_packets u \<noteq> 0 then dealloc (u_iso_packets u) s else Some s }) = Some ?s1"
    using urb_dtor_spec [OF assms(1,5)] by (simp add: urb_dtor_def)
  then obtain s' where free: "(if u_buffer u \<noteq> 0 then dealloc (u_buffer u) s else Some s) = Some s'"
    "(if u_iso_packets u \<noteq> 0 then dealloc (u_iso_packets u) s' else Some s') = Some ?s1"
    by (auto simp: Option.bind_eq_Some_conv)
  have 1: "heap ?s1 this = Some (UrbObj u)" "heap ?s1 other = Some (UrbObj v)"
    "heap ?s2 other = Some (UrbObj v)"
    using ptr obj assms(4) by (auto simp: free_urb_def)
  have ok: "heap_ok ?s2"
    using heap_ok_update [of ?s1 this "Some (UrbObj ?z)"] heap_ok_free [OF assms(1)] 1 by simp
  have null: "heap s 0 = None" by (rule heap_ok_null [OF assms(1)])
  have src: "?h1 (u_buffer v) = heap s (u_buffer v)" "?h1 (u_iso_packets v) = heap s (u_iso_packets v)"
    using free_urb_other [of "heap s" u v] null assms(7) by auto
  have "copy_source ?s2 ?z v"
    by (rule copy_source_frame [OF urb_mem_copy_source [OF assms(6)]]) (simp_all add: ptr2 src)
  from urb_cpy_spec [OF ok this] obtain r w t where cpy: "urb_cpy ?z v ?s2 = Some (r, w, t)"
    "w\<lparr>u_buffer := 0, u_iso_packets := 0\<rparr> = ?z" "heap_ok t" "memory_only ?s2 t"
    "cpy_post (heap ?s2) v r w (heap t)"
    by auto
  have w: "heap t this \<noteq> None" "u_buffer w \<noteq> this" "u_iso_packets w \<noteq> this"
    using cpy(5) obj(1) by (auto simp: cpy_post_def fresh_urb_def dup_heap_def put_block_def
        split: sum.splits if_splits)
  have run: "urb_assign this other s = Some (r, t\<lparr>heap := (heap t)(this \<mapsto> UrbObj w)\<rparr>)"
    using free 1 obj cpy(1) w(1) assms(2,3)
    by (simp add: urb_assign_def load_urb_def load_def store_def split del: if_split split: option.split)
  let ?h = "(heap t)(this := ?h1 this)"
  have "case r of
       Inl e \<Rightarrow> e = BadAlloc \<and> u_iso_packets w = 0 \<and> ?h = ?h1
         (u_buffer w := if u_buffer w = 0 then None else heap s (u_buffer v))
     | Inr _ \<Rightarrow> fresh_urb ?h1 w \<and> ?h = dup_heap ?h1 v w"
  proof -
    show ?thesis
    proof (cases r)
      case (Inl e)
      with cpy(5) w ptr2 src obj(1) null show ?thesis
        by (auto simp: cpy_post_def fun_upd_twist fun_upd_idem free_urb_def)
    next
      case (Inr x)
      then have f: "fresh_urb (heap ?s2) w" "heap t = dup_heap (heap ?s2) v w"
        using cpy(5) by (auto simp: cpy_post_def)
      from f(1) have "fresh_urb ?h1 w"
        by (auto simp: fresh_urb_def split: if_splits)
      moreover have "?h = dup_heap ?h1 v w"
        unfolding f(2) using w ptr2 by (auto simp: dup_heap_def put_block_def fun_upd_twist)
      ultimately show ?thesis using Inr by simp
    qed
  qed
  then show ?thesis
    using run obj(1) same_but_pointers(3) [OF cpy(2)]
    by (intro exI [of _ r] exI [of _ w] exI [of _ ?h] exI) (auto simp: load_urb_Some)
qed

definition sample_objects :: "log machine" where
  "sample_objects = (sample_given_machine [])
     \<lparr>heap := (heap (sample_given_machine []))(3 \<mapsto> UrbObj sample_iso_urb, 4 \<mapsto> UrbObj zero_urb),
      brk := 5\<rparr>"

lemma sample_objects_ok:
  "heap_ok sample_objects" "load_urb 3 sample_objects = Some sample_iso_urb"
  "load_urb 4 sample_objects = Some zero_urb" "urb_mem sample_objects sample_iso_urb"
  "urb_mem sample_objects zero_urb" "disjoint_urbs zero_urb sample_iso_urb"
  by (auto simp: heap_ok_def sample_objects_def sample_given_machine_def urb_mem_def bytes_at_iff
      packets_at_iff sample_iso_urb_def zero_urb_def word_sle_eq load_urb_Some disjoint_urbs_def)

theorem urb_assign_copies_witness:
  "\<exists>r w t. urb_assign 4 3 sample_objects = Some (r, t) \<and> load_urb 4 t = Some w \<and>
     u_handle w = 7 \<and> u_buffer_length w = 3"
proof -
  obtain r w t where "urb_assign 4 3 sample_objects = Some (r, t)" "load_urb 4 t = Some w"
    and w: "w\<lparr>u_buffer := u_buffer sample_iso_urb, u_iso_packets := u_iso_packets sample_iso_urb\<rparr> =
      sample_iso_urb"
    using urb_assign_copies [OF sample_objects_ok(1,3,2) _ sample_objects_ok(5,4,6)] by auto
  moreover have "u_handle w = 7 \<and> u_buffer_length w = 3"
    using arg_cong [OF w, of u_handle] arg_cong [OF w, of u_buffer_length]
    by (simp add: sample_iso_urb_def)
  ultimately show ?thesis by blast
qed

section \<open>Two defects\<close>

lemma alloc_now:
  "oom s = False # bs \<Longrightarrow> alloc b s =
     (brk s, s\<lparr>oom := bs, heap := (heap s)(brk s \<mapsto> b), brk := Suc (brk s)\<rparr>)"
  "oom s = True # bs \<Longrightarrow> alloc b s = (0, s\<lparr>oom := bs\<rparr>)"
  "oom s = [] \<Longrightarrow> alloc b s = (brk s, s\<lparr>heap := (heap s)(brk s \<mapsto> b), brk := Suc (brk s)\<rparr>)"
  by (simp_all add: alloc_def alloc_fails_def)

text \<open>
  The copy constructor leaks when its second allocation fails: a URB with data and
  packets is copied, the packet array cannot be allocated, \<open>bad_alloc\<close> is thrown and the
  copy of the data stays allocated although no object owns it.
\<close>

theorem urb_copy_leak:
  assumes "heap_ok s" and "urb_mem s u" and "oom s = False # True # bs"
    and "u_buffer_length u \<noteq> 0" and "u_packet_count u \<noteq> 0"
  shows "\<exists>t. urb_copy_ctor u s = Some (Inl BadAlloc, t) \<and>
    heap t = (heap s)(brk s := heap s (u_buffer u))"
proof -
  have len: "\<not> u_buffer_length u <s 0" "\<not> u_packet_count u <s 0" "brk s \<noteq> 0"
    using assms(1,2) by (auto simp: urb_mem_def sless_zero_iff heap_ok_def)
  obtain xs where xs: "load_bytes (u_buffer u) s = Some xs" "u_buffer u \<noteq> 0"
      "heap s (u_buffer u) = Some (Bytes xs)" "length xs = unat (u_buffer_length u)"
    using assms(2,4) by (auto simp: urb_mem_def bytes_at_iff load_bytes_Some)
  have "u_buffer u \<noteq> brk s" using xs heap_ok_fresh [OF assms(1)] by auto
  then show ?thesis
    using len xs assms(3-5)
    by (simp add: urb_copy_ctor_def urb_cpy_def urb_cpy_buffer_def urb_cpy_packets_def built_def
        new_array_def alloc_now copy_bytes_def load_bytes_def load_def store_def)
qed

theorem urb_copy_leak_witness:
  "\<exists>t. urb_copy_ctor sample_iso_urb (sample_given_machine [False, True]) = Some (Inl BadAlloc, t) \<and>
     heap t = (heap (sample_given_machine []))(3 \<mapsto> Bytes [Some 9, None, None])"
  using urb_copy_leak [OF sample_given_machine_ok(1,2), of "[False, True]" "[]"]
  by (simp add: sample_given_machine_def sample_iso_urb_def zero_urb_def)

text \<open>
  Assigning a URB to itself is not safe: the object's blocks are freed first, and
  when there is data or there are packets to copy the copy reads through a null pointer.
\<close>

theorem urb_self_assignment_faults:
  assumes "heap_ok s" and "load_urb this s = Some u" and "urb_mem s u" and "oom s = []"
    and "u_buffer_length u \<noteq> 0 \<or> u_packet_count u \<noteq> 0"
  shows "urb_assign this this s = None"
proof -
  let ?z = "u\<lparr>u_buffer := 0, u_iso_packets := 0\<rparr>"
  have len: "\<not> u_buffer_length u <s 0" "\<not> u_packet_count u <s 0" "brk s \<noteq> 0"
    using assms(1,3) by (auto simp: urb_mem_def sless_zero_iff heap_ok_def)
  have null: "load_bytes 0 t = None" "load_packets 0 t = None" for t :: "('a, 'b) machine_scheme"
    by (simp_all add: load_bytes_def load_packets_def load_def)
  have obj: "this \<noteq> 0" "heap s this = Some (UrbObj u)"
    using assms(2) by (simp_all add: load_urb_Some)
  have faults: "urb_cpy ?z ?z t = None" if "oom t = []" "brk t \<noteq> 0" for t :: "('a, 'b) machine_scheme"
    using assms(5) len that null
    by (auto simp: urb_cpy_def urb_cpy_buffer_def urb_cpy_packets_def new_array_def alloc_now
        copy_bytes_def copy_packets_def)
  have ptr: "u_buffer u \<noteq> this" "u_iso_packets u \<noteq> this"
    using assms(3) obj by (auto simp: urb_mem_def bytes_at_iff packets_at_iff split: if_splits)
  obtain s' where free: "(if u_buffer u \<noteq> 0 then dealloc (u_buffer u) s else Some s) = Some s'"
    "(if u_iso_packets u \<noteq> 0 then dealloc (u_iso_packets u) s' else Some s') =
       Some (s\<lparr>heap := free_urb (heap s) u\<rparr>)"
    using urb_dtor_spec [OF assms(1,3)] by (auto simp: urb_dtor_def Option.bind_eq_Some_conv)
  have "free_urb (heap s) u this = Some (UrbObj u)"
    using ptr obj by (simp add: free_urb_def)
  then show ?thesis
    using free obj assms(2,4) len faults
    by (simp add: urb_assign_def load_urb_def load_def store_def split del: if_split)
qed

theorem urb_self_assignment_faults_witness: "urb_assign 3 3 sample_objects = None"
  using urb_self_assignment_faults [OF sample_objects_ok(1,2,4)]
  by (simp add: sample_objects_def sample_given_machine_def sample_iso_urb_def)

end
