(* ===== verification/Work_Objects.thy ===== *)
theory Work_Objects
  imports Urb_Lifetime
begin

text \<open>
  The classes \<^verbatim>\<open>work\<close>, \<^verbatim>\<open>process_urb_work\<close>, \<^verbatim>\<open>cancel_urb_work\<close> and
  \<^verbatim>\<open>port_stat_work\<close> (\<^verbatim>\<open>work.cpp\<close> and \<^verbatim>\<open>libusb_vhci.h\<close>): constructors, copying,
  destruction. A \<open>process_urb_work\<close> owns its URB object, which owns its data; the footprint
  of a work object is everything its destructor frees.
\<close>

section \<open>Constructors and accessors\<close>

definition work_ctor :: "u8 \<Rightarrow> work_kind \<Rightarrow> exn + work" where
  "work_ctor port kind =
     (if port = 0 then Inl (InvalidArgument ''port'')
      else Inr \<lparr>w_port = port, w_canceled = False, w_kind = kind\<rparr>)"

definition work_cancel :: "work \<Rightarrow> work" where
  "work_cancel w = w\<lparr>w_canceled := True\<rparr>"

definition process_urb_work_ctor :: "u8 \<Rightarrow> nat \<Rightarrow> exn + work" where
  "process_urb_work_ctor port urb =
     (case work_ctor port (ProcessUrbWork urb) of
        Inl e \<Rightarrow> Inl e
      | Inr w \<Rightarrow> if urb = 0 then Inl (InvalidArgument ''urb'') else Inr w)"

definition cancel_urb_work_ctor :: "u8 \<Rightarrow> u64 \<Rightarrow> exn + work" where
  "cancel_urb_work_ctor port handle = work_ctor port (CancelUrbWork handle)"

definition port_stat_work_ctor :: "u8 \<Rightarrow> port_stat \<Rightarrow> exn + work" where
  "port_stat_work_ctor port stat = work_ctor port (PortStatWork stat 0)"

definition port_stat_work_prev_ctor ::
  "'z abi_scheme \<Rightarrow> u8 \<Rightarrow> port_stat \<Rightarrow> port_stat \<Rightarrow> exn + work" where
  "port_stat_work_prev_ctor k port stat prev =
     (case work_ctor port (PortStatWork stat 0) of
        Inl e \<Rightarrow> Inl e
      | Inr w \<Rightarrow> Inr (w\<lparr>w_kind := PortStatWork stat (port_stat_work_triggers k stat prev)\<rparr>))"

fun trigger_flags :: "work_kind \<Rightarrow> u8" where
  "trigger_flags (PortStatWork _ f) = f"
| "trigger_flags _ = 0"

definition triggers_disable :: "work \<Rightarrow> bool" where
  "triggers_disable w \<longleftrightarrow> has_mask (trigger_flags (w_kind w)) USB_VHCI_PORT_STAT_TRIGGER_DISABLE"
definition triggers_suspend :: "work \<Rightarrow> bool" where
  "triggers_suspend w \<longleftrightarrow> has_mask (trigger_flags (w_kind w)) USB_VHCI_PORT_STAT_TRIGGER_SUSPEND"
definition triggers_resuming :: "work \<Rightarrow> bool" where
  "triggers_resuming w \<longleftrightarrow> has_mask (trigger_flags (w_kind w)) USB_VHCI_PORT_STAT_TRIGGER_RESUMING"
definition triggers_reset :: "work \<Rightarrow> bool" where
  "triggers_reset w \<longleftrightarrow> has_mask (trigger_flags (w_kind w)) USB_VHCI_PORT_STAT_TRIGGER_RESET"
definition triggers_power_on :: "work \<Rightarrow> bool" where
  "triggers_power_on w \<longleftrightarrow> has_mask (trigger_flags (w_kind w)) USB_VHCI_PORT_STAT_TRIGGER_POWER_ON"
definition triggers_power_off :: "work \<Rightarrow> bool" where
  "triggers_power_off w \<longleftrightarrow> has_mask (trigger_flags (w_kind w)) USB_VHCI_PORT_STAT_TRIGGER_POWER_OFF"

section \<open>Objects on the heap\<close>

text \<open>
  \<open>new T(...)\<close>: allocate raw storage, run the constructor, and free the storage again when
  it throws. \<open>new(std::nothrow)\<close> returns a null pointer instead of throwing \<open>bad_alloc\<close>
  when the storage itself cannot be allocated.
\<close>

definition construct ::
  "nat \<Rightarrow> (exn + block) \<times> ('e, 'z) machine_scheme \<Rightarrow>
   ((exn + nat) \<times> ('e, 'z) machine_scheme) option" where
  "construct p x =
     (case x of
        (Inl e, s) \<Rightarrow> do { s \<leftarrow> dealloc p s; Some (Inl e, s) }
      | (Inr b, s) \<Rightarrow> do { s \<leftarrow> store p b s; Some (Inr p, s) })"

definition new_object ::
  "(('e, 'z) machine_scheme \<Rightarrow> ((exn + block) \<times> ('e, 'z) machine_scheme) option) \<Rightarrow>
   ('e, 'z) machine_scheme \<Rightarrow> ((exn + nat) \<times> ('e, 'z) machine_scheme) option" where
  "new_object ctor s =
     (case alloc (Bytes []) s of
        (p, s) \<Rightarrow> (if p = 0 then Some (Inl BadAlloc, s) else Option.bind (ctor s) (construct p)))"

definition new_object_nothrow ::
  "(('e, 'z) machine_scheme \<Rightarrow> ((exn + block) \<times> ('e, 'z) machine_scheme) option) \<Rightarrow>
   ('e, 'z) machine_scheme \<Rightarrow> ((exn + nat) \<times> ('e, 'z) machine_scheme) option" where
  "new_object_nothrow ctor s =
     (case alloc (Bytes []) s of
        (p, s) \<Rightarrow> (if p = 0 then Some (Inr 0, s) else Option.bind (ctor s) (construct p)))"

definition urb_block :: "(exn + usb_vhci_urb) \<times> 's \<Rightarrow> (exn + block) \<times> 's" where
  "urb_block x = (case x of (Inl e, s) \<Rightarrow> (Inl e, s) | (Inr u, s) \<Rightarrow> (Inr (UrbObj u), s))"

definition work_block :: "exn + work \<Rightarrow> 's \<Rightarrow> ((exn + block) \<times> 's) option" where
  "work_block r s = Some (case r of Inl e \<Rightarrow> (Inl e, s) | Inr w \<Rightarrow> (Inr (WorkObj w), s))"

definition load_work :: "nat \<Rightarrow> ('e, 'z) machine_scheme \<Rightarrow> work option" where
  "load_work p s = (case load p s of Some (WorkObj w) \<Rightarrow> Some w | _ \<Rightarrow> None)"

text \<open>\<open>delete\<close> of a URB pointer and of a work pointer (the destructor is virtual).\<close>

definition delete_urb :: "nat \<Rightarrow> ('e, 'z) machine_scheme \<Rightarrow> ('e, 'z) machine_scheme option" where
  "delete_urb p s =
     (if p = 0 then Some s
      else do { u \<leftarrow> load_urb p s; s \<leftarrow> urb_dtor u s; dealloc p s })"

definition process_urb_work_dtor ::
  "work \<Rightarrow> ('e, 'z) machine_scheme \<Rightarrow> ('e, 'z) machine_scheme option" where
  "process_urb_work_dtor w s =
     (case w_kind w of ProcessUrbWork urb \<Rightarrow> delete_urb urb s | _ \<Rightarrow> Some s)"

definition delete_work :: "nat \<Rightarrow> ('e, 'z) machine_scheme \<Rightarrow> ('e, 'z) machine_scheme option" where
  "delete_work p s =
     (if p = 0 then Some s
      else do { w \<leftarrow> load_work p s; s \<leftarrow> process_urb_work_dtor w s; dealloc p s })"

text \<open>The copy constructor and assignment of \<open>process_urb_work\<close>.\<close>

definition new_urb_copy ::
  "nat \<Rightarrow> ('e, 'z) machine_scheme \<Rightarrow> ((exn + nat) \<times> ('e, 'z) machine_scheme) option" where
  "new_urb_copy p s = do {
     u \<leftarrow> load_urb p s;
     new_object (\<lambda>s. map_option urb_block (urb_copy_ctor u s)) s }"

definition process_urb_work_copy_ctor ::
  "work \<Rightarrow> ('e, 'z) machine_scheme \<Rightarrow> ((exn + work) \<times> ('e, 'z) machine_scheme) option" where
  "process_urb_work_copy_ctor w s =
     (case w_kind w of
        ProcessUrbWork urb \<Rightarrow> do {
          (r, s) \<leftarrow> new_urb_copy urb s;
          Some (case r of Inl e \<Rightarrow> Inl e | Inr q \<Rightarrow> Inr (w\<lparr>w_kind := ProcessUrbWork q\<rparr>), s) }
      | _ \<Rightarrow> None)"

definition process_urb_work_assign ::
  "nat \<Rightarrow> nat \<Rightarrow> ('e, 'z) machine_scheme \<Rightarrow> ((exn + unit) \<times> ('e, 'z) machine_scheme) option" where
  "process_urb_work_assign this other s = do {
     w \<leftarrow> load_work this s;
     v \<leftarrow> load_work other s;
     let w = w\<lparr>w_port := w_port v, w_canceled := w_canceled v\<rparr>;
     s \<leftarrow> store this (WorkObj w) s;
     s \<leftarrow> process_urb_work_dtor w s;
     v \<leftarrow> load_work other s;
     (case w_kind v of
        ProcessUrbWork urb \<Rightarrow> do {
          (r, s) \<leftarrow> new_urb_copy urb s;
          (case r of
             Inl e \<Rightarrow> Some (Inl e, s)
           | Inr q \<Rightarrow> do {
               s \<leftarrow> store this (WorkObj (w\<lparr>w_kind := ProcessUrbWork q\<rparr>)) s;
               Some (Inr (), s) }) }
      | _ \<Rightarrow> None) }"

section \<open>Footprints\<close>

text \<open>A live URB object whose pointers are good, and all the blocks it owns.\<close>

definition urb_blocks :: "usb_vhci_urb \<Rightarrow> nat set" where
  "urb_blocks u = {u_buffer u, u_iso_packets u} - {0}"

definition urb_object :: "('e, 'z) machine_scheme \<Rightarrow> nat \<Rightarrow> bool" where
  "urb_object s p \<longleftrightarrow> (case load_urb p s of None \<Rightarrow> False | Some u \<Rightarrow> urb_mem s u)"

definition urb_footprint :: "('e, 'z) machine_scheme \<Rightarrow> nat \<Rightarrow> nat set" where
  "urb_footprint s p =
     (case load_urb p s of None \<Rightarrow> {} | Some u \<Rightarrow> insert p (urb_blocks u))"

definition work_object :: "('e, 'z) machine_scheme \<Rightarrow> nat \<Rightarrow> bool" where
  "work_object s p \<longleftrightarrow>
     (case load_work p s of
        None \<Rightarrow> False
      | Some w \<Rightarrow> w_port w \<noteq> 0 \<and> (case w_kind w of ProcessUrbWork q \<Rightarrow> urb_object s q | _ \<Rightarrow> True))"

definition work_footprint :: "('e, 'z) machine_scheme \<Rightarrow> nat \<Rightarrow> nat set" where
  "work_footprint s p =
     (case load_work p s of
        None \<Rightarrow> {}
      | Some w \<Rightarrow> insert p (case w_kind w of ProcessUrbWork q \<Rightarrow> urb_footprint s q | _ \<Rightarrow> {}))"

lemma load_work_Some: "load_work p s = Some w \<longleftrightarrow> p \<noteq> 0 \<and> heap s p = Some (WorkObj w)"
  by (auto simp: load_work_def load_def split: option.splits block.splits)

text \<open>Loads look at one block only.\<close>

lemma load_cong:
  "heap t p = heap s p \<Longrightarrow> load_urb p t = load_urb p s"
  "heap t p = heap s p \<Longrightarrow> load_work p t = load_work p s"
  by (simp_all add: load_urb_def load_work_def load_def)

lemma urb_mem_cong:
  assumes "\<And>p. p \<in> urb_blocks u \<Longrightarrow> heap t p = heap s p"
  shows "urb_mem t u = urb_mem s u"
proof -
  have "bytes_at t (u_buffer u) n = bytes_at s (u_buffer u) n" for n
    using assms [of "u_buffer u"] by (cases "u_buffer u = 0") (simp_all add: bytes_at_iff urb_blocks_def)
  moreover have "packets_at t (u_iso_packets u) n = packets_at s (u_iso_packets u) n" for n
    using assms [of "u_iso_packets u"]
    by (cases "u_iso_packets u = 0") (simp_all add: packets_at_iff urb_blocks_def)
  ultimately show ?thesis by (simp add: urb_mem_def)
qed

lemma urb_object_cong:
  assumes "\<And>q. q \<in> urb_footprint s p \<Longrightarrow> heap t q = heap s q"
    and "urb_object s p"
  shows "urb_object t p" "urb_footprint t p = urb_footprint s p"
proof -
  obtain u where u: "load_urb p s = Some u" "urb_mem s u"
    using assms(2) by (auto simp: urb_object_def split: option.splits)
  then have "load_urb p t = Some u"
    using assms(1) load_cong(1) [of t p s] by (simp add: urb_footprint_def)
  moreover have "urb_mem t u"
    using assms(1) u urb_mem_cong [of u t s] by (simp add: urb_footprint_def)
  ultimately show "urb_object t p" "urb_footprint t p = urb_footprint s p"
    using u by (simp_all add: urb_object_def urb_footprint_def)
qed

lemma work_object_cong:
  assumes "\<And>q. q \<in> work_footprint s p \<Longrightarrow> heap t q = heap s q"
    and "work_object s p"
  shows "work_object t p" "work_footprint t p = work_footprint s p" "load_work p t = load_work p s"
proof -
  obtain w where w: "load_work p s = Some w" "w_port w \<noteq> 0"
    "case w_kind w of ProcessUrbWork q \<Rightarrow> urb_object s q | _ \<Rightarrow> True"
    using assms(2) by (auto simp: work_object_def split: option.splits)
  then have l: "load_work p t = Some w"
    using assms(1) load_cong(2) [of t p s] by (simp add: work_footprint_def)
  have "case w_kind w of ProcessUrbWork q \<Rightarrow>
      urb_object t q \<and> urb_footprint t q = urb_footprint s q | _ \<Rightarrow> True"
    using assms(1) w urb_object_cong [of s _ t]
    by (auto simp: work_footprint_def split: work_kind.splits)
  then show "work_object t p" "work_footprint t p = work_footprint s p" "load_work p t = load_work p s"
    using w l by (auto simp: work_object_def work_footprint_def split: work_kind.splits)
qed

section \<open>Destruction\<close>

lemma free_urb_restrict:
  "heap_ok s \<Longrightarrow> free_urb (heap s) u = heap s |` (- urb_blocks u)"
  using heap_ok_null [of s] by (auto simp: free_urb_def restrict_map_def urb_blocks_def fun_eq_iff)

lemma heap_ok_restrict: "heap_ok s \<Longrightarrow> heap_ok (s\<lparr>heap := heap s |` A\<rparr>)"
  by (simp add: heap_ok_def restrict_map_def)

lemma urb_object_blocks:
  assumes "urb_object s p" "load_urb p s = Some u"
  shows "p \<notin> urb_blocks u" "p \<noteq> 0" "urb_mem s u"
proof -
  show m: "urb_mem s u" using assms by (simp add: urb_object_def)
  show "p \<noteq> 0" "p \<notin> urb_blocks u"
    using assms(2) m by (auto simp: load_urb_Some urb_blocks_def urb_mem_def bytes_at_iff
        packets_at_iff split: if_splits)
qed

lemma delete_urb_spec:
  assumes "heap_ok s" "urb_object s p"
  shows "delete_urb p s = Some (s\<lparr>heap := heap s |` (- urb_footprint s p)\<rparr>)"
proof -
  obtain u where u: "load_urb p s = Some u"
    using assms(2) by (auto simp: urb_object_def split: option.splits)
  note b = urb_object_blocks [OF assms(2) u]
  have "urb_dtor u s = Some (s\<lparr>heap := heap s |` (- urb_blocks u)\<rparr>)"
    using urb_dtor_spec [OF assms(1) b(3)] free_urb_restrict [OF assms(1)] by simp
  moreover have "(heap s |` (- urb_blocks u))(p := None) = heap s |` (- urb_footprint s p)"
    using u by (auto simp: urb_footprint_def restrict_map_def)
  ultimately show ?thesis
    using u b load_urb_Some [of p s u] by (simp add: delete_urb_def dealloc_def)
qed

lemma work_objectE:
  assumes "work_object s p"
  obtains w where "load_work p s = Some w" "p \<noteq> 0" "heap s p = Some (WorkObj w)" "w_port w \<noteq> 0"
    "\<And>q. w_kind w = ProcessUrbWork q \<Longrightarrow> urb_object s q"
proof -
  obtain w where "load_work p s = Some w" "w_port w \<noteq> 0"
    "case w_kind w of ProcessUrbWork q \<Rightarrow> urb_object s q | _ \<Rightarrow> True"
    using assms by (auto simp: work_object_def split: option.splits)
  then show thesis
    by (intro that [of w]) (simp_all add: load_work_Some)
qed

lemma urb_footprint_not_work:
  assumes "urb_object s q" "heap s p = Some (WorkObj w)"
  shows "p \<notin> urb_footprint s q"
proof -
  obtain u where u: "load_urb q s = Some u"
    using assms(1) by (auto simp: urb_object_def split: option.splits)
  then have "urb_footprint s q = insert q (urb_blocks u)" by (simp add: urb_footprint_def)
  moreover have "p \<noteq> q" using u assms(2) by (auto simp: load_urb_Some)
  moreover have "p \<notin> urb_blocks u"
    using assms(2) urb_object_blocks(3) [OF assms(1) u]
    by (auto simp: urb_blocks_def urb_mem_def bytes_at_iff packets_at_iff split: if_splits)
  ultimately show ?thesis by simp
qed

lemma work_dtor_spec:
  assumes "heap_ok s" "work_object s p" "load_work p s = Some w"
  shows "process_urb_work_dtor w s = Some (s\<lparr>heap := heap s |` (- (work_footprint s p - {p}))\<rparr>)"
proof (cases "w_kind w")
  case (ProcessUrbWork q)
  then have q: "urb_object s q" "heap s p = Some (WorkObj w)"
    using assms(2,3) by (auto simp: work_object_def load_work_Some)
  then show ?thesis
    using ProcessUrbWork assms(3) delete_urb_spec [OF assms(1)] urb_footprint_not_work [OF q]
    by (simp add: process_urb_work_dtor_def work_footprint_def)
qed (use assms(3) in \<open>simp_all add: process_urb_work_dtor_def work_footprint_def restrict_map_def\<close>)

lemma delete_work_spec:
  assumes "heap_ok s" "work_object s p"
  shows "delete_work p s = Some (s\<lparr>heap := heap s |` (- work_footprint s p)\<rparr>)"
proof -
  obtain w where w: "load_work p s = Some w" "p \<noteq> 0" "heap s p = Some (WorkObj w)"
    using assms(2) by (rule work_objectE)
  then have "p \<in> work_footprint s p" by (simp add: work_footprint_def)
  then have "(heap s |` (- (work_footprint s p - {p})))(p := None) = heap s |` (- work_footprint s p)"
    by (auto simp: restrict_map_def fun_eq_iff)
  then show ?thesis
    using w work_dtor_spec [OF assms w(1)] by (simp add: delete_work_def dealloc_def)
qed

lemma urb_footprint_live:
  assumes "urb_object s q" "x \<in> urb_footprint s q"
  shows "heap s x \<noteq> None"
proof -
  obtain u where u: "load_urb q s = Some u"
    using assms(1) by (auto simp: urb_object_def split: option.splits)
  then have "x \<in> insert q (urb_blocks u)" using assms(2) by (simp add: urb_footprint_def)
  then show ?thesis
    using u urb_mem_pointers [OF urb_object_blocks(3) [OF assms(1) u]]
    by (auto simp: urb_blocks_def load_urb_Some)
qed

lemma work_footprint_live:
  assumes "work_object s p" "x \<in> work_footprint s p"
  shows "heap s x \<noteq> None"
proof -
  obtain w where w: "load_work p s = Some w" "heap s p = Some (WorkObj w)"
      "\<And>q. w_kind w = ProcessUrbWork q \<Longrightarrow> urb_object s q"
    using assms(1) by (rule work_objectE) blast
  then show ?thesis
    using assms(2) urb_footprint_live by (auto simp: work_footprint_def split: work_kind.splits)
qed

section \<open>Copying\<close>

text \<open>\<open>q\<close> is, in \<open>t\<close>, a deep copy of what \<open>p\<close> was in \<open>s\<close>, and all that is new.\<close>

definition urb_copied ::
  "('e, 'z) machine_scheme \<Rightarrow> nat \<Rightarrow> ('e, 'z) machine_scheme \<Rightarrow> nat \<Rightarrow> bool" where
  "urb_copied s p t q \<longleftrightarrow> urb_object t q \<and> urb_footprint t q \<inter> dom (heap s) = {} \<and>
     heap t |` (- urb_footprint t q) = heap s \<and>
     (case (load_urb p s, load_urb q t) of
        (Some u, Some v) \<Rightarrow>
          v\<lparr>u_buffer := u_buffer u, u_iso_packets := u_iso_packets u\<rparr> = u \<and>
          heap t (u_buffer v) = heap s (u_buffer u) \<and>
          heap t (u_iso_packets v) = heap s (u_iso_packets u)
      | _ \<Rightarrow> False)"

lemma dup_heap_contents:
  assumes "heap_ok s" "urb_mem s u" "fresh_urb (heap s) v"
    and "u_buffer_length v = u_buffer_length u" "u_packet_count v = u_packet_count u"
  shows "dup_heap (heap s) u v (u_buffer v) = heap s (u_buffer u)"
    "dup_heap (heap s) u v (u_iso_packets v) = heap s (u_iso_packets u)"
  using assms heap_ok_null [OF assms(1)]
  by (auto simp: dup_heap_def put_block_def fresh_urb_def urb_mem_def split: if_splits)

lemma fresh_urb_blocks: "fresh_urb h v \<Longrightarrow> x \<in> urb_blocks v \<Longrightarrow> h x = None"
  by (auto simp: fresh_urb_def urb_blocks_def split: if_splits)

lemma dup_heap_other: "fresh_urb h v \<Longrightarrow> x \<notin> urb_blocks v \<Longrightarrow> dup_heap h u v x = h x"
  by (auto simp: fresh_urb_def urb_blocks_def dup_heap_def put_block_def split: if_splits)

lemma alloc_raw:
  assumes "heap_ok s" "alloc (Bytes []) s = (p, t)"
  obtains "p = 0" "heap t = heap s" "memory_only s t"
  | "p \<noteq> 0" "heap s p = None" "heap t = (heap s)(p \<mapsto> Bytes [])" "heap_ok t" "memory_only s t"
  using assms by (cases rule: alloc_cases) (auto simp: memory_only_def)

lemma urb_mem_extend:
  assumes "heap s \<subseteq>\<^sub>m heap t" "urb_mem s u"
  shows "urb_mem t u"
  using assms by (auto simp: urb_mem_def bytes_at_iff packets_at_iff map_le_def dom_def split: if_splits)

lemma same_lengths:
  assumes "v\<lparr>u_buffer := a, u_iso_packets := b\<rparr> = u"
  shows "u_buffer_length v = u_buffer_length u" "u_packet_count v = u_packet_count u"
  using assms by auto

lemma new_urb_copy_spec:
  assumes "heap_ok s" "urb_object s p"
  shows "\<exists>r t. new_urb_copy p s = Some (r, t) \<and> heap_ok t \<and> memory_only s t \<and>
    (case r of Inl e \<Rightarrow> e = BadAlloc \<and> heap s \<subseteq>\<^sub>m heap t | Inr q \<Rightarrow> urb_copied s p t q)"
proof -
  obtain u where u: "load_urb p s = Some u" "urb_mem s u"
    using assms(2) by (auto simp: urb_object_def split: option.splits)
  obtain q s1 where al: "alloc (Bytes []) s = (q, s1)" by fastforce
  from assms(1) al show ?thesis
  proof (cases rule: alloc_raw)
    case 1
    then show ?thesis using u al assms(1)
      by (auto simp: new_urb_copy_def new_object_def heap_ok_def memory_only_def
          intro: le_trans)
  next
    case 2
    have ext: "heap s \<subseteq>\<^sub>m heap s1" using 2 by (auto simp: map_le_def)
    have s1u: "urb_mem s1 u" using ext u(2) by (rule urb_mem_extend)
    from urb_copy_ctor_spec [OF 2(4) this] obtain r t where c: "urb_copy_ctor u s1 = Some (r, t)"
      "heap_ok t" "memory_only s1 t"
      "case r of Inl e \<Rightarrow> e = BadAlloc \<and> heap s1 \<subseteq>\<^sub>m heap t
       | Inr v \<Rightarrow> v\<lparr>u_buffer := u_buffer u, u_iso_packets := u_iso_packets u\<rparr> = u \<and>
           fresh_urb (heap s1) v \<and> heap t = dup_heap (heap s1) u v \<and> urb_mem t v"
      by blast
    show ?thesis
    proof (cases r)
      case (Inl e)
      then have "heap s1 \<subseteq>\<^sub>m heap t" "e = BadAlloc" using c by auto
      moreover from this(1) 2 have "heap t q = Some (Bytes [])" by (auto simp: map_le_def)
      moreover have "heap s \<subseteq>\<^sub>m (heap t)(q := None)"
      proof -
        have "heap s \<subseteq>\<^sub>m heap t" using ext calculation(1) by (rule map_le_trans)
        then show ?thesis using 2(2) by (auto simp: map_le_def)
      qed
      ultimately show ?thesis
        using Inl u al 2 c heap_ok_update [of t q None] memory_only_trans [OF 2(5) c(3)]
        by (simp add: new_urb_copy_def new_object_def construct_def urb_block_def dealloc_def)
    next
      case (Inr v)
      let ?t = "t\<lparr>heap := (heap t)(q \<mapsto> UrbObj v)\<rparr>"
      have v: "v\<lparr>u_buffer := u_buffer u, u_iso_packets := u_iso_packets u\<rparr> = u"
        "fresh_urb (heap s1) v" "heap t = dup_heap (heap s1) u v" "urb_mem t v"
        using c(4) Inr by auto
      have q: "q \<notin> urb_blocks v" using fresh_urb_blocks [OF v(2), of q] 2(3) by auto
      then have tq: "heap t q = Some (Bytes [])" using dup_heap_other [OF v(2)] 2(3) v(3) by simp
      have run: "new_urb_copy p s = Some (Inr q, ?t)"
        using Inr u al 2 c(1) tq
        by (simp add: new_urb_copy_def new_object_def construct_def urb_block_def store_def)
      have fp: "urb_footprint ?t q = insert q (urb_blocks v)" "load_urb q ?t = Some v"
        using 2(1) by (simp_all add: urb_footprint_def load_urb_def load_def)
      have "heap ?t x = heap t x" if "x \<in> urb_blocks v" for x
        using that q by auto
      then have "urb_mem ?t v" using urb_mem_cong [of v ?t t] v(4) by blast
      then have "urb_object ?t q" using fp by (simp add: urb_object_def)
      moreover have "urb_footprint ?t q \<inter> dom (heap s) = {}"
        using fp(1) 2(2,3) fresh_urb_blocks [OF v(2)] by (fastforce split: if_splits)
      moreover have "heap ?t |` (- urb_footprint ?t q) = heap s"
      proof
        fix x
        show "(heap ?t |` (- urb_footprint ?t q)) x = heap s x"
          using fp(1) 2(2,3) fresh_urb_blocks [OF v(2), of x] dup_heap_other [OF v(2), of x u] v(3)
          by (cases "x \<in> urb_blocks v"; cases "x = q") auto
      qed
      moreover have "heap ?t (u_buffer v) = heap s (u_buffer u)"
        "heap ?t (u_iso_packets v) = heap s (u_iso_packets u)"
      proof -
        have "u_buffer v \<noteq> q" "u_iso_packets v \<noteq> q" using q 2(1) by (auto simp: urb_blocks_def)
        moreover have "u_buffer u \<noteq> q" "u_iso_packets u \<noteq> q"
          using urb_mem_pointers [OF u(2)] 2(1,2) by auto
        ultimately show "heap ?t (u_buffer v) = heap s (u_buffer u)"
          "heap ?t (u_iso_packets v) = heap s (u_iso_packets u)"
          using dup_heap_contents [OF 2(4) s1u v(2) same_lengths [OF v(1)]] v(3) 2(3) by simp_all
      qed
      ultimately have "urb_copied s p ?t q" using u v(1) fp(2) by (simp add: urb_copied_def)
      then show ?thesis
        using run c(2) tq heap_ok_update [of t q "Some (UrbObj v)"] memory_only_trans [OF 2(5) c(3)]
        by (intro exI [of _ "Inr q"] exI [of _ ?t]) simp
    qed
  qed
qed

definition sample_works :: "log machine" where
  "sample_works = (sample_given_machine [])
     \<lparr>heap := (heap (sample_given_machine []))(3 \<mapsto> UrbObj sample_iso_urb,
        5 \<mapsto> WorkObj \<lparr>w_port = 1, w_canceled = False, w_kind = ProcessUrbWork 3\<rparr>),
      brk := 6\<rparr>"

lemma sample_works_ok: "heap_ok sample_works" "work_object sample_works 5"
proof -
  show "heap_ok sample_works"
    by (auto simp: heap_ok_def sample_works_def sample_given_machine_def)
  have "urb_mem sample_works sample_iso_urb"
    by (simp add: sample_works_def sample_given_machine_def urb_mem_def bytes_at_iff
        packets_at_iff sample_iso_urb_def zero_urb_def word_sle_eq)
  then have "urb_object sample_works 3"
    by (simp add: urb_object_def load_urb_def load_def sample_works_def)
  then show "work_object sample_works 5"
    by (simp add: work_object_def load_work_def load_def sample_works_def)
qed

text \<open>
  Assigning a \<open>process_urb_work\<close> to itself always faults: the URB is deleted and then
  copied from.
\<close>

theorem process_urb_work_self_assignment_faults:
  assumes "heap_ok s" and "work_object s p"
    and "load_work p s = Some w" and "w_kind w = ProcessUrbWork q"
  shows "process_urb_work_assign p p s = None"
proof -
  have w: "w\<lparr>w_port := w_port w, w_canceled := w_canceled w\<rparr> = w" by simp
  have st: "store p (WorkObj w) s = Some s"
    using assms(3) by (auto simp: store_def load_work_Some fun_upd_idem)
  have d: "process_urb_work_dtor w s = Some (s\<lparr>heap := heap s |` (- (work_footprint s p - {p}))\<rparr>)"
    (is "_ = Some ?t") by (rule work_dtor_spec [OF assms(1-3)])
  have q: "urb_object s q" using assms(2-4) by (simp add: work_object_def)
  then obtain u where "load_urb q s = Some u"
    by (auto simp: urb_object_def split: option.splits)
  then have "q \<in> work_footprint s p - {p}"
    using assms(3,4) by (simp add: work_footprint_def urb_footprint_def)
      (auto simp: load_work_Some load_urb_Some)
  then have "load_urb q ?t = None" by (simp add: load_urb_def load_def)
  moreover have "load_work p ?t = Some w" using assms(3) by (simp add: load_work_Some)
  ultimately show ?thesis
    using assms(3,4) st d w by (simp add: process_urb_work_assign_def new_urb_copy_def Let_def)
qed

theorem process_urb_work_self_assignment_faults_witness:
  "process_urb_work_assign 5 5 sample_works = None"
proof -
  have "load_work 5 sample_works = Some \<lparr>w_port = 1, w_canceled = False, w_kind = ProcessUrbWork 3\<rparr>"
    by (simp add: load_work_Some sample_works_def)
  from process_urb_work_self_assignment_faults [OF sample_works_ok this] show ?thesis by simp
qed

text \<open>
  Copying a \<open>process_urb_work\<close> is deep: it never faults on a good object, keeps port and
  cancellation mark, gives the copy a URB of its own that is a deep copy of the
  original's, and destroying the copy restores the heap; when memory runs out it throws
  \<open>bad_alloc\<close> and every block of the original is as it was.
\<close>

theorem process_urb_work_copy_deep:
  assumes "heap_ok s" and "work_object s p"
    and "load_work p s = Some w" and "w_kind w = ProcessUrbWork q"
  shows "\<exists>r t. process_urb_work_copy_ctor w s = Some (r, t) \<and> heap_ok t \<and> memory_only s t \<and>
    (case r of
       Inl e \<Rightarrow> e = BadAlloc \<and> heap s \<subseteq>\<^sub>m heap t
     | Inr v \<Rightarrow> \<exists>q'. v = w\<lparr>w_kind := ProcessUrbWork q'\<rparr> \<and> urb_copied s q t q' \<and>
         process_urb_work_dtor v t = Some (t\<lparr>heap := heap s\<rparr>))"
proof -
  have q: "urb_object s q" using assms(2-4) by (simp add: work_object_def)
  obtain r t where 1: "new_urb_copy q s = Some (r, t)" "heap_ok t" "memory_only s t"
    "case r of Inl e \<Rightarrow> e = BadAlloc \<and> heap s \<subseteq>\<^sub>m heap t | Inr q' \<Rightarrow> urb_copied s q t q'"
    using new_urb_copy_spec [OF assms(1) q] by blast
  show ?thesis
  proof (cases r)
    case (Inl e)
    then show ?thesis using 1 assms(4) by (simp add: process_urb_work_copy_ctor_def)
  next
    case (Inr q')
    then have c: "urb_copied s q t q'" using 1(4) by simp
    then have "urb_object t q'" "heap t |` (- urb_footprint t q') = heap s"
      by (simp_all add: urb_copied_def)
    then have "delete_urb q' t = Some (t\<lparr>heap := heap s\<rparr>)"
      using delete_urb_spec [OF 1(2)] by simp
    then show ?thesis
      using 1 Inr assms(4) c
      by (auto simp: process_urb_work_copy_ctor_def process_urb_work_dtor_def intro!: exI [of _ q'])
  qed
qed

theorem process_urb_work_copy_deep_witness:
  "\<exists>r t. process_urb_work_copy_ctor \<lparr>w_port = 1, w_canceled = False, w_kind = ProcessUrbWork 3\<rparr>
     sample_works = Some (r, t) \<and> heap_ok t"
proof -
  have "load_work 5 sample_works = Some \<lparr>w_port = 1, w_canceled = False, w_kind = ProcessUrbWork 3\<rparr>"
    by (simp add: load_work_Some sample_works_def)
  from process_urb_work_copy_deep [OF sample_works_ok this, of 3] show ?thesis by auto
qed

text \<open>
  A port status work object tells the edges between the two states it was built from:
  the constructor throws exactly for port 0, and otherwise the six \<open>triggers_\<close> queries of
  the fresh, uncancelled object answer whether the flag changed in their direction.
\<close>

theorem port_stat_work_triggers_edges:
  "case port_stat_work_prev_ctor k port stat prev of
     Inl e \<Rightarrow> port = 0 \<and> e = InvalidArgument ''port''
   | Inr w \<Rightarrow> w_port w = port \<and> port \<noteq> 0 \<and> \<not> w_canceled w \<and>
       triggers_disable w = edge k stat prev T_Disable \<and>
       triggers_suspend w = edge k stat prev T_Suspend \<and>
       triggers_resuming w = edge k stat prev T_Resuming \<and>
       triggers_reset w = edge k stat prev T_Reset \<and>
       triggers_power_on w = edge k stat prev T_Power_On \<and>
       triggers_power_off w = edge k stat prev T_Power_Off"
  unfolding triggers_disable_def triggers_suspend_def triggers_resuming_def triggers_reset_def
    triggers_power_on_def triggers_power_off_def trigger_mask.simps [symmetric]
  by (simp add: port_stat_work_prev_ctor_def work_ctor_def cpp_triggers_byte trigger_byte_mask
      del: trigger_mask.simps edge.simps)

end
