(* ===== verification/Hcd.thy ===== *)
theory Hcd
  imports Work_Objects
begin

text \<open>
  The class \<^verbatim>\<open>usb::vhci::hcd\<close> (\<^verbatim>\<open>hcd.cpp\<close>): the queue of work that waits (\<open>inbox\<close>), the
  list of work the user has fetched (\<open>processing\<close>), the callbacks, and the handle of the
  background thread. The object's members extend the machine state; a work object is its
  address. The virtual functions the class calls are parameters of its operations. The
  mutex \<open>_lock\<close> is held for the whole of each operation, so an operation is one step.
\<close>

section \<open>State\<close>

record 'e hcd = "'e machine" +
  h_callbacks :: "callback list"
  h_bg_thread :: nat
  h_thread_shutdown :: bool
  h_port_count :: u8
  h_inbox :: "nat list"
  h_processing :: "nat list"

text \<open>The members that operations on the heap cannot change.\<close>

lemma more_hcd:
  assumes "machine.more (t :: ('e, 'z) hcd_scheme) = machine.more (s :: ('e, 'z) hcd_scheme)"
  shows "h_callbacks t = h_callbacks s" "h_bg_thread t = h_bg_thread s"
    "h_thread_shutdown t = h_thread_shutdown s" "h_port_count t = h_port_count s"
    "h_inbox t = h_inbox s" "h_processing t = h_processing s" "hcd.more t = hcd.more s"
  using assms by (cases s; cases t; simp)+

definition is_canceled :: "('e, 'z) machine_scheme \<Rightarrow> nat \<Rightarrow> bool" where
  "is_canceled s p \<longleftrightarrow> (case load_work p s of Some w \<Rightarrow> w_canceled w | None \<Rightarrow> False)"

section \<open>Operations\<close>

definition hcd_ctor :: "u8 \<Rightarrow> ('e, 'z) hcd_scheme \<Rightarrow> exn + ('e, 'z) hcd_scheme" where
  "hcd_ctor ports s =
     (if ports = 0 then Inl (InvalidArgument ''ports'')
      else Inr (s\<lparr>h_callbacks := [], h_bg_thread := 0, h_thread_shutdown := False,
                  h_port_count := ports, h_inbox := [], h_processing := []\<rparr>))"

definition on_work_enqueued ::
  "'e platform \<Rightarrow> ('e, 'z) hcd_scheme \<Rightarrow> ('e, 'z) hcd_scheme" where
  "on_work_enqueued P s = s\<lparr>env := fold (p_callback P) (h_callbacks s) (env s)\<rparr>"

definition enqueue_work ::
  "nat \<Rightarrow> ('e, 'z) hcd_scheme \<Rightarrow> (exn + unit) \<times> ('e, 'z) hcd_scheme" where
  "enqueue_work w s =
     (case alloc_fails s of
        (True, s) \<Rightarrow> (Inl BadAlloc, s)
      | (False, s) \<Rightarrow> (Inr (), s\<lparr>h_inbox := h_inbox s @ [w]\<rparr>))"

text \<open>
  \<open>init_bg_thread\<close> starts at most one thread. \<open>join_bg_thread\<close> is described after
  \<open>pthread_join\<close> has returned, that is when the thread has left its loop.
\<close>

definition init_bg_thread ::
  "'e platform \<Rightarrow> ('e, 'z) hcd_scheme \<Rightarrow> (exn + unit) \<times> ('e, 'z) hcd_scheme" where
  "init_bg_thread P s =
     (if h_bg_thread s \<noteq> 0 then (Inl StdException, s)
      else case p_thread_create P (env s) of
             (e, Inl err) \<Rightarrow> (Inl StdException, s\<lparr>env := e\<rparr>)
           | (e, Inr t) \<Rightarrow> (Inr (), s\<lparr>env := e, h_bg_thread := t\<rparr>))"

definition join_bg_thread :: "('e, 'z) hcd_scheme \<Rightarrow> ('e, 'z) hcd_scheme" where
  "join_bg_thread s =
     (if h_bg_thread s = 0 then s
      else s\<lparr>h_thread_shutdown := False, h_bg_thread := 0\<rparr>)"

text \<open>
  \<open>bg_thread_start\<close>: the loop of the background thread around the virtual function \<open>bg_work\<close>.
  The list tells, for each test of the flag, whether another thread has set it by then. The
  result is \<open>True\<close> when the loop was left, \<open>False\<close> when the list is used up and the thread
  still runs; an exception that leaves \<open>bg_work\<close> ends the program.
\<close>

type_synonym 's work_hook = "'s \<Rightarrow> ((exn + unit) \<times> 's) option"

fun bg_thread_start ::
  "('e, 'z) hcd_scheme work_hook \<Rightarrow> bool list \<Rightarrow> ('e, 'z) hcd_scheme \<Rightarrow>
   ((exn + bool) \<times> ('e, 'z) hcd_scheme) option" where
  "bg_thread_start bg_work [] s = Some (Inr False, s)"
| "bg_thread_start bg_work (stop # stops) s =
     (let s = s\<lparr>h_thread_shutdown := h_thread_shutdown s \<or> stop\<rparr>
      in if h_thread_shutdown s then Some (Inr True, s)
         else do {
           (r, s) \<leftarrow> bg_work s;
           (case r of
              Inl e \<Rightarrow> Some (Inl e, s)
            | Inr _ \<Rightarrow> bg_thread_start bg_work stops s) })"

text \<open>
  \<open>next_work\<close>: the loop takes works off the front of the inbox, whose contents are the
  first argument. The result is the pointer stored through \<open>w\<close> (0 for \<open>NULL\<close>) and the
  returned Boolean.
\<close>

fun next_work_loop ::
  "nat list \<Rightarrow> ('e, 'z) hcd_scheme \<Rightarrow>
   ((exn + nat \<times> bool) \<times> ('e, 'z) hcd_scheme) option" where
  "next_work_loop [] s = Some (Inr (0, False), s)"
| "next_work_loop (w # rest) s = do {
     let s = s\<lparr>h_inbox := rest\<rparr>;
     obj \<leftarrow> load_work w s;
     if \<not> w_canceled obj then
       (case alloc_fails s of
          (True, s) \<Rightarrow> Some (Inl BadAlloc, s)
        | (False, s) \<Rightarrow>
            Some (Inr (w, length (w # rest) \<noteq> 1), s\<lparr>h_processing := h_processing s @ [w]\<rparr>))
     else do {
       s \<leftarrow> delete_work w s;
       next_work_loop rest s } }"

definition next_work ::
  "('e, 'z) hcd_scheme \<Rightarrow> ((exn + nat \<times> bool) \<times> ('e, 'z) hcd_scheme) option" where
  "next_work s = next_work_loop (h_inbox s) s"

text \<open>The virtual functions: \<open>canceling_work w in_progress\<close> and \<open>finishing_work w\<close>.\<close>

type_synonym 's canceling_hook = "nat \<Rightarrow> bool \<Rightarrow> 's \<Rightarrow> ((exn + unit) \<times> 's) option"
type_synonym 's finishing_hook = "nat \<Rightarrow> 's \<Rightarrow> ((exn + unit) \<times> 's) option"

definition hcd_canceling_work :: "'s canceling_hook" where
  "hcd_canceling_work w in_progress s = Some (Inr (), s)"

definition hcd_finishing_work :: "'s finishing_hook" where
  "hcd_finishing_work w s = Some (Inr (), s)"

definition finish_work ::
  "('e, 'z) hcd_scheme finishing_hook \<Rightarrow> nat \<Rightarrow> ('e, 'z) hcd_scheme \<Rightarrow>
   ((exn + unit) \<times> ('e, 'z) hcd_scheme) option" where
  "finish_work finishing w s = do {
     (r, s) \<leftarrow> finishing w s;
     (case r of
        Inl e \<Rightarrow> Some (Inl e, s)
      | Inr _ \<Rightarrow> do {
          let s = s\<lparr>h_processing := removeAll w (h_processing s)\<rparr>;
          s \<leftarrow> delete_work w s;
          Some (Inr (), s) }) }"

text \<open>The two search loops of \<open>cancel_process_urb_work\<close>: the first match, or 0.\<close>

fun find_urb_work :: "u64 \<Rightarrow> nat list \<Rightarrow> ('e, 'z) machine_scheme \<Rightarrow> nat option" where
  "find_urb_work handle [] s = Some 0"
| "find_urb_work handle (w # ws) s = do {
     obj \<leftarrow> load_work w s;
     (case w_kind obj of
        ProcessUrbWork urb \<Rightarrow> do {
          u \<leftarrow> load_urb urb s;
          if u_handle u = handle then Some w else find_urb_work handle ws s }
      | _ \<Rightarrow> find_urb_work handle ws s) }"

definition cancel_process_urb_work ::
  "('e, 'z) hcd_scheme canceling_hook \<Rightarrow> ('e, 'z) hcd_scheme finishing_hook \<Rightarrow> u64 \<Rightarrow>
   ('e, 'z) hcd_scheme \<Rightarrow> ((exn + bool) \<times> ('e, 'z) hcd_scheme) option" where
  "cancel_process_urb_work canceling finishing handle s = do {
     wrk \<leftarrow> find_urb_work handle (h_inbox s) s;
     if wrk = 0 then do {
       wrk \<leftarrow> find_urb_work handle (h_processing s) s;
       if wrk \<noteq> 0 then do {
         (r, s) \<leftarrow> canceling wrk True s;
         Some (case r of Inl e \<Rightarrow> Inl e | Inr _ \<Rightarrow> Inr True, s) }
       else Some (Inr False, s) }
     else do {
       obj \<leftarrow> load_work wrk s;
       s \<leftarrow> store wrk (WorkObj (work_cancel obj)) s;
       (r, s) \<leftarrow> canceling wrk False s;
       (case r of
          Inl e \<Rightarrow> Some (Inl e, s)
        | Inr _ \<Rightarrow> do {
            (r, s) \<leftarrow> finishing wrk s;
            Some (case r of Inl e \<Rightarrow> Inl e | Inr _ \<Rightarrow> Inr False, s) }) } }"

definition add_work_enqueued_callback ::
  "callback \<Rightarrow> ('e, 'z) hcd_scheme \<Rightarrow> (exn + unit) \<times> ('e, 'z) hcd_scheme" where
  "add_work_enqueued_callback c s =
     (case alloc_fails s of
        (True, s) \<Rightarrow> (Inl BadAlloc, s)
      | (False, s) \<Rightarrow> (Inr (), s\<lparr>h_callbacks := h_callbacks s @ [c]\<rparr>))"

text \<open>The constructor of \<open>callback\<close> refuses a null function.\<close>

definition callback_ctor :: "nat \<Rightarrow> nat \<Rightarrow> exn + callback" where
  "callback_ctor func arg =
     (if func = 0 then Inl (InvalidArgument ''func'') else Inr \<lparr>cb_func = func, cb_arg = arg\<rparr>)"

fun erase_first :: "callback \<Rightarrow> callback list \<Rightarrow> callback list" where
  "erase_first c [] = []"
| "erase_first c (d # ds) =
     (if cb_func d = cb_func c \<and> cb_arg d = cb_arg c then ds else d # erase_first c ds)"

definition remove_work_enqueued_callback ::
  "callback \<Rightarrow> ('e, 'z) hcd_scheme \<Rightarrow> ('e, 'z) hcd_scheme" where
  "remove_work_enqueued_callback c s = s\<lparr>h_callbacks := erase_first c (h_callbacks s)\<rparr>"

text \<open>The destructor: join the thread, then delete both queues.\<close>

fun delete_all :: "nat list \<Rightarrow> ('e, 'z) machine_scheme \<Rightarrow> ('e, 'z) machine_scheme option" where
  "delete_all [] s = Some s"
| "delete_all (w # ws) s = do { s \<leftarrow> delete_work w s; delete_all ws s }"

definition hcd_dtor :: "('e, 'z) hcd_scheme \<Rightarrow> ('e, 'z) hcd_scheme option" where
  "hcd_dtor s = do {
     let s = join_bg_thread s;
     s \<leftarrow> delete_all (h_inbox s) s;
     delete_all (h_processing s) s }"

end
