(* ===== verification/Hcd_Queue.thy ===== *)
theory Hcd_Queue
  imports Hcd
begin

text \<open>
  The queues of an \<open>hcd\<close>: it owns every work object in its inbox and its processing list,
  each with its footprint, and no two footprints overlap. Every operation keeps this,
  delivers works first in, first out, and frees exactly what it removes.
\<close>

section \<open>Ownership\<close>

definition footprints :: "('e, 'z) machine_scheme \<Rightarrow> nat list \<Rightarrow> nat set" where
  "footprints s ps = (\<Union>p \<in> set ps. work_footprint s p)"

definition works_ok :: "('e, 'z) machine_scheme \<Rightarrow> nat list \<Rightarrow> bool" where
  "works_ok s ps \<longleftrightarrow> distinct ps \<and> (\<forall>p \<in> set ps. work_object s p) \<and>
     pairwise (\<lambda>p q. disjnt (work_footprint s p) (work_footprint s q)) (set ps)"

definition hcd_owned :: "('e, 'z) hcd_scheme \<Rightarrow> nat list" where
  "hcd_owned s = h_inbox s @ h_processing s"

definition hcd_inv :: "('e, 'z) hcd_scheme \<Rightarrow> bool" where
  "hcd_inv s \<longleftrightarrow> heap_ok s \<and> works_ok s (hcd_owned s)"

lemma footprints_simps [simp]:
  "footprints s [] = {}"
  "footprints s (p # ps) = work_footprint s p \<union> footprints s ps"
  "footprints s (ps @ qs) = footprints s ps \<union> footprints s qs"
  by (auto simp: footprints_def)

lemma works_ok_perm: "distinct qs \<Longrightarrow> set qs \<subseteq> set ps \<Longrightarrow> works_ok s ps \<Longrightarrow> works_ok s qs"
  unfolding works_ok_def by (meson pairwise_subset subsetD)

lemma works_ok_object: "works_ok s ps \<Longrightarrow> p \<in> set ps \<Longrightarrow> work_object s p"
  by (simp add: works_ok_def)

lemma disjnt_footprints:
  "disjnt A (footprints s ps) \<longleftrightarrow> (\<forall>p \<in> set ps. disjnt A (work_footprint s p))"
  by (auto simp: footprints_def disjnt_def)

lemma works_ok_Cons:
  "works_ok s (p # ps) \<longleftrightarrow> p \<notin> set ps \<and> work_object s p \<and> works_ok s ps \<and>
     disjnt (work_footprint s p) (footprints s ps)"
proof (cases "p \<in> set ps")
  case False
  then have "pairwise (\<lambda>p q. disjnt (work_footprint s p) (work_footprint s q)) (set (p # ps)) \<longleftrightarrow>
      disjnt (work_footprint s p) (footprints s ps) \<and>
      pairwise (\<lambda>p q. disjnt (work_footprint s p) (work_footprint s q)) (set ps)"
    unfolding disjnt_footprints list.set pairwise_insert using disjnt_sym by metis
  with False show ?thesis by (auto simp: works_ok_def)
qed (simp add: works_ok_def)

lemma works_ok_append_commute: "works_ok s (ps @ qs) \<longleftrightarrow> works_ok s (qs @ ps)"
  by (auto simp: works_ok_def Un_commute)

lemma works_ok_snoc:
  "works_ok s (ps @ [p]) \<longleftrightarrow> p \<notin> set ps \<and> work_object s p \<and> works_ok s ps \<and>
     disjnt (work_footprint s p) (footprints s ps)"
  using works_ok_append_commute [of s ps "[p]"] works_ok_Cons by simp

lemma work_footprint_subset: "p \<in> set ps \<Longrightarrow> work_footprint s p \<subseteq> footprints s ps"
  by (auto simp: footprints_def)

text \<open>The blocks outside the footprints do not matter.\<close>

lemma works_ok_frame:
  assumes "works_ok s ps" and frame: "\<And>q. q \<in> footprints s ps \<Longrightarrow> heap t q = heap s q"
  shows "works_ok t ps" "footprints t ps = footprints s ps"
    "\<And>p. p \<in> set ps \<Longrightarrow> load_work p t = load_work p s"
    "\<And>p. p \<in> set ps \<Longrightarrow> is_canceled t p = is_canceled s p"
    "\<And>p. p \<in> set ps \<Longrightarrow> work_footprint t p = work_footprint s p"
proof -
  have each: "work_object t p \<and> work_footprint t p = work_footprint s p \<and>
      load_work p t = load_work p s" if "p \<in> set ps" for p
  proof -
    have "heap t q = heap s q" if "q \<in> work_footprint s p" for q
      using frame work_footprint_subset [OF \<open>p \<in> set ps\<close>] that by blast
    then show ?thesis
      using works_ok_object [OF assms(1) \<open>p \<in> set ps\<close>] work_object_cong [of s p t] by blast
  qed
  then show "works_ok t ps" "footprints t ps = footprints s ps"
    using assms(1) by (simp_all add: works_ok_def footprints_def pairwise_def)
  show "load_work p t = load_work p s" "is_canceled t p = is_canceled s p"
    "work_footprint t p = work_footprint s p"
    if "p \<in> set ps" for p
    using each [OF that] by (simp_all add: is_canceled_def)
qed

lemma works_ok_extend:
  assumes "works_ok s ps" "heap s \<subseteq>\<^sub>m heap t"
  shows "works_ok t ps" "footprints t ps = footprints s ps"
    "\<And>p. p \<in> set ps \<Longrightarrow> load_work p t = load_work p s"
proof -
  have "heap s q \<noteq> None" if q: "q \<in> footprints s ps" for q
  proof -
    obtain p where p: "p \<in> set ps" "q \<in> work_footprint s p"
      using q unfolding footprints_def by blast
    with assms(1) have "work_object s p" by (simp add: works_ok_def)
    then show ?thesis using p(2) by (rule work_footprint_live)
  qed
  then have "heap t q = heap s q" if "q \<in> footprints s ps" for q
    using assms(2) that by (metis map_le_def domIff)
  then show "works_ok t ps" "footprints t ps = footprints s ps"
    "\<And>p. p \<in> set ps \<Longrightarrow> load_work p t = load_work p s"
    using works_ok_frame [OF assms(1), of t] by blast+
qed

text \<open>Deleting one owned work frees its footprint and leaves the others alone.\<close>

lemma delete_owned:
  assumes "heap_ok s" "works_ok s (p # ps)"
  shows "delete_work p s = Some (s\<lparr>heap := heap s |` (- work_footprint s p)\<rparr>)"
    "works_ok (s\<lparr>heap := heap s |` (- work_footprint s p)\<rparr>) ps"
    "footprints (s\<lparr>heap := heap s |` (- work_footprint s p)\<rparr>) ps = footprints s ps"
    "\<And>q. q \<in> set ps \<Longrightarrow> is_canceled (s\<lparr>heap := heap s |` (- work_footprint s p)\<rparr>) q = is_canceled s q"
    "\<And>q. q \<in> set ps \<Longrightarrow>
      work_footprint (s\<lparr>heap := heap s |` (- work_footprint s p)\<rparr>) q = work_footprint s q"
proof -
  let ?t = "s\<lparr>heap := heap s |` (- work_footprint s p)\<rparr>"
  have p: "work_object s p" "works_ok s ps" "disjnt (work_footprint s p) (footprints s ps)"
    using assms(2) by (simp_all add: works_ok_Cons)
  have "heap ?t q = heap s q" if "q \<in> footprints s ps" for q
    using p(3) that by (auto simp: restrict_map_def disjnt_def)
  then show "works_ok ?t ps" "footprints ?t ps = footprints s ps"
    "\<And>q. q \<in> set ps \<Longrightarrow> is_canceled ?t q = is_canceled s q"
    "\<And>q. q \<in> set ps \<Longrightarrow> work_footprint ?t q = work_footprint s q"
    using works_ok_frame [OF p(2), of ?t] by blast+
  show "delete_work p s = Some ?t" by (rule delete_work_spec [OF assms(1) p(1)])
qed

section \<open>Fetching the next work\<close>

lemma footprints_cong:
  "(\<And>q. q \<in> set qs \<Longrightarrow> work_footprint t q = work_footprint s q) \<Longrightarrow> footprints t qs = footprints s qs"
  by (auto simp: footprints_def)

lemma heap_determines:
  assumes "heap t = heap s"
  shows "load_work p t = load_work p s" "work_footprint t p = work_footprint s p"
    "is_canceled t p = is_canceled s p" "footprints t ps = footprints s ps"
    "work_object t p = work_object s p" "works_ok t ps = works_ok s ps"
proof -
  have l: "load_work p t = load_work p s" "load_urb p t = load_urb p s" "urb_mem t u = urb_mem s u"
    for p u
    using assms load_cong [of t p s] urb_mem_cong [of u t s] by simp_all
  then have u: "urb_footprint t = urb_footprint s" "urb_object t = urb_object s"
    by (auto simp: urb_footprint_def urb_object_def fun_eq_iff split: option.split)
  have f: "work_footprint t p = work_footprint s p" "work_object t p = work_object s p" for p
    unfolding work_footprint_def work_object_def l(1) u by simp_all
  with l show "load_work p t = load_work p s" "work_footprint t p = work_footprint s p"
    "is_canceled t p = is_canceled s p" "footprints t ps = footprints s ps"
    "work_object t p = work_object s p" "works_ok t ps = works_ok s ps"
    by (simp_all add: is_canceled_def footprints_def works_ok_def)
qed

text \<open>The end of the loop: nothing live is left, or the first live work is moved.\<close>

definition deliver ::
  "('e, 'z) hcd_scheme \<Rightarrow> nat list \<Rightarrow> (exn + nat \<times> bool) \<times> ('e, 'z) hcd_scheme" where
  "deliver s live =
     (case live of
        [] \<Rightarrow> (Inr (0, False), s\<lparr>h_inbox := []\<rparr>)
      | w # rest \<Rightarrow>
          (case alloc_fails (s\<lparr>h_inbox := rest\<rparr>) of
             (True, t) \<Rightarrow> (Inl BadAlloc, t)
           | (False, t) \<Rightarrow> (Inr (w, rest \<noteq> []), t\<lparr>h_processing := h_processing t @ [w]\<rparr>)))"

lemma deliver_inbox: "deliver (s\<lparr>h_inbox := ws\<rparr>) live = deliver s live"
  by (simp add: deliver_def split: list.split)

lemma next_work_loop_spec:
  assumes "heap_ok s" "works_ok s (ws @ others)" "h_inbox s = ws"
  shows "next_work_loop ws s = Some (deliver
    (s\<lparr>heap := heap s |` (- footprints s (takeWhile (is_canceled s) ws))\<rparr>)
    (dropWhile (is_canceled s) ws))"
  using assms
proof (induction ws arbitrary: s)
  case Nil
  then show ?case by (simp add: deliver_def)
next
  case (Cons w ws)
  have ok: "works_ok s (w # (ws @ others))" using Cons.prems(2) by simp
  then obtain obj where obj: "load_work w s = Some obj"
    using works_ok_object [OF ok, of w] by (auto elim: work_objectE)
  let ?s1 = "s\<lparr>h_inbox := ws\<rparr>"
  let ?h = "heap s |` (- work_footprint s w)"
  let ?t = "s\<lparr>heap := ?h\<rparr>" and ?t1 = "s\<lparr>h_inbox := ws, heap := ?h\<rparr>"
  have l1: "load_work w ?s1 = Some obj" using obj by (simp add: load_work_Some)
  show ?case
  proof (cases "w_canceled obj")
    case False
    then have "\<not> is_canceled s w" using obj by (simp add: is_canceled_def)
    with False l1 show ?thesis
      by (auto simp: deliver_def split: prod.split bool.split)
  next
    case True
    then have c: "is_canceled s w" using obj by (simp add: is_canceled_def)
    note same = heap_determines [of ?s1 s, simplified]
    have ok1: "heap_ok ?s1" "works_ok ?s1 (w # (ws @ others))"
      using Cons.prems(1) ok by (simp_all add: same heap_ok_def)
    note del = delete_owned [OF ok1, simplified same, simplified]
    have ho: "heap_ok ?t1" using Cons.prems(1) by (simp add: heap_ok_def restrict_map_def)
    have sc: "is_canceled ?t1 q = is_canceled s q" "work_footprint ?t1 q = work_footprint s q"
      if "q \<in> set ws" for q
      using del(4,5) [of q] that by simp_all
    have tw: "takeWhile (is_canceled ?t1) ws = takeWhile (is_canceled s) ws"
      "dropWhile (is_canceled ?t1) ws = dropWhile (is_canceled s) ws"
      using sc(1) by (auto intro: takeWhile_cong dropWhile_cong)
    have fp: "footprints ?t1 (takeWhile (is_canceled s) ws) = footprints s (takeWhile (is_canceled s) ws)"
      by (intro footprints_cong sc(2), drule set_takeWhileD, simp)
    have "next_work_loop (w # ws) s = next_work_loop ws ?t1"
      using l1 True del(1) by simp
    also have "\<dots> = Some (deliver (?t1\<lparr>heap := heap ?t1 |` (- footprints ?t1 (takeWhile (is_canceled ?t1) ws))\<rparr>)
        (dropWhile (is_canceled ?t1) ws))"
      by (rule Cons.IH [OF ho del(2)]) simp
    also have "?t1\<lparr>heap := heap ?t1 |` (- footprints ?t1 (takeWhile (is_canceled ?t1) ws))\<rparr> =
        s\<lparr>heap := heap s |` (- footprints s (takeWhile (is_canceled s) (w # ws)))\<rparr>\<lparr>h_inbox := ws\<rparr>"
      using c by (simp add: tw fp Compl_Un)
    also have "dropWhile (is_canceled ?t1) ws = dropWhile (is_canceled s) (w # ws)"
      using c by (simp add: tw)
    also note deliver_inbox
    finally show ?thesis .
  qed
qed

lemma works_ok_disjnt: "works_ok s (ps @ qs) \<Longrightarrow> disjnt (footprints s ps) (footprints s qs)"
  by (induction ps) (auto simp: works_ok_Cons disjnt_Un1 disjnt_Un2)

lemma works_ok_restrict:
  assumes "works_ok s (gone @ ps)"
  shows "works_ok (s\<lparr>heap := heap s |` (- footprints s gone)\<rparr>) ps"
proof (rule works_ok_frame(1))
  show "works_ok s ps" using assms by (rule works_ok_perm [rotated 2]) (use assms in \<open>auto simp: works_ok_def\<close>)
  show "heap (s\<lparr>heap := heap s |` (- footprints s gone)\<rparr>) q = heap s q" if "q \<in> footprints s ps" for q
    using works_ok_disjnt [OF assms] that by (auto simp: disjnt_def restrict_map_def)
qed

lemma alloc_fails_cases:
  obtains b bs where "alloc_fails s = (fst (alloc_fails s), s\<lparr>oom := bs\<rparr>)"
proof (cases "oom s")
  case Nil
  then have "alloc_fails s = (fst (alloc_fails s), s\<lparr>oom := []\<rparr>)" by (simp add: alloc_fails_def)
  then show thesis by (rule that)
next
  case (Cons b bs)
  then have "alloc_fails s = (fst (alloc_fails s), s\<lparr>oom := bs\<rparr>)" by (simp add: alloc_fails_def)
  then show thesis by (rule that)
qed

lemma alloc_fails_other [simp]:
  "fst (alloc_fails (s\<lparr>heap := h\<rparr>)) = fst (alloc_fails s)"
  "fst (alloc_fails ((s :: ('e, 'z) hcd_scheme)\<lparr>h_inbox := i\<rparr>)) = fst (alloc_fails s)"
  by (simp_all add: alloc_fails_def split: list.split)

lemma next_work_spec:
  assumes "hcd_inv s"
    and defs: "gone = takeWhile (is_canceled s) (h_inbox s)" "live = dropWhile (is_canceled s) (h_inbox s)"
  shows "\<exists>r t. next_work s = Some (r, t) \<and> hcd_inv t \<and> heap t = heap s |` (- footprints s gone) \<and>
    (case live of
       [] \<Rightarrow> r = Inr (0, False) \<and> h_inbox t = [] \<and> h_processing t = h_processing s
     | w # rest \<Rightarrow> h_inbox t = rest \<and>
         (if fst (alloc_fails s) then r = Inl BadAlloc \<and> h_processing t = h_processing s
          else r = Inr (w, rest \<noteq> []) \<and> h_processing t = h_processing s @ [w]))"
proof -
  let ?s1 = "s\<lparr>heap := heap s |` (- footprints s gone)\<rparr>"
  have ok: "heap_ok s" "works_ok s (h_inbox s @ h_processing s)"
    using assms(1) by (simp_all add: hcd_inv_def hcd_owned_def)
  have run: "next_work s = Some (deliver ?s1 live)"
    using next_work_loop_spec [OF ok refl] by (simp add: next_work_def defs)
  have h: "heap_ok ?s1" using ok(1) by (rule heap_ok_restrict)
  have "works_ok s (gone @ (live @ h_processing s))"
    using ok(2) by (simp add: defs flip: append_assoc)
  then have w: "works_ok ?s1 (live @ h_processing s)" by (rule works_ok_restrict)
  show ?thesis
  proof (cases live)
    case Nil
    then show ?thesis
      using run h w by (simp add: deliver_def hcd_inv_def hcd_owned_def heap_ok_def
          heap_determines(6) [of "?s1\<lparr>h_inbox := []\<rparr>" ?s1, simplified])
  next
    case (Cons p rest)
    obtain bs where al: "alloc_fails (?s1\<lparr>h_inbox := rest\<rparr>) =
        (fst (alloc_fails s), ?s1\<lparr>h_inbox := rest, oom := bs\<rparr>)"
      using alloc_fails_cases [of "?s1\<lparr>h_inbox := rest\<rparr>"] by auto
    let ?t1 = "?s1\<lparr>h_inbox := rest, oom := bs\<rparr>"
    let ?t = "if fst (alloc_fails s) then ?t1 else ?t1\<lparr>h_processing := h_processing s @ [p]\<rparr>"
    have t: "heap ?t = heap ?s1" "brk ?t = brk ?s1" by simp_all
    have "works_ok ?s1 (hcd_owned ?t)"
      by (rule works_ok_perm [OF _ _ w]) (use w Cons in \<open>auto simp: works_ok_def hcd_owned_def\<close>)
    then have "hcd_inv ?t"
      using h heap_determines(6) [OF t(1)] t by (simp add: hcd_inv_def heap_ok_def)
    then show ?thesis
      using run Cons al by (cases "fst (alloc_fails s)") (simp_all add: deliver_def)
  qed
qed

text \<open>
  C18. \<open>next_work\<close> is a first-in-first-out queue that skips cancelled work. It never faults
  in a state where ownership is in order, and keeps that order: the cancelled works at the
  front of the inbox are freed, with exactly their footprints; then the first work that is not
  cancelled moves to the end of the processing list and is returned, together with whether
  the inbox still holds anything, or, when none is left, \<open>NULL\<close> is returned and the inbox
  is empty. When the processing list cannot grow, \<open>bad_alloc\<close> is thrown and the work is in
  neither queue any more.
\<close>

theorem next_work_fifo:
  assumes "hcd_inv s"
  shows "\<exists>r t. next_work s = Some (r, t) \<and> hcd_inv t \<and>
    heap t = heap s |` (- footprints s (takeWhile (is_canceled s) (h_inbox s))) \<and>
    (case dropWhile (is_canceled s) (h_inbox s) of
       [] \<Rightarrow> r = Inr (0, False) \<and> h_inbox t = [] \<and> h_processing t = h_processing s
     | w # rest \<Rightarrow> h_inbox t = rest \<and>
         (if fst (alloc_fails s) then r = Inl BadAlloc \<and> h_processing t = h_processing s
          else r = Inr (w, rest \<noteq> []) \<and> h_processing t = h_processing s @ [w]))"
  using next_work_spec [OF assms refl refl] .

section \<open>A sample state\<close>

text \<open>Two works: 5 processes the URB at 3, 6 is a port status; 4 is the table of ports.\<close>

definition sample_heap :: "bool \<Rightarrow> nat \<Rightarrow> block option" where
  "sample_heap c = (heap (sample_given_machine []))(3 \<mapsto> UrbObj sample_iso_urb, 4 \<mapsto> PortTable 1,
     5 \<mapsto> WorkObj \<lparr>w_port = 1, w_canceled = c, w_kind = ProcessUrbWork 3\<rparr>,
     6 \<mapsto> WorkObj \<lparr>w_port = 1, w_canceled = False, w_kind = PortStatWork port_stat_default 0\<rparr>)"

definition sample_hcd :: "log hcd" where
  "sample_hcd = \<lparr>env = [], errno = 0, heap = sample_heap True, brk = 7, oom = [], naps = [],
     h_callbacks = [], h_bg_thread = 0, h_thread_shutdown = False, h_port_count = 1,
     h_inbox = [5, 6], h_processing = []\<rparr>"

lemma sample_heap_ok:
  assumes "heap s = sample_heap c"
  shows "urb_mem s sample_iso_urb" "packets_set s sample_iso_urb"
    "load_urb 3 s = Some sample_iso_urb"
    "load_work 5 s = Some \<lparr>w_port = 1, w_canceled = c, w_kind = ProcessUrbWork 3\<rparr>"
    "load_work 6 s = Some \<lparr>w_port = 1, w_canceled = False, w_kind = PortStatWork port_stat_default 0\<rparr>"
    "works_ok s [5, 6]" "7 \<le> brk s \<Longrightarrow> heap_ok s"
proof -
  show u: "urb_mem s sample_iso_urb" "packets_set s sample_iso_urb"
    "load_urb 3 s = Some sample_iso_urb"
    using assms
    by (simp_all add: sample_heap_def sample_given_machine_def urb_mem_def bytes_at_iff packets_at_iff
        sample_iso_urb_def zero_urb_def word_sle_eq packets_set_def load_packets_def load_def
        load_urb_def)
  show w: "load_work 5 s = Some \<lparr>w_port = 1, w_canceled = c, w_kind = ProcessUrbWork 3\<rparr>"
    "load_work 6 s = Some \<lparr>w_port = 1, w_canceled = False, w_kind = PortStatWork port_stat_default 0\<rparr>"
    using assms by (simp_all add: load_work_Some sample_heap_def)
  have "work_footprint s 5 = {5, 3, 1, 2}"
    using w u by (auto simp: work_footprint_def urb_footprint_def urb_blocks_def sample_iso_urb_def)
  then show "works_ok s [5, 6]"
    using w u by (simp add: works_ok_Cons footprints_def work_object_def urb_object_def disjnt_def
        works_ok_def[of s "[]"]) (simp add: work_footprint_def)
  show "heap_ok s" if "7 \<le> brk s"
    using assms that by (auto simp: heap_ok_def sample_heap_def sample_given_machine_def)
qed

lemma sample_hcd_inv: "hcd_inv sample_hcd"
  using sample_heap_ok(6,7) [of sample_hcd True]
  by (simp add: hcd_inv_def hcd_owned_def sample_hcd_def)

theorem next_work_fifo_witness:
  "\<exists>t. next_work sample_hcd = Some (Inr (6, False), t) \<and> hcd_inv t \<and> h_processing t = [6] \<and>
     heap t 3 = None"
proof -
  have c: "is_canceled sample_hcd 5" "\<not> is_canceled sample_hcd 6"
    and f: "3 \<in> work_footprint sample_hcd 5"
    using sample_heap_ok [of sample_hcd True]
    by (simp_all add: is_canceled_def sample_hcd_def work_footprint_def urb_footprint_def)
  from c f next_work_fifo [OF sample_hcd_inv] show ?thesis
    by (auto simp: alloc_fails_def sample_hcd_def split: if_splits)
qed

end
