(* ===== verification/Hcd_Client.thy ===== *)
theory Hcd_Client
  imports Hcd_Queue
begin

text \<open>
  The interface between \<open>hcd\<close> and the class derived from it: the two virtual functions that
  \<open>finish_work\<close> and \<open>cancel_process_urb_work\<close> call, and what they have to promise. The
  behaviour of those two operations is proved once, from the promises.
\<close>

section \<open>Searching\<close>

definition has_handle :: "('e, 'z) machine_scheme \<Rightarrow> u64 \<Rightarrow> nat \<Rightarrow> bool" where
  "has_handle s h p \<longleftrightarrow>
     (case load_work p s of
        None \<Rightarrow> False
      | Some w \<Rightarrow>
          (case w_kind w of
             ProcessUrbWork q \<Rightarrow> (case load_urb q s of Some u \<Rightarrow> u_handle u = h | None \<Rightarrow> False)
           | _ \<Rightarrow> False))"

definition found :: "nat option \<Rightarrow> nat" where
  "found x = (case x of None \<Rightarrow> 0 | Some p \<Rightarrow> p)"

lemma has_handle_found:
  "load_work p s = Some w \<Longrightarrow> w_kind w = ProcessUrbWork q \<Longrightarrow> load_urb q s = Some u \<Longrightarrow>
   has_handle s h p \<longleftrightarrow> u_handle u = h"
  by (simp add: has_handle_def)

lemma find_urb_work_spec:
  assumes "\<And>p. p \<in> set ws \<Longrightarrow> work_object s p"
  shows "find_urb_work h ws s = Some (found (List.find (has_handle s h) ws))"
  using assms
proof (induction ws)
  case Nil
  then show ?case by (simp add: found_def)
next
  case (Cons p ws)
  then obtain w where w: "load_work p s = Some w" "\<And>q. w_kind w = ProcessUrbWork q \<Longrightarrow> urb_object s q"
    using work_objectE [of s p] by (metis list.set_intros(1))
  have ih: "find_urb_work h ws s = Some (found (List.find (has_handle s h) ws))"
    using Cons by simp
  show ?case
  proof (cases "w_kind w")
    case (ProcessUrbWork q)
    then obtain u where "load_urb q s = Some u"
      using w(2) by (auto simp: urb_object_def split: option.splits)
    then show ?thesis
      using w(1) ProcessUrbWork ih has_handle_found [OF w(1) ProcessUrbWork] by (simp add: found_def)
  next
    case (CancelUrbWork k)
    then have "\<not> has_handle s h p" using w(1) by (simp add: has_handle_def)
    then show ?thesis using w(1) ih CancelUrbWork by simp
  next
    case (PortStatWork st f)
    then have "\<not> has_handle s h p" using w(1) by (simp add: has_handle_def)
    then show ?thesis using w(1) ih PortStatWork by simp
  qed
qed

lemma find_SomeD: "List.find P xs = Some x \<Longrightarrow> x \<in> set xs \<and> P x"
  by (induction xs) (auto split: if_splits)

lemma has_handle_owned:
  assumes "has_handle s h p"
  obtains w q u where "load_work p s = Some w" "w_kind w = ProcessUrbWork q" "load_urb q s = Some u"
    "u_handle u = h" "p \<noteq> 0"
proof -
  obtain w where w: "load_work p s = Some w"
    using assms by (auto simp: has_handle_def split: option.splits)
  then obtain q where q: "w_kind w = ProcessUrbWork q"
    using assms by (auto simp: has_handle_def split: work_kind.splits)
  then obtain u where "load_urb q s = Some u" "u_handle u = h"
    using assms w by (auto simp: has_handle_def split: option.splits)
  then show thesis using w q that by (simp add: load_work_Some)
qed

section \<open>Marking a work as cancelled\<close>

definition mark :: "nat \<Rightarrow> ('e, 'z) machine_scheme \<Rightarrow> ('e, 'z) machine_scheme" where
  "mark p s = s\<lparr>heap := (heap s)(p \<mapsto> WorkObj (work_cancel (the (load_work p s))))\<rparr>"

lemma mark_heap [simp]:
  "heap (mark p s) = (heap s)(p \<mapsto> WorkObj (work_cancel (the (load_work p s))))"
  "env (mark p s) = env s" "machine.more (mark p s) = machine.more s" "brk (mark p s) = brk s"
  by (simp_all add: mark_def)

lemma mark_hcd [simp]:
  "h_inbox (mark p s) = h_inbox s" "h_processing (mark p s) = h_processing s"
  "hcd_owned (mark p s) = hcd_owned s"
  by (simp_all add: mark_def hcd_owned_def)

lemma load_work_mark:
  "load_work p s = Some w \<Longrightarrow>
   load_work q (mark p s) = (if q = p then Some (work_cancel w) else load_work q s)"
  by (auto simp: load_work_def load_def split: if_splits)

lemma mark_work:
  assumes "load_work p s = Some w" "work_object s r"
  shows "work_object (mark p s) r" "work_footprint (mark p s) r = work_footprint s r"
proof -
  obtain v where v: "load_work r s = Some v" "w_port v \<noteq> 0"
      "\<And>q. w_kind v = ProcessUrbWork q \<Longrightarrow> urb_object s q"
    using assms(2) by (rule work_objectE) blast
  have urb: "urb_object (mark p s) q \<and> urb_footprint (mark p s) q = urb_footprint s q"
    if "urb_object s q" for q
  proof -
    have "p \<notin> urb_footprint s q"
      using that assms(1) urb_footprint_not_work [of s q p w] by (simp add: load_work_Some)
    then have "heap (mark p s) x = heap s x" if "x \<in> urb_footprint s q" for x
      using that by auto
    then show ?thesis using urb_object_cong [OF _ that, of "mark p s"] by blast
  qed
  obtain v' where v': "load_work r (mark p s) = Some v'" "w_port v' = w_port v" "w_kind v' = w_kind v"
    using v(1) assms(1) by (cases "r = p") (simp_all add: load_work_mark work_cancel_def)
  show "work_object (mark p s) r"
    using v' v(2,3) urb by (auto simp: work_object_def split: work_kind.split)
  show "work_footprint (mark p s) r = work_footprint s r"
    using v' v(1,3) urb by (auto simp: work_footprint_def split: work_kind.split)
qed

lemma mark_works_ok:
  assumes "load_work p s = Some w" "works_ok s ps"
  shows "works_ok (mark p s) ps" "footprints (mark p s) ps = footprints s ps"
  using mark_work [OF assms(1)] works_ok_object [OF assms(2)] assms(2)
  by (auto simp: works_ok_def footprints_def pairwise_def)

lemma mark_inv:
  assumes "load_work p s = Some w" "hcd_inv s" shows "hcd_inv (mark p s)"
proof -
  have "heap_ok (mark p s)"
    using assms heap_ok_update [of s p] by (simp add: hcd_inv_def mark_def load_work_Some)
  then show ?thesis
    using assms mark_works_ok(1) [of p s w] by (simp add: hcd_inv_def)
qed

section \<open>The virtual functions\<close>

text \<open>The members that are neither memory nor queues.\<close>

definition hcd_frame :: "('e, 'z) hcd_scheme \<Rightarrow> ('e, 'z) hcd_scheme \<Rightarrow> bool" where
  "hcd_frame s t \<longleftrightarrow> h_callbacks t = h_callbacks s \<and> h_bg_thread t = h_bg_thread s \<and>
     h_port_count t = h_port_count s \<and> hcd.more t = hcd.more s"

lemma hcd_frame_mark: "hcd_frame (mark p s) t = hcd_frame s t"
  by (simp add: hcd_frame_def mark_def)

lemma next_work_frame:
  assumes "hcd_inv s" "next_work s = Some (r, t)"
  shows "hcd_frame s t" "env t = env s" "oom s = [] \<Longrightarrow> oom t = []"
proof -
  have ok: "heap_ok s" "works_ok s (h_inbox s @ h_processing s)"
    using assms(1) by (simp_all add: hcd_inv_def hcd_owned_def)
  show "hcd_frame s t" "env t = env s" "oom s = [] \<Longrightarrow> oom t = []"
    using assms(2) next_work_loop_spec [OF ok refl]
    by (auto simp: next_work_def deliver_def alloc_fails_def hcd_frame_def
        split: list.splits bool.splits)
qed

text \<open>The works that \<open>next_work\<close> frees and those that are left are different works of before.\<close>

lemma next_work_owned:
  assumes "hcd_inv s" "next_work s = Some (r, t)" and gone: "gone = takeWhile (is_canceled s) (h_inbox s)"
  shows "set (gone @ hcd_owned t) \<subseteq> set (hcd_owned s)" "distinct (gone @ hcd_owned t)"
    "heap t = heap s |` (- footprints s gone)"
proof -
  let ?live = "dropWhile (is_canceled s) (h_inbox s)"
  from next_work_spec [OF assms(1) gone refl] assms(2) show h: "heap t = heap s |` (- footprints s gone)" by simp
  have own: "set (gone @ ?live) \<union> set (h_processing s) = set (hcd_owned s)" by (simp add: gone hcd_owned_def)
  have dist: "distinct ((gone @ ?live) @ h_processing s)"
    using assms(1) by (simp add: gone hcd_inv_def works_ok_def hcd_owned_def)
  have "set (gone @ hcd_owned t) \<subseteq> set (hcd_owned s) \<and> distinct (gone @ hcd_owned t)"
  proof (cases ?live)
    case Nil
    have "hcd_owned t = h_processing s"
      using next_work_spec [OF assms(1) gone refl] assms(2) unfolding Nil by (simp add: hcd_owned_def)
    then show ?thesis using own dist unfolding Nil by auto
  next
    case (Cons w rest)
    have "hcd_owned t = rest @ h_processing s \<or> hcd_owned t = rest @ h_processing s @ [w]"
      using next_work_spec [OF assms(1) gone refl] assms(2) unfolding Cons
      by (auto simp: hcd_owned_def split: if_splits)
    then show ?thesis using own dist unfolding Cons by auto
  qed
  then show "set (gone @ hcd_owned t) \<subseteq> set (hcd_owned s)" "distinct (gone @ hcd_owned t)" by simp_all
qed

text \<open>
  \<open>ready\<close> says that finishing a work does not fault (the user has set all its packets, say),
  \<open>given\<close> is the environment after the work was finished.
\<close>

locale hcd_hooks =
  fixes canceling :: "('e, 'z) hcd_scheme canceling_hook"
    and finishing :: "('e, 'z) hcd_scheme finishing_hook"
    and ready :: "nat \<Rightarrow> ('e, 'z) hcd_scheme \<Rightarrow> bool"
    and given :: "nat \<Rightarrow> ('e, 'z) hcd_scheme \<Rightarrow> 'e"
  assumes finishing_ok: "hcd_inv s \<Longrightarrow> p \<in> set (hcd_owned s) \<Longrightarrow> ready p s \<Longrightarrow>
      \<exists>t. finishing p s = Some (Inr (), t) \<and> heap t = heap s \<and> heap_ok t \<and>
        h_inbox t = h_inbox s \<and> h_processing t = h_processing s \<and> hcd_frame s t \<and> env t = given p s"
    and canceling_waiting: "hcd_inv s \<Longrightarrow> p \<in> set (h_inbox s) \<Longrightarrow>
      canceling p False s = Some (Inr (), s)"
    and canceling_active: "hcd_inv s \<Longrightarrow> p \<in> set (h_processing s) \<Longrightarrow>
      \<exists>r t new. canceling p True s = Some (r, t) \<and> hcd_inv t \<and> heap s \<subseteq>\<^sub>m heap t \<and>
        h_inbox t = h_inbox s @ new \<and> length new \<le> 1 \<and> h_processing t = h_processing s \<and> hcd_frame s t"
    and finishing_fault: "hcd_inv s \<Longrightarrow> p \<in> set (hcd_owned s) \<Longrightarrow> \<not> ready p s \<Longrightarrow> finishing p s = None"
    and ready_mark: "hcd_inv s \<Longrightarrow> p \<in> set (hcd_owned s) \<Longrightarrow> ready p (mark p s) = ready p s"
begin

text \<open>
  \<open>finish_work\<close> on a work the user is processing: the hook runs once, then the work leaves the
  processing list and its footprint is freed.
\<close>

lemma finish_work_spec:
  assumes "hcd_inv s" "p \<in> set (h_processing s)" "ready p s"
  shows "\<exists>t. finish_work finishing p s = Some (Inr (), t) \<and> hcd_inv t \<and>
    heap t = heap s |` (- work_footprint s p) \<and> env t = given p s \<and>
    h_inbox t = h_inbox s \<and> h_processing t = removeAll p (h_processing s) \<and> hcd_frame s t"
proof -
  have own: "p \<in> set (hcd_owned s)" using assms(2) by (simp add: hcd_owned_def)
  obtain s1 where s1: "finishing p s = Some (Inr (), s1)" "heap s1 = heap s" "heap_ok s1"
    "h_inbox s1 = h_inbox s" "h_processing s1 = h_processing s" "env s1 = given p s" "hcd_frame s s1"
    using finishing_ok [OF assms(1) own assms(3)] by blast
  let ?s2 = "s1\<lparr>h_processing := removeAll p (h_processing s1)\<rparr>"
  have h2: "heap ?s2 = heap s" using s1(2) by simp
  have dist: "distinct (hcd_owned s)" using assms(1) by (simp add: hcd_inv_def works_ok_def)
  have w: "works_ok s (p # hcd_owned ?s2)"
    by (rule works_ok_perm [of _ "hcd_owned s"])
      (use dist assms(1,2) s1(4,5) in \<open>auto simp: hcd_owned_def hcd_inv_def distinct_removeAll\<close>)
  then have w2: "works_ok ?s2 (p # hcd_owned ?s2)" using heap_determines(6) [OF h2] by blast
  have ok2: "heap_ok ?s2" using s1(3) by (simp add: heap_ok_def)
  let ?t = "?s2\<lparr>heap := heap ?s2 |` (- work_footprint ?s2 p)\<rparr>"
  have "finish_work finishing p s = Some (Inr (), ?t)"
    using s1(1) delete_owned(1) [OF ok2 w2] by (simp add: finish_work_def)
  moreover have "hcd_inv ?t"
    using delete_owned(2) [OF ok2 w2] heap_ok_restrict [OF ok2] by (simp add: hcd_inv_def hcd_owned_def)
  ultimately show ?thesis
    using s1 h2 heap_determines(2) [OF h2, of p]
    by (intro exI [of _ ?t]) (simp add: hcd_frame_def)
qed

lemma finish_work_fault:
  assumes "hcd_inv s" "p \<in> set (h_processing s)" "\<not> ready p s"
  shows "finish_work finishing p s = None"
  using finishing_fault [OF assms(1) _ assms(3)] assms(2) by (simp add: finish_work_def hcd_owned_def)

text \<open>
  \<open>cancel_process_urb_work\<close>: the first work with the handle that waits in the inbox is marked
  and finished at once; otherwise the first one in processing is announced to the user, and
  the result is \<open>True\<close>; otherwise nothing happens.
\<close>

lemma cancel_spec:
  assumes "hcd_inv s"
  shows "case List.find (has_handle s h) (h_inbox s) of
      Some p \<Rightarrow>
        (if ready p s
         then \<exists>t. cancel_process_urb_work canceling finishing h s = Some (Inr False, t) \<and>
           hcd_inv t \<and> heap t = heap (mark p s) \<and> env t = given p (mark p s) \<and> hcd_frame s t \<and>
           h_inbox t = h_inbox s \<and> h_processing t = h_processing s
         else cancel_process_urb_work canceling finishing h s = None)
    | None \<Rightarrow>
      (case List.find (has_handle s h) (h_processing s) of
         Some p \<Rightarrow> \<exists>r t new. cancel_process_urb_work canceling finishing h s = Some (r, t) \<and>
           canceling p True s = Some (case r of Inl e \<Rightarrow> Inl e | Inr _ \<Rightarrow> Inr (), t) \<and>
           (r = Inr True \<or> isl r) \<and> hcd_inv t \<and> heap s \<subseteq>\<^sub>m heap t \<and>
           h_inbox t = h_inbox s @ new \<and> length new \<le> 1 \<and> h_processing t = h_processing s \<and> hcd_frame s t
       | None \<Rightarrow> cancel_process_urb_work canceling finishing h s = Some (Inr False, s))"
proof -
  have ok: "\<And>p. p \<in> set (h_inbox s) \<union> set (h_processing s) \<Longrightarrow> work_object s p"
    using assms(1) by (auto simp: hcd_inv_def hcd_owned_def works_ok_def)
  note f1 = find_urb_work_spec [of "h_inbox s" s h] and f2 = find_urb_work_spec [of "h_processing s" s h]
  show ?thesis
  proof (cases "List.find (has_handle s h) (h_inbox s)")
    case (Some p)
    then have p: "p \<in> set (h_inbox s)" "has_handle s h p" using find_SomeD by fast+
    then obtain w where w: "load_work p s = Some w" "p \<noteq> 0" by (auto elim: has_handle_owned)
    have own: "p \<in> set (hcd_owned s)" using p(1) by (simp add: hcd_owned_def)
    have st: "store p (WorkObj (work_cancel w)) s = Some (mark p s)"
      using w load_work_Some [of p s w] by (simp add: store_def mark_def)
    have inv: "hcd_inv (mark p s)" by (rule mark_inv [OF w(1) assms(1)])
    have can: "canceling p False (mark p s) = Some (Inr (), mark p s)"
      using canceling_waiting [OF inv] p(1) by simp
    have run: "cancel_process_urb_work canceling finishing h s = do {
        (r, s) \<leftarrow> finishing p (mark p s);
        Some (case r of Inl e \<Rightarrow> Inl e | Inr _ \<Rightarrow> Inr False, s) }"
      using f1 ok Some w st can by (simp add: cancel_process_urb_work_def found_def)
    have own': "p \<in> set (hcd_owned (mark p s))" using own by simp
    show ?thesis
    proof (cases "ready p s")
      case True
      then have "ready p (mark p s)" using ready_mark [OF assms(1) own] by simp
      from finishing_ok [OF inv own' this]
      obtain t where t: "finishing p (mark p s) = Some (Inr (), t)" "heap t = heap (mark p s)" "heap_ok t"
        "h_inbox t = h_inbox s" "h_processing t = h_processing s" "env t = given p (mark p s)" "hcd_frame s t"
        by (auto simp: hcd_frame_mark)
      have "hcd_inv t"
        using inv t heap_determines(6) [OF t(2)] by (simp add: hcd_inv_def hcd_owned_def del: mark_heap)
      with t Some run True show ?thesis by simp
    next
      case False
      then have "finishing p (mark p s) = None"
        using finishing_fault [OF inv own'] ready_mark [OF assms(1) own] by simp
      then show ?thesis using Some run False by simp
    qed
  next
    case None
    show ?thesis
    proof (cases "List.find (has_handle s h) (h_processing s)")
      case (Some p)
      then have p: "p \<in> set (h_processing s)" "has_handle s h p" using find_SomeD by fast+
      then have "p \<noteq> 0" by (auto elim: has_handle_owned)
      moreover obtain r t new where "canceling p True s = Some (r, t)" "hcd_inv t"
        "heap s \<subseteq>\<^sub>m heap t" "h_inbox t = h_inbox s @ new" "length new \<le> 1" "h_processing t = h_processing s" "hcd_frame s t"
        using canceling_active [OF assms(1) p(1)] by blast
      ultimately show ?thesis
        using None Some f1 f2 ok
        by (cases r) (simp_all add: cancel_process_urb_work_def found_def)
    next
      case None2: None
      show ?thesis
        using None None2 f1 f2 ok by (simp add: cancel_process_urb_work_def found_def)
    qed
  qed
qed

end

text \<open>The functions of the base class do nothing, and keep every promise.\<close>

interpretation base_hooks: hcd_hooks hcd_canceling_work hcd_finishing_work "\<lambda>p s. True" "\<lambda>p s. env s"
  by unfold_locales (auto simp: hcd_canceling_work_def hcd_finishing_work_def hcd_inv_def hcd_frame_def
      intro!: exI [of _ "[]"])

end
