(* ===== verification/Local_Hcd.thy ===== *)
theory Local_Hcd
  imports Hcd_Client Port_Requests
begin

text \<open>
  The class \<^verbatim>\<open>usb::vhci::local_hcd\<close> (\<^verbatim>\<open>local_hcd.cpp\<close>): a host controller served by the
  kernel module. It keeps, for each port, the address of the device behind it and the last
  port status; \<open>bg_work\<close>, the body of the background thread, turns the kernel's messages
  into work objects. A C++ exception that leaves \<open>bg_work\<close>, which is declared \<open>throw()\<close>,
  ends the program; it is the result \<open>Inl e\<close>.
\<close>

section \<open>State\<close>

record port_info =
  pi_adr :: u8
  pi_stat :: port_stat

definition port_info_default :: port_info where
  "port_info_default = \<lparr>pi_adr = 0xff, pi_stat = port_stat_default\<rparr>"

text \<open>
  The array \<open>port_info\<close>: the block of the heap that \<open>l_port_block\<close> points to, of the kind
  \<open>PortTable n\<close>, reserves its memory. Nothing but the members of the class
  has the pointer, so its \<open>n\<close> entries are kept here, as the list \<open>l_port_info\<close>; an index outside of it
  is a fault.
\<close>

record 'e local_hcd = "'e hcd" +
  l_fd :: i32
  l_id :: i32
  l_usb_bus_num :: i32
  l_bus_id :: "char list"
  l_port_info :: "port_info list"
  l_port_block :: nat

definition idx :: "'a list \<Rightarrow> nat \<Rightarrow> 'a option" where
  "idx xs i = (if i < length xs then Some (xs ! i) else None)"

definition port_entry :: "u8 \<Rightarrow> ('e, 'z) local_hcd_scheme \<Rightarrow> port_info option" where
  "port_entry index s = idx (l_port_info s) (unat (index - 1))"

definition set_port_entry ::
  "u8 \<Rightarrow> port_info \<Rightarrow> ('e, 'z) local_hcd_scheme \<Rightarrow> ('e, 'z) local_hcd_scheme" where
  "set_port_entry index p s =
     s\<lparr>l_port_info := (l_port_info s)[unat (index - 1) := p]\<rparr>"

text \<open>
  \<open>usleep\<close>: while the thread sleeps another one may set the flag that asks it to stop.
\<close>

definition usleep :: "('e, 'z) hcd_scheme \<Rightarrow> ('e, 'z) hcd_scheme" where
  "usleep s =
     (case naps s of
        [] \<Rightarrow> s
      | b # bs \<Rightarrow> s\<lparr>naps := bs, h_thread_shutdown := h_thread_shutdown s \<or> b\<rparr>)"

section \<open>Ports and addresses\<close>

definition address_from_port ::
  "u8 \<Rightarrow> ('e, 'z) local_hcd_scheme \<Rightarrow> (exn + u8) option" where
  "address_from_port port s =
     (if port = 0 then Some (Inl (InvalidArgument ''port''))
      else if port > h_port_count s then Some (Inl (OutOfRange ''port''))
      else map_option (\<lambda>p. Inr (pi_adr p)) (port_entry port s))"

lemma unat_next: "(i :: u8) < n \<Longrightarrow> unat (i + 1) = Suc (unat i)"
  using unsigned_less [where 'a = nat, of n] unat_add_lem [of i 1]
  by (simp add: word_less_nat_alt)

text \<open>\<open>for(uint8_t i(0); i < get_port_count(); i++)\<close>\<close>

function find_port :: "u8 \<Rightarrow> u8 \<Rightarrow> u8 \<Rightarrow> port_info list \<Rightarrow> u8 option" where
  "find_port i n address ps =
     (if i < n then do {
        p \<leftarrow> idx ps (unat i);
        if pi_adr p = address then Some (i + 1) else find_port (i + 1) n address ps }
      else Some 0)"
  by pat_completeness auto
termination
proof (relation "measure (\<lambda>(i, n, _). unat n - unat i)")
  fix i n address :: u8 and ps :: "port_info list" and p
  assume less: "i < n"
  from less show "((i + 1, n, address, ps), i, n, address, ps)
      \<in> measure (\<lambda>(i, n, _). unat n - unat i)"
    by (simp add: unat_next [OF less] word_less_nat_alt)
qed simp

declare find_port.simps [simp del]

definition port_from_address ::
  "u8 \<Rightarrow> ('e, 'z) local_hcd_scheme \<Rightarrow> (exn + u8) option" where
  "port_from_address address s =
     (if address > 0x7f then Some (Inl (InvalidArgument ''address''))
      else map_option Inr (find_port 0 (h_port_count s) address (l_port_info s)))"

section \<open>Virtual functions\<close>

definition local_canceling_work ::
  "'e platform \<Rightarrow> ('e, 'z) local_hcd_scheme canceling_hook" where
  "local_canceling_work P w in_progress s =
     (if \<not> in_progress then Some (Inr (), s)
      else do {
        obj \<leftarrow> load_work w s;
        (case w_kind obj of
           ProcessUrbWork urb \<Rightarrow> do {
             u \<leftarrow> load_urb urb s;
             (r, s) \<leftarrow> new_object (work_block (cancel_urb_work_ctor (w_port obj) (u_handle u))) s;
             (case r of
                Inl e \<Rightarrow> Some (Inl e, s)
              | Inr cw \<Rightarrow>
                  (case enqueue_work cw s of
                     (Inl e, s) \<Rightarrow> do { s \<leftarrow> delete_work cw s; Some (Inl e, s) }
                   | (Inr _, s) \<Rightarrow> Some (Inr (), on_work_enqueued P s))) }
         | _ \<Rightarrow> Some (Inr (), s)) })"

definition local_finishing_work ::
  "'e platform \<Rightarrow> ('e, 'z) local_hcd_scheme finishing_hook" where
  "local_finishing_work P w s = do {
     obj \<leftarrow> load_work w s;
     (case w_kind obj of
        ProcessUrbWork urb \<Rightarrow> do {
          u \<leftarrow> load_urb urb s;
          (_, s) \<leftarrow> usb_vhci_giveback P (l_fd s) u s;
          Some (Inr (), s) }
      | _ \<Rightarrow> Some (Inr (), s)) }"

section \<open>The background thread's work\<close>

text \<open>Running a constructor in storage that is there already (placement \<open>new\<close>).\<close>

definition construct_at ::
  "nat \<Rightarrow> exn + work \<Rightarrow> ('e, 'z) machine_scheme \<Rightarrow>
   ((exn + nat) \<times> ('e, 'z) machine_scheme) option" where
  "construct_at p r s =
     (case r of
        Inl e \<Rightarrow> Some (Inl e, s)
      | Inr w \<Rightarrow> do { s \<leftarrow> store p (WorkObj w) s; Some (Inr p, s) })"

text \<open>
  Port status: one attempt under the lock. The result is an escaping exception, or whether
  the work is done (otherwise: retry), and \<open>psw\<close>.
\<close>

definition port_stat_update :: "port_stat \<Rightarrow> port_info \<Rightarrow> port_info" where
  "port_stat_update nps p =
     (let p = p\<lparr>pi_stat := nps\<rparr>;
          p = (if get_connection_changed nps then p\<lparr>pi_adr := 0xff\<rparr> else p);
          p = (if get_reset_changed nps \<and> \<not> get_reset nps \<and> get_enable nps
               then p\<lparr>pi_adr := 0x00\<rparr> else p)
      in p)"

definition port_stat_attempt ::
  "'e platform \<Rightarrow> u8 \<Rightarrow> port_stat \<Rightarrow> nat \<Rightarrow> ('e, 'z) local_hcd_scheme \<Rightarrow>
   ((exn + bool) \<times> nat \<times> ('e, 'z) local_hcd_scheme) option" where
  "port_stat_attempt P index nps psw s = do {
     p \<leftarrow> port_entry index s;
     (r, s) \<leftarrow>
       (if psw = 0
        then new_object (work_block (port_stat_work_prev_ctor P index nps (pi_stat p))) s
        else construct_at psw (port_stat_work_prev_ctor P index nps (pi_stat p)) s);
     (case r of
        Inl e \<Rightarrow> if e = BadAlloc then Some (Inr False, psw, s) else Some (Inl e, psw, s)
      | Inr psw \<Rightarrow>
          (case enqueue_work psw s of
             (Inl e, s) \<Rightarrow> Some (Inr False, psw, s)
           | (Inr _, s) \<Rightarrow> do {
               p \<leftarrow> port_entry index s;
               let s = set_port_entry index (port_stat_update nps p) s;
               Some (Inr True, psw, on_work_enqueued P s) })) }"

partial_function (option) bg_port_stat ::
  "'e platform \<Rightarrow> u8 \<Rightarrow> port_stat \<Rightarrow> nat \<Rightarrow> bool \<Rightarrow> ('e, 'z) local_hcd_scheme \<Rightarrow>
   ((exn + unit) \<times> ('e, 'z) local_hcd_scheme) option" where
  "bg_port_stat P index nps psw nomem_retry s =
     (let s = (if nomem_retry then usleep s else s)
      in if nomem_retry \<and> h_thread_shutdown s
         then do { s \<leftarrow> delete_work psw s; Some (Inr (), s) }
         else do {
           (r, psw, s) \<leftarrow> port_stat_attempt P index nps psw s;
           (case r of
              Inl e \<Rightarrow> Some (Inl e, s)
            | Inr ok \<Rightarrow> if ok then Some (Inr (), s) else bg_port_stat P index nps psw True s) })"

text \<open>
  The \<open>do ... while\<close> loops that allocate the buffers, and the \<open>while(!u)\<close> loop: 0 means that
  the thread shall stop.
\<close>

partial_function (option) new_retry ::
  "('c option list \<Rightarrow> block) \<Rightarrow> i32 \<Rightarrow> ('e, 'z) hcd_scheme \<Rightarrow> (nat \<times> ('e, 'z) hcd_scheme) option" where
  "new_retry mk n s =
     (let rs = new_array mk n s
      in (case fst rs of
            Inr p \<Rightarrow> Some (p, snd rs)
          | Inl e \<Rightarrow>
              let s = usleep (snd rs)
              in if h_thread_shutdown s then Some (0, s) else new_retry mk n s))"

partial_function (option) new_urb_retry ::
  "'e platform \<Rightarrow> usb_vhci_urb \<Rightarrow> ('e, 'z) hcd_scheme \<Rightarrow>
   ((exn + nat) \<times> ('e, 'z) hcd_scheme) option" where
  "new_urb_retry P w s = do {
     (r, s) \<leftarrow> new_object_nothrow (\<lambda>s. map_option urb_block (urb_own_ctor P w True s)) s;
     (case r of
        Inl e \<Rightarrow> Some (Inl e, s)
      | Inr u \<Rightarrow>
          if u \<noteq> 0 then Some (Inr u, s)
          else let s = usleep s
               in if h_thread_shutdown s then Some (Inr 0, s) else new_urb_retry P w s) }"

definition alloc_urb ::
  "'e platform \<Rightarrow> usb_vhci_urb \<Rightarrow> ('e, 'z) hcd_scheme \<Rightarrow>
   ((exn + nat) \<times> usb_vhci_urb \<times> ('e, 'z) hcd_scheme) option" where
  "alloc_urb P w s = do {
     (go, w, s) \<leftarrow>
       (if u_buffer_length w \<noteq> 0 then do {
          (p, s) \<leftarrow> new_retry Bytes (u_buffer_length w) s;
          Some (p \<noteq> 0, w\<lparr>u_buffer := p\<rparr>, s) }
        else Some (True, w, s));
     if \<not> go then Some (Inr 0, w, s)
     else do {
       (go, w, s) \<leftarrow>
         (if u_packet_count w \<noteq> 0 then do {
            (p, s) \<leftarrow> new_retry Packets (u_packet_count w) s;
            Some (p \<noteq> 0, w\<lparr>u_iso_packets := p\<rparr>, s) }
          else Some (True, w, s));
       if \<not> go then Some (Inr 0, w, s)
       else do {
         (r, s) \<leftarrow> new_urb_retry P w s;
         Some (r, w, s) } } }"

text \<open>\<open>SET_ADDRESS\<close>: the controller answers it and remembers the new address.\<close>

definition is_set_address :: "'y abi_scheme \<Rightarrow> usb_vhci_urb \<Rightarrow> bool" where
  "is_set_address P u \<longleftrightarrow> is_control P u \<and> get_endpoint_number u = 0 \<and>
     u_bmRequestType u = 0 \<and> u_bRequest u = 5"

definition handle_set_address ::
  "'e platform \<Rightarrow> u8 \<Rightarrow> nat \<Rightarrow> ('e, 'z) local_hcd_scheme \<Rightarrow>
   ('e, 'z) local_hcd_scheme option" where
  "handle_set_address P index u s = do {
     uo \<leftarrow> load_urb u s;
     if is_set_address P uo then
       (let val = u_wValue uo
        in if val > 0x7f then store u (UrbObj (stall uo)) s
           else do {
             s \<leftarrow> store u (UrbObj (ack uo)) s;
             p \<leftarrow> port_entry index s;
             Some (set_port_entry index (p\<lparr>pi_adr := ucast val\<rparr>) s) })
     else Some s }"

text \<open>A URB: one attempt under the lock, with the result of \<open>port_stat_attempt\<close>.\<close>

definition process_urb_attempt ::
  "'e platform \<Rightarrow> usb_vhci_urb \<Rightarrow> nat \<Rightarrow> nat \<Rightarrow> ('e, 'z) local_hcd_scheme \<Rightarrow>
   ((exn + bool) \<times> nat \<times> ('e, 'z) local_hcd_scheme) option" where
  "process_urb_attempt P w u puw s = do {
     r \<leftarrow> port_from_address (u_devadr w) s;
     (case r of
        Inl e \<Rightarrow> Some (Inl e, puw, s)
      | Inr index \<Rightarrow>
          if index = 0 then do { s \<leftarrow> delete_work puw s; Some (Inr True, puw, s) }
          else do {
            (r, s) \<leftarrow>
              (if puw = 0 then new_object_nothrow (work_block (process_urb_work_ctor index u)) s
               else do {
                 obj \<leftarrow> load_work puw s;
                 s \<leftarrow> process_urb_work_dtor obj s;
                 construct_at puw (process_urb_work_ctor index u) s });
            (case r of
               Inl e \<Rightarrow> Some (Inl e, puw, s)
             | Inr puw \<Rightarrow>
                 if puw = 0 then Some (Inr False, puw, s)
                 else do {
                   p \<leftarrow> port_entry index s;
                   let rollback_address = pi_adr p;
                   s \<leftarrow> handle_set_address P index u s;
                   (case enqueue_work puw s of
                      (Inl e, s) \<Rightarrow> do {
                        p \<leftarrow> port_entry index s;
                        Some (Inr False, puw,
                              set_port_entry index (p\<lparr>pi_adr := rollback_address\<rparr>) s) }
                    | (Inr _, s) \<Rightarrow> Some (Inr True, puw, on_work_enqueued P s)) }) }) }"

partial_function (option) bg_process_urb ::
  "'e platform \<Rightarrow> i32 \<Rightarrow> usb_vhci_urb \<Rightarrow> nat \<Rightarrow> bool \<Rightarrow> ('e, 'z) local_hcd_scheme \<Rightarrow>
   ((exn + unit) \<times> ('e, 'z) local_hcd_scheme) option" where
  "bg_process_urb P res w puw nomem_retry s =
     (let s = (if nomem_retry then usleep s else s)
      in if nomem_retry \<and> h_thread_shutdown s
         then do { s \<leftarrow> delete_work puw s; Some (Inr (), s) }
         else do {
           (r, w, s) \<leftarrow> alloc_urb P w s;
           (case r of
              Inl e \<Rightarrow> Some (Inl e, s)
            | Inr u \<Rightarrow>
                if u = 0 then Some (Inr (), s)
                else do {
                  (res, s) \<leftarrow>
                    (if res \<noteq> 0 then do {
                       uo \<leftarrow> load_urb u s;
                       usb_vhci_fetch_data P (l_fd s) uo s }
                     else Some (res, s));
                  if res = - 1 then do { s \<leftarrow> delete_urb u s; Some (Inr (), s) }
                  else do {
                    (r, puw, s) \<leftarrow> process_urb_attempt P w u puw s;
                    (case r of
                       Inl e \<Rightarrow> Some (Inl e, s)
                     | Inr ok \<Rightarrow>
                         if ok then Some (Inr (), s)
                         else bg_process_urb P res w puw True s) } }) })"

definition uninit_work :: usb_vhci_work where
  "uninit_work = \<lparr>wk_work = WorkHandle 0, wk_type = 0\<rparr>"

definition bg_work ::
  "'e platform \<Rightarrow> ('e, 'z) local_hcd_scheme \<Rightarrow>
   ((exn + unit) \<times> ('e, 'z) local_hcd_scheme) option" where
  "bg_work P s =
     (case usb_vhci_fetch_work P (l_fd s) uninit_work s of
        (res, w, s) \<Rightarrow>
          if res = - 1 then Some (Inr (), s)
          else if wk_type w = WORK_TYPE_PORT_STAT P then
            (case wk_work w of
               WorkPortStat ps \<Rightarrow>
                 (let index = ps_index ps;
                      nps = port_stat_new (ps_status ps) (ps_change ps) (ps_flags ps)
                  in if index = 0 \<or> index > h_port_count s then Some (Inr (), s)
                     else bg_port_stat P index nps 0 False s)
             | _ \<Rightarrow> None)
          else if wk_type w = WORK_TYPE_PROCESS_URB P then
            (case wk_work w of
               WorkUrb u \<Rightarrow> bg_process_urb P res u 0 False s
             | _ \<Rightarrow> None)
          else if wk_type w = WORK_TYPE_CANCEL_URB P then
            (case wk_work w of
               WorkHandle h \<Rightarrow> do {
                 (r, s) \<leftarrow> cancel_process_urb_work (local_canceling_work P)
                            (local_finishing_work P) h s;
                 Some (case r of Inl e \<Rightarrow> Inl e | Inr _ \<Rightarrow> Inr (), s) }
             | _ \<Rightarrow> None)
          else Some (Inr (), s))"

section \<open>Construction and destruction\<close>

definition load_chars :: "nat \<Rightarrow> ('e, 'z) machine_scheme \<Rightarrow> char list option" where
  "load_chars p s = (case load p s of Some (Chars cs) \<Rightarrow> Some cs | _ \<Rightarrow> None)"

text \<open>\<open>bus_id.assign(_bus_id); free(_bus_id);\<close>\<close>

definition take_bus_id ::
  "nat \<Rightarrow> ('e, 'z) local_hcd_scheme \<Rightarrow> ((exn + unit) \<times> ('e, 'z) local_hcd_scheme) option" where
  "take_bus_id p s =
     (if p \<noteq> 0 then
        (case alloc_fails s of
           (True, s) \<Rightarrow> Some (Inl BadAlloc, s)
         | (False, s) \<Rightarrow> do {
             cs \<leftarrow> load_chars p s;
             s \<leftarrow> dealloc p (s\<lparr>l_bus_id := c_string cs\<rparr>);
             Some (Inr (), s) })
      else Some (Inr (), s))"

text \<open>
  The body of the constructor, after the base class and the members have been initialised:
  the exception it throws, if any.
\<close>

definition local_hcd_ctor_body ::
  "'e platform \<Rightarrow> ('e, 'z) local_hcd_scheme \<Rightarrow>
   ((exn + unit) \<times> ('e, 'z) local_hcd_scheme) option" where
  "local_hcd_ctor_body P s = do {
     let c = h_port_count s;
     (opened, s) \<leftarrow> usb_vhci_open P c True True True s;
     let s = s\<lparr>l_fd := or_fd opened,
               l_id := (case or_id opened of Some i \<Rightarrow> i | None \<Rightarrow> l_id s),
               l_usb_bus_num := (case or_busnum opened of Some n \<Rightarrow> n | None \<Rightarrow> l_usb_bus_num s)\<rparr>;
     let p = (case or_bus_id opened of Some p \<Rightarrow> p | None \<Rightarrow> 0);
     if l_fd s = - 1 then Some (Inl StdException, s)
     else do {
       (r, s) \<leftarrow> take_bus_id p s;
       (case r of
          Inl e \<Rightarrow> Some (Inl e, s)
        | Inr _ \<Rightarrow>
            let (p, s) = (if c \<noteq> 0 then alloc (PortTable (unat c)) s else (0, s))
            in if c \<noteq> 0 \<and> p = 0 then Some (Inl BadAlloc, s)
               else Some (init_bg_thread P
                 (s\<lparr>l_port_info := replicate (unat c) port_info_default, l_port_block := p\<rparr>))) } }"

text \<open>
  When the body throws, the members and the base class are destroyed, but the destructor of
  \<open>local_hcd\<close> itself does not run: nobody deletes the array of ports.
\<close>

definition local_hcd_ctor ::
  "'e platform \<Rightarrow> u8 \<Rightarrow> ('e, 'z) local_hcd_scheme \<Rightarrow>
   ((exn + unit) \<times> ('e, 'z) local_hcd_scheme) option" where
  "local_hcd_ctor P ports s =
     (case hcd_ctor ports s of
        Inl e \<Rightarrow> Some (Inl e, s)
      | Inr s \<Rightarrow> do {
          let s = s\<lparr>l_fd := - 1, l_id := 0, l_usb_bus_num := 0, l_bus_id := [],
                    l_port_info := [], l_port_block := 0\<rparr>;
          (r, s) \<leftarrow> local_hcd_ctor_body P s;
          (case r of
             Inr _ \<Rightarrow> Some (Inr (), s)
           | Inl e \<Rightarrow> do { s \<leftarrow> hcd_dtor s; Some (Inl e, s) }) })"

definition local_hcd_dtor ::
  "'e platform \<Rightarrow> ('e, 'z) local_hcd_scheme \<Rightarrow> ('e, 'z) local_hcd_scheme option" where
  "local_hcd_dtor P s = do {
     let s = join_bg_thread s;
     (_, s) \<leftarrow> usb_vhci_close P (l_fd s) s;
     s \<leftarrow> dealloc (l_port_block s) s;
     hcd_dtor (s\<lparr>l_port_info := []\<rparr>) }"

section \<open>Port operations\<close>

definition check_port :: "u8 \<Rightarrow> ('e, 'z) hcd_scheme \<Rightarrow> exn + unit" where
  "check_port port s =
     (if port = 0 then Inl (InvalidArgument ''port'')
      else if port > h_port_count s then Inl (OutOfRange ''port'')
      else Inr ())"

definition get_port_stat ::
  "u8 \<Rightarrow> ('e, 'z) local_hcd_scheme \<Rightarrow> (exn + port_stat) option" where
  "get_port_stat port s =
     (case check_port port s of
        Inl e \<Rightarrow> Some (Inl e)
      | Inr _ \<Rightarrow> map_option (\<lambda>p. Inr (pi_stat p)) (port_entry port s))"

text \<open>The common shape of the six notifications: check, call, throw on failure.\<close>

definition port_notify ::
  "(('e, 'z) hcd_scheme \<Rightarrow> i32 \<times> ('e, 'z) hcd_scheme) \<Rightarrow> u8 \<Rightarrow> ('e, 'z) hcd_scheme \<Rightarrow>
   (exn + unit) \<times> ('e, 'z) hcd_scheme" where
  "port_notify call port s =
     (case check_port port s of
        Inl e \<Rightarrow> (Inl e, s)
      | Inr _ \<Rightarrow> (case call s of (r, s) \<Rightarrow> (if r = - 1 then Inl StdException else Inr (), s)))"

definition port_connect ::
  "'e platform \<Rightarrow> u8 \<Rightarrow> data_rate \<Rightarrow> ('e, 'z) local_hcd_scheme \<Rightarrow>
   (exn + unit) \<times> ('e, 'z) local_hcd_scheme" where
  "port_connect P port rate s =
     port_notify (usb_vhci_port_connect P (l_fd s) port (rate_code rate)) port s"
definition port_disconnect ::
  "'e platform \<Rightarrow> u8 \<Rightarrow> ('e, 'z) local_hcd_scheme \<Rightarrow> (exn + unit) \<times> ('e, 'z) local_hcd_scheme" where
  "port_disconnect P port s = port_notify (usb_vhci_port_disconnect P (l_fd s) port) port s"
definition port_disable ::
  "'e platform \<Rightarrow> u8 \<Rightarrow> ('e, 'z) local_hcd_scheme \<Rightarrow> (exn + unit) \<times> ('e, 'z) local_hcd_scheme" where
  "port_disable P port s = port_notify (usb_vhci_port_disable P (l_fd s) port) port s"
definition port_resumed ::
  "'e platform \<Rightarrow> u8 \<Rightarrow> ('e, 'z) local_hcd_scheme \<Rightarrow> (exn + unit) \<times> ('e, 'z) local_hcd_scheme" where
  "port_resumed P port s = port_notify (usb_vhci_port_resumed P (l_fd s) port) port s"
definition port_overcurrent ::
  "'e platform \<Rightarrow> u8 \<Rightarrow> bool \<Rightarrow> ('e, 'z) local_hcd_scheme \<Rightarrow>
   (exn + unit) \<times> ('e, 'z) local_hcd_scheme" where
  "port_overcurrent P port oc s =
     port_notify (usb_vhci_port_overcurrent P (l_fd s) port (c_bool oc)) port s"
definition port_reset_done ::
  "'e platform \<Rightarrow> u8 \<Rightarrow> bool \<Rightarrow> ('e, 'z) local_hcd_scheme \<Rightarrow>
   (exn + unit) \<times> ('e, 'z) local_hcd_scheme" where
  "port_reset_done P port enable s =
     port_notify (usb_vhci_port_reset_done P (l_fd s) port (c_bool enable)) port s"

end
