(* ===== verification/Local_Port_Stat.thy ===== *)
theory Local_Port_Stat
  imports Local_Hcd
begin

text \<open>
  Port status messages: \<open>bg_work\<close> turns each one into exactly one work object at the end of the
  inbox, and records status and address of the port, however often it has to wait for
  memory.
\<close>

section \<open>Allocating work objects\<close>

lemma alloc_fails_oom:
  "fst (alloc_fails s) \<Longrightarrow> length (oom (snd (alloc_fails s))) < length (oom s)"
  "length (oom (snd (alloc_fails s))) \<le> length (oom s)"
  by (simp_all add: alloc_fails_def split: list.splits)

lemma alloc_oom:
  assumes "alloc b s = (p, t)" "heap_ok s"
  shows "p = 0 \<Longrightarrow> length (oom t) < length (oom s)" "length (oom t) \<le> length (oom s)"
proof -
  obtain f r where fr: "alloc_fails s = (f, r)" by fastforce
  then have "brk r = brk s" using alloc_fails_frame(2) [of s] by simp
  then show "p = 0 \<Longrightarrow> length (oom t) < length (oom s)" "length (oom t) \<le> length (oom s)"
    using assms fr alloc_fails_oom [of s] by (auto simp: alloc_def heap_ok_def split: bool.splits)
qed

lemma new_work_cases:
  assumes "heap_ok s"
  obtains (fail) t where "new_object (work_block (Inr w)) s = Some (Inl BadAlloc, t)"
      "new_object_nothrow (work_block (Inr w)) s = Some (Inr 0, t)"
      "heap t = heap s" "heap_ok t" "memory_only s t" "length (oom t) < length (oom s)"
  | (ok) q t where "new_object (work_block (Inr w)) s = Some (Inr q, t)"
      "new_object_nothrow (work_block (Inr w)) s = Some (Inr q, t)"
      "q \<noteq> 0" "heap s q = None" "heap t = (heap s)(q \<mapsto> WorkObj w)" "heap_ok t" "memory_only s t"
      "length (oom t) \<le> length (oom s)"
proof -
  obtain q t where al: "alloc (Bytes []) s = (q, t)" by fastforce
  note o = alloc_oom [OF al assms]
  from assms al show thesis
  proof (cases rule: alloc_cases)
    case fail
    then show thesis using al o that(1) [of t]
      by (simp add: new_object_def new_object_nothrow_def memory_only_def)
  next
    case ok
    let ?t = "t\<lparr>heap := (heap s)(q \<mapsto> WorkObj w)\<rparr>"
    have "heap_ok ?t" using ok heap_ok_update [of t q "Some (WorkObj w)"] by simp
    then show thesis using al ok o(2) that(2) [of q ?t]
      by (simp add: new_object_def new_object_nothrow_def construct_def work_block_def store_def
          memory_only_def)
  qed
qed

text \<open>Works that own nothing but themselves.\<close>

fun plain_kind :: "work_kind \<Rightarrow> bool" where
  "plain_kind (ProcessUrbWork _) = False"
| "plain_kind _ = True"

lemma plain_work:
  assumes "load_work q s = Some w" "plain_kind (w_kind w)" "w_port w \<noteq> 0"
  shows "work_object s q" "work_footprint s q = {q}"
  using assms by (cases "w_kind w"; simp add: work_object_def work_footprint_def)+

lemma footprints_live: "works_ok s ps \<Longrightarrow> x \<in> footprints s ps \<Longrightarrow> heap s x \<noteq> None"
  unfolding footprints_def using works_ok_object work_footprint_live by blast

lemma work_footprint_self: "work_object s p \<Longrightarrow> p \<in> work_footprint s p"
  by (erule work_objectE) (simp add: work_footprint_def)

lemma works_ok_new:
  assumes "works_ok s ps" "heap s q = None" "q \<noteq> 0" "heap t = (heap s)(q \<mapsto> WorkObj w)"
    and "plain_kind (w_kind w)" "w_port w \<noteq> 0"
  shows "works_ok t (ps @ [q])" "load_work q t = Some w"
    "\<And>x. x \<in> footprints s ps \<Longrightarrow> heap t x = heap s x"
proof -
  have ext: "heap s \<subseteq>\<^sub>m heap t" using assms(2,4) by (auto simp: map_le_def)
  show l: "load_work q t = Some w" using assms(3,4) by (simp add: load_work_Some)
  note q = plain_work [OF l assms(5,6)]
  have "q \<notin> footprints s ps" using footprints_live [OF assms(1)] assms(2) by blast
  moreover from this have "q \<notin> set ps"
    using work_footprint_self works_ok_object [OF assms(1)] by (auto simp: footprints_def)
  ultimately show "works_ok t (ps @ [q])"
    using works_ok_extend(1,2) [OF assms(1) ext] q by (simp add: works_ok_snoc)
  show "\<And>x. x \<in> footprints s ps \<Longrightarrow> heap t x = heap s x"
    using footprints_live [OF assms(1)] ext by (metis map_le_def domIff)
qed

lemma works_ok_replace:
  assumes "works_ok s (ps @ [q])" "load_work q s = Some v" "plain_kind (w_kind v)"
    and "heap t = (heap s)(q \<mapsto> WorkObj w)" "plain_kind (w_kind w)" "w_port w \<noteq> 0"
  shows "works_ok t (ps @ [q])" "load_work q t = Some w"
    "\<And>x. x \<in> footprints s ps \<Longrightarrow> heap t x = heap s x"
proof -
  have s: "q \<notin> set ps" "work_object s q" "works_ok s ps" "disjnt (work_footprint s q) (footprints s ps)"
    using assms(1) by (simp_all add: works_ok_snoc)
  have "w_port v \<noteq> 0" using s(2) assms(2) by (simp add: work_object_def)
  note v = plain_work [OF assms(2,3) this]
  show l: "load_work q t = Some w" using assms(2,4) by (simp add: load_work_Some)
  note w = plain_work [OF l assms(5,6)]
  show frame: "heap t x = heap s x" if "x \<in> footprints s ps" for x
    using s(4) v(2) that assms(4) by (auto simp: disjnt_def)
  note f = works_ok_frame [OF s(3) frame]
  show "works_ok t (ps @ [q])" using f(1,2) s v w by (simp add: works_ok_snoc)
qed

section \<open>One attempt\<close>

text \<open>
  The state between two attempts: \<open>psw\<close> is null, or a work object that belongs to no queue.
\<close>

definition spare :: "('e, 'z) hcd_scheme \<Rightarrow> nat \<Rightarrow> bool" where
  "spare s psw \<longleftrightarrow> heap_ok s \<and>
     (if psw = 0 then works_ok s (hcd_owned s)
      else works_ok s (hcd_owned s @ [psw]) \<and>
           (case load_work psw s of Some w \<Rightarrow> plain_kind (w_kind w) | None \<Rightarrow> False))"

definition port_stat_work_of ::
  "'y abi_scheme \<Rightarrow> u8 \<Rightarrow> port_stat \<Rightarrow> port_stat \<Rightarrow> work" where
  "port_stat_work_of P index nps prev =
     \<lparr>w_port = index, w_canceled = False,
      w_kind = PortStatWork nps (port_stat_work_triggers P nps prev)\<rparr>"

lemma port_stat_work_prev_ctor_ok:
  "index \<noteq> 0 \<Longrightarrow> port_stat_work_prev_ctor P index nps prev = Inr (port_stat_work_of P index nps prev)"
  by (simp add: port_stat_work_prev_ctor_def work_ctor_def port_stat_work_of_def)

text \<open>The blocks of arrays of ports: no work owns one.\<close>

definition tables :: "('e, 'z) machine_scheme \<Rightarrow> nat set" where
  "tables s = {x. \<exists>n. heap s x = Some (PortTable n)}"

lemma urb_footprint_tables: "urb_object s q \<Longrightarrow> x \<in> urb_footprint s q \<Longrightarrow> x \<notin> tables s"
  by (auto simp: urb_object_def urb_footprint_def urb_blocks_def urb_mem_def tables_def load_urb_Some
      bytes_at_iff packets_at_iff split: option.splits if_splits)

lemma footprint_tables:
  assumes "work_object s p" "x \<in> work_footprint s p" shows "x \<notin> tables s"
proof -
  obtain w where w: "load_work p s = Some w" "\<And>q. w_kind w = ProcessUrbWork q \<Longrightarrow> urb_object s q"
    using assms(1) by (rule work_objectE) blast
  show ?thesis
    using assms(2) w urb_footprint_tables [of s _ x] by (auto simp: work_footprint_def load_work_Some tables_def split: work_kind.splits)
qed

lemma footprints_tables: "works_ok s ps \<Longrightarrow> x \<in> footprints s ps \<Longrightarrow> x \<notin> tables s"
  using footprint_tables works_ok_object by (fastforce simp: footprints_def)

lemma tables_live: "x \<in> tables s \<Longrightarrow> heap s x \<noteq> None"
  by (auto simp: tables_def)

text \<open>
  The effect on memory of getting a work object \<open>w\<close> to enqueue, from null or in place:
  every work in a queue is as it was, and so is every array of ports.
\<close>

definition keeps :: "('e, 'z) hcd_scheme \<Rightarrow> ('e, 'y) hcd_scheme \<Rightarrow> bool" where
  "keeps s t \<longleftrightarrow> (\<forall>x \<in> footprints s (hcd_owned s) \<union> tables s. heap t x = heap s x)"

lemma keepsD:
  assumes "keeps s t"
  shows "x \<in> footprints s (hcd_owned s) \<Longrightarrow> heap t x = heap s x" "x \<in> tables s \<Longrightarrow> heap t x = heap s x"
    "tables s \<subseteq> tables t"
  using assms by (auto simp: keeps_def tables_def)

text \<open>Enough for \<open>keeps\<close>: the works in the queues are as they were, and of the rest at most \<open>X\<close> has changed.\<close>

lemma keepsI:
  assumes "\<And>x. x \<in> footprints s (hcd_owned s) \<Longrightarrow> heap t x = heap s x"
    and "\<And>x. x \<notin> X \<Longrightarrow> heap t x = heap s x" "\<And>x. x \<in> X \<Longrightarrow> x \<notin> tables s"
  shows "keeps s t"
  using assms by (auto simp: keeps_def)

lemma keeps_heap: "heap t = heap s \<Longrightarrow> keeps s t"
  by (simp add: keeps_def)

lemma keeps_trans:
  assumes "works_ok r (hcd_owned r)" "keeps r s" "hcd_owned s = hcd_owned r" "keeps s t"
  shows "keeps r t"
proof -
  have "footprints s (hcd_owned r) = footprints r (hcd_owned r)"
    using assms(1,2) works_ok_frame(2) [of r "hcd_owned r" s] by (simp add: keeps_def)
  then show ?thesis using assms keepsD(3) [OF assms(2)] by (auto simp: keeps_def)
qed

definition got_work ::
  "('e, 'z) hcd_scheme \<Rightarrow> work \<Rightarrow> nat \<Rightarrow> ('e, 'z) hcd_scheme \<Rightarrow> bool" where
  "got_work s w q t \<longleftrightarrow> q \<noteq> 0 \<and> heap_ok t \<and> memory_only s t \<and> works_ok t (hcd_owned s @ [q]) \<and>
     load_work q t = Some w \<and> keeps s t"

lemma memory_only_hcd:
  assumes "memory_only (s :: ('e, 'z) hcd_scheme) t"
  shows "h_inbox t = h_inbox s" "h_processing t = h_processing s" "hcd_owned t = hcd_owned s"
    "h_callbacks t = h_callbacks s" "h_port_count t = h_port_count s"
    "h_thread_shutdown t = h_thread_shutdown s" "hcd.more t = hcd.more s"
  using assms more_hcd [of t s] by (simp_all add: memory_only_def hcd_owned_def)

lemma get_work:
  assumes "spare s psw" "plain_kind (w_kind w)" "w_port w \<noteq> 0"
  shows "\<exists>r t. (if psw = 0 then new_object (work_block (Inr w)) s
      else construct_at psw (Inr w) s) = Some (r, t) \<and> length (oom t) \<le> length (oom s) \<and>
    (case r of
       Inl e \<Rightarrow> e = BadAlloc \<and> psw = 0 \<and> spare t 0 \<and> memory_only s t \<and> heap t = heap s \<and>
         length (oom t) < length (oom s)
     | Inr q \<Rightarrow> got_work s w q t)"
proof (cases "psw = 0")
  case True
  have ok: "heap_ok s" "works_ok s (hcd_owned s)" using assms(1) True by (simp_all add: spare_def)
  from ok(1) show ?thesis
  proof (cases rule: new_work_cases [where w = w])
    case (fail t)
    then have "hcd_owned t = hcd_owned s" by (simp add: memory_only_hcd)
    then have "spare t 0"
      using fail ok heap_determines(6) [OF fail(3)] by (simp add: spare_def)
    with fail True show ?thesis by auto
  next
    case (ok q t)
    note n = works_ok_new [OF \<open>works_ok s (hcd_owned s)\<close> ok(4,3,5) assms(2,3)]
    have "keeps s t"
      by (rule keepsI [OF n(3), of "{q}"]) (use ok(4,5) in \<open>auto simp: tables_def\<close>)
    then show ?thesis using True ok n by (auto simp: got_work_def)
  qed
next
  case False
  then obtain v where v: "works_ok s (hcd_owned s @ [psw])" "load_work psw s = Some v"
      "plain_kind (w_kind v)" "heap_ok s"
    using assms(1) by (auto simp: spare_def split: option.splits)
  let ?t = "s\<lparr>heap := (heap s)(psw \<mapsto> WorkObj w)\<rparr>"
  have "construct_at psw (Inr w) s = Some (Inr psw, ?t)"
    using v(2) by (auto simp: construct_at_def store_def load_work_Some)
  moreover have "heap_ok ?t" using v heap_ok_update [of s psw] by (simp add: load_work_Some)
  moreover note n = works_ok_replace [OF v(1-3) _ assms(2,3), of ?t]
  moreover have "keeps s ?t"
    by (rule keepsI [of _ _ "{psw}"]) (use n(3) v(2) in \<open>auto simp: tables_def load_work_Some\<close>)
  ultimately show ?thesis using False by (auto simp: got_work_def)
qed

lemma enqueue_cases:
  obtains (fail) t where "enqueue_work q s = (Inl BadAlloc, t)" "t = s\<lparr>oom := oom t\<rparr>"
      "length (oom t) < length (oom s)"
  | (ok) bs where "enqueue_work q s = (Inr (), s\<lparr>oom := bs, h_inbox := h_inbox s @ [q]\<rparr>)"
      "length bs \<le> length (oom s)"
proof -
  obtain bs where al: "alloc_fails s = (fst (alloc_fails s), s\<lparr>oom := bs\<rparr>)"
    by (rule alloc_fails_cases)
  then have o: "oom (snd (alloc_fails s)) = bs" by (metis machine.select_convs(5) machine.surjective
      machine.update_convs(5) snd_conv)
  show thesis
  proof (cases "fst (alloc_fails s)")
    case True
    then show thesis using al o alloc_fails_oom(1) [of s] that(1) [of "s\<lparr>oom := bs\<rparr>"]
      by (simp add: enqueue_work_def)
  next
    case False
    then show thesis using al o alloc_fails_oom(2) [of s] that(2) [of bs]
      by (simp add: enqueue_work_def)
  qed
qed

text \<open>The entry of a port that exists.\<close>

definition port_ok :: "u8 \<Rightarrow> ('e, 'z) local_hcd_scheme \<Rightarrow> bool" where
  "port_ok index s \<longleftrightarrow> index \<noteq> 0 \<and> unat index \<le> length (l_port_info s)"

definition port_at :: "u8 \<Rightarrow> ('e, 'z) local_hcd_scheme \<Rightarrow> port_info" where
  "port_at index s = l_port_info s ! (unat index - 1)"

lemma unat_pred: "(index :: u8) \<noteq> 0 \<Longrightarrow> unat (index - 1) = unat index - 1"
  by (simp add: unat_minus_one)

lemma port_entry_at: "port_ok index s \<Longrightarrow> port_entry index s = Some (port_at index s)"
  using unat_gt_0 [of index]
  by (auto simp: port_entry_def port_ok_def port_at_def idx_def unat_pred)

lemma memory_only_local:
  assumes "memory_only (s :: ('e, 'z) local_hcd_scheme) t"
  shows "l_port_info t = l_port_info s" "l_fd t = l_fd s" "port_ok index t = port_ok index s"
    "port_at index t = port_at index s" "l_port_block t = l_port_block s"
  using memory_only_hcd(7) [OF assms]
  by (cases s; cases t; simp add: port_ok_def port_at_def)+

text \<open>The state after a port status work \<open>q\<close> has been enqueued.\<close>

definition port_stat_done ::
  "'e platform \<Rightarrow> u8 \<Rightarrow> port_stat \<Rightarrow> ('e, 'z) local_hcd_scheme \<Rightarrow> ('e, 'z) local_hcd_scheme \<Rightarrow> bool" where
  "port_stat_done P index nps s t \<longleftrightarrow>
     (\<exists>q t0. got_work s (port_stat_work_of P index nps (pi_stat (port_at index s))) q t0 \<and>
        t = on_work_enqueued P (set_port_entry index (port_stat_update nps (port_at index s))
              (t0\<lparr>h_inbox := h_inbox s @ [q]\<rparr>)))"

lemma port_stat_attempt_spec:
  assumes "spare s psw" "port_ok index s"
  shows "\<exists>ok q t. port_stat_attempt P index nps psw s = Some (Inr ok, q, t) \<and>
    (if ok then port_stat_done P index nps s t
     else spare t q \<and> memory_only s t \<and> length (oom t) < length (oom s) \<and> keeps s t)"
proof -
  let ?w = "port_stat_work_of P index nps (pi_stat (port_at index s))"
  have w: "port_stat_work_prev_ctor P index nps (pi_stat (port_at index s)) = Inr ?w"
    "plain_kind (w_kind ?w)" "w_port ?w \<noteq> 0"
    using assms(2) port_stat_work_prev_ctor_ok [of index] by (auto simp: port_ok_def port_stat_work_of_def)
  obtain r t0 where get: "(if psw = 0 then new_object (work_block (Inr ?w)) s
      else construct_at psw (Inr ?w) s) = Some (r, t0)"
    "case r of
       Inl e \<Rightarrow> e = BadAlloc \<and> psw = 0 \<and> spare t0 0 \<and> memory_only s t0 \<and> heap t0 = heap s \<and>
         length (oom t0) < length (oom s)
     | Inr q \<Rightarrow> got_work s ?w q t0"
    "length (oom t0) \<le> length (oom s)"
    using get_work [OF assms(1) w(2,3)] by blast
  note get1 = get(1) [folded w(1)]
  show ?thesis
  proof (cases r)
    case (Inl e)
    then show ?thesis
      using get1 get(2) port_entry_at [OF assms(2)] keeps_heap [of t0 s]
      by (intro exI [of _ False] exI [of _ 0] exI [of _ t0]) (simp add: port_stat_attempt_def split del: if_split)
  next
    case (Inr q)
    then have g: "got_work s ?w q t0" using get(2) by simp
    then have mem: "memory_only s t0" "heap_ok t0" "works_ok t0 (hcd_owned s @ [q])" "q \<noteq> 0"
      "load_work q t0 = Some ?w" by (simp_all add: got_work_def)
    note same = memory_only_hcd [OF mem(1)] memory_only_local [OF mem(1)]
    show ?thesis
    proof (cases rule: enqueue_cases [of q t0])
      case (fail t)
      have h: "heap t = heap t0" "brk t = brk t0" "memory_only t0 t"
        by (subst fail(2), simp add: memory_only_def)+
      then have "spare t q"
        using mem same heap_determines(1,6) [OF h(1)] memory_only_hcd(3) [OF h(3)] w(2)
        by (simp add: spare_def heap_ok_def)
      then show ?thesis
        using fail get1 get(3) port_entry_at [OF assms(2)] Inr g h
          memory_only_trans [OF mem(1) h(3)]
        by (auto simp: port_stat_attempt_def got_work_def keeps_def split del: if_split)
    next
      case (ok bs)
      let ?u = "t0\<lparr>oom := bs\<rparr>"
      have h: "heap ?u = heap t0" by simp
      let ?t = "on_work_enqueued P (set_port_entry index (port_stat_update nps (port_at index s))
            (?u\<lparr>h_inbox := h_inbox s @ [q]\<rparr>))"
      have "got_work s ?w q ?u"
        using g heap_determines(1,6) [OF h] by (simp add: got_work_def heap_ok_def memory_only_def keeps_def)
      then have fin: "port_stat_done P index nps s ?t"
        unfolding port_stat_done_def by (rule_tac exI [of _ q], rule_tac exI [of _ ?u]) simp
      have "port_entry index (?u\<lparr>h_inbox := h_inbox s @ [q]\<rparr>) = Some (port_at index s)"
        using port_entry_at [of index t0] assms(2) same by (simp add: port_entry_def)
      then have "port_stat_attempt P index nps psw s = Some (Inr True, q, ?t)"
        using ok(1) get1 port_entry_at [OF assms(2)] Inr
        by (simp add: port_stat_attempt_def same(1) split del: if_split)
      with fin show ?thesis by (intro exI [of _ True] exI [of _ q] exI [of _ ?t]) simp
    qed
  qed
qed

section \<open>Waiting for memory\<close>

text \<open>
  What waiting may change: the heap outside of the queues, the allocator, and the flag that
  another thread sets.
\<close>

definition paused :: "('e, 'z) hcd_scheme \<Rightarrow> ('e, 'z) hcd_scheme \<Rightarrow> bool" where
  "paused s t \<longleftrightarrow> env t = env s \<and> h_callbacks t = h_callbacks s \<and>
     h_bg_thread t = h_bg_thread s \<and> h_port_count t = h_port_count s \<and>
     h_inbox t = h_inbox s \<and> h_processing t = h_processing s \<and> hcd.more t = hcd.more s \<and>
     set (naps t) \<subseteq> set (naps s) \<and>
     (h_thread_shutdown t \<longrightarrow> h_thread_shutdown s \<or> True \<in> set (naps s)) \<and> keeps s t"

lemma paused_owned: "paused s t \<Longrightarrow> hcd_owned t = hcd_owned s"
  by (simp add: paused_def hcd_owned_def)

lemma paused_refl: "paused s s"
  by (simp add: paused_def keeps_def)

lemma paused_trans:
  assumes "works_ok r (hcd_owned r)" "paused r s" "paused s t"
  shows "paused r t"
proof -
  have "keeps r t"
    using keeps_trans [OF assms(1), of s t] assms(2,3) paused_owned [OF assms(2)]
    by (simp add: paused_def)
  then show ?thesis using assms(2,3) by (auto simp: paused_def)
qed

lemma paused_local:
  assumes "paused (s :: ('e, 'z) local_hcd_scheme) t"
  shows "l_port_info t = l_port_info s" "l_fd t = l_fd s" "port_ok index t = port_ok index s"
    "port_at index t = port_at index s" "l_port_block t = l_port_block s"
proof -
  have "hcd.more t = hcd.more s" using assms by (simp add: paused_def)
  then show "l_port_info t = l_port_info s" "l_fd t = l_fd s" "port_ok index t = port_ok index s"
    "port_at index t = port_at index s" "l_port_block t = l_port_block s"
    by (cases s; cases t; simp add: port_ok_def port_at_def)+
qed

lemma spare_works: "spare s psw \<Longrightarrow> works_ok s (hcd_owned s)"
  by (auto simp: spare_def works_ok_snoc split: if_splits)

lemma paused_memory:
  "memory_only s t \<Longrightarrow> keeps s t \<Longrightarrow> paused s t"
  using more_hcd [of t s] by (simp add: paused_def memory_only_def)

lemma usleep_simps [simp]:
  "heap (usleep s) = heap s" "brk (usleep s) = brk s" "oom (usleep s) = oom s"
  "env (usleep s) = env s" "errno (usleep s) = errno s"
  "h_callbacks (usleep s) = h_callbacks s" "h_bg_thread (usleep s) = h_bg_thread s"
  "h_port_count (usleep s) = h_port_count s" "h_inbox (usleep s) = h_inbox s"
  "h_processing (usleep s) = h_processing s" "hcd.more (usleep s) = hcd.more s"
  "hcd_owned (usleep s) = hcd_owned s"
  by (simp_all add: usleep_def hcd_owned_def split: list.split)

lemma usleep_paused: "paused s (usleep s)"
proof -
  have "keeps s (usleep s)" by (rule keeps_heap) simp
  moreover have "set (naps (usleep s)) \<subseteq> set (naps s)"
    "h_thread_shutdown (usleep s) \<longrightarrow> h_thread_shutdown s \<or> True \<in> set (naps s)"
    by (auto simp: usleep_def split: list.splits)
  ultimately show ?thesis by (simp add: paused_def)
qed

lemma usleep_works: "works_ok (usleep s) ps = works_ok s ps" "heap_ok (usleep s) = heap_ok s"
    "load_work p (usleep s) = load_work p s"
  using heap_determines(1,6) [of "usleep s" s] by (simp_all add: heap_ok_def)

lemma usleep_spare [simp]: "spare (usleep s) psw = spare s psw"
  by (simp add: spare_def usleep_works)

lemma delete_spare:
  assumes "spare s psw"
  shows "\<exists>t. delete_work psw s = Some t \<and> hcd_inv t \<and> paused s t \<and>
    h_thread_shutdown t = h_thread_shutdown s"
proof (cases "psw = 0")
  case True
  then show ?thesis using assms by (simp add: spare_def delete_work_def hcd_inv_def paused_refl)
next
  case False
  then have ok: "heap_ok s" "works_ok s (psw # hcd_owned s)"
    using assms works_ok_append_commute [of s "hcd_owned s" "[psw]"] by (simp_all add: spare_def)
  let ?t = "s\<lparr>heap := heap s |` (- work_footprint s psw)\<rparr>"
  note d = delete_owned [OF ok]
  have "keeps s ?t"
    by (rule keepsI [of _ _ "work_footprint s psw"])
      (use ok(2) footprint_tables in \<open>auto simp: works_ok_Cons disjnt_def restrict_map_def\<close>)
  then have "paused s ?t" by (simp add: paused_def)
  moreover have "hcd_inv ?t"
    using d(2) heap_ok_restrict [OF ok(1)] by (simp add: hcd_inv_def hcd_owned_def)
  ultimately show ?thesis using d(1) by (intro exI [of _ ?t]) simp
qed

lemma bg_port_stat_run:
  assumes "spare s psw" "port_ok index s"
  shows "\<exists>t. bg_port_stat P index nps psw nomem s = Some (Inr (), t) \<and>
    ((paused s t \<and> hcd_inv t \<and> h_thread_shutdown t) \<or>
     (\<exists>s'. paused s s' \<and> port_stat_done P index nps s' t))"
  using assms
proof (induction "length (oom s)" arbitrary: s psw nomem rule: less_induct)
  case less
  define s1 where "s1 = (if nomem then usleep s else s)"
  have unf: "bg_port_stat P index nps psw nomem s =
      (if nomem \<and> h_thread_shutdown s1 then do { s \<leftarrow> delete_work psw s1; Some (Inr (), s) }
       else do {
         (r, psw, s) \<leftarrow> port_stat_attempt P index nps psw s1;
         (case r of
            Inl e \<Rightarrow> Some (Inl e, s)
          | Inr ok \<Rightarrow> if ok then Some (Inr (), s) else bg_port_stat P index nps psw True s) })"
    unfolding s1_def by (subst bg_port_stat.simps) (simp only: Let_def)
  have wk: "works_ok s (hcd_owned s)" using less.prems(1) by (rule spare_works)
  have s: "spare s1 psw" "paused s s1" "oom s1 = oom s"
    using less.prems usleep_paused paused_refl by (auto simp: s1_def)
  then have p: "port_ok index s1" using less.prems(2) paused_local(3) by blast
  show ?case
  proof (cases "nomem \<and> h_thread_shutdown s1")
    case True
    obtain t where "delete_work psw s1 = Some t" "hcd_inv t" "paused s1 t"
        "h_thread_shutdown t = h_thread_shutdown s1"
      using delete_spare [OF s(1)] by blast
    then show ?thesis
      using True paused_trans [OF wk s(2)] unf by auto
  next
    case False
    obtain ok q t where a: "port_stat_attempt P index nps psw s1 = Some (Inr ok, q, t)"
      "if ok then port_stat_done P index nps s1 t
       else spare t q \<and> memory_only s1 t \<and> length (oom t) < length (oom s1) \<and> keeps s1 t"
      using port_stat_attempt_spec [OF s(1) p] by blast
    have run: "bg_port_stat P index nps psw nomem s =
        (if ok then Some (Inr (), t) else bg_port_stat P index nps q True t)"
      using False a(1) unf by auto
    show ?thesis
    proof (cases ok)
      case True
      then show ?thesis using run a(2) s(2) by auto
    next
      case False
      then have t: "spare t q" "memory_only s1 t" "length (oom t) < length (oom s)" "paused s1 t"
        using a(2) s(3) paused_memory [of s1 t] by auto
      have st: "paused s t" by (rule paused_trans [OF wk s(2) t(4)])
      moreover have "port_ok index t" using p paused_local(3) [OF t(4)] by blast
      ultimately show ?thesis
        using less.hyps [of t q True] run False paused_trans [OF wk st] t(1,3)
        by (auto split del: if_split)
    qed
  qed
qed

lemma port_stat_done_effect:
  assumes "port_stat_done P index nps s t"
  obtains q where "hcd_inv t" "h_inbox t = h_inbox s @ [q]" "h_processing t = h_processing s"
    "load_work q t = Some (port_stat_work_of P index nps (pi_stat (port_at index s)))"
    "keeps s t"
    "env t = fold (p_callback P) (h_callbacks s) (env s)"
    "l_port_info t =
      (l_port_info s)[unat (index - 1) := port_stat_update nps (port_at index s)]"
proof -
  obtain q r where g: "got_work s (port_stat_work_of P index nps (pi_stat (port_at index s))) q r"
    and t: "t = on_work_enqueued P (set_port_entry index (port_stat_update nps (port_at index s))
              (r\<lparr>h_inbox := h_inbox s @ [q]\<rparr>))"
    using assms by (auto simp: port_stat_done_def)
  have mem: "memory_only s r" "heap_ok r" "works_ok r (hcd_owned s @ [q])"
    using g by (simp_all add: got_work_def)
  have h: "heap t = heap r" "brk t = brk r" by (simp_all add: t on_work_enqueued_def set_port_entry_def)
  have q: "h_inbox t = h_inbox s @ [q]" "h_processing t = h_processing s"
    using memory_only_hcd [OF mem(1)] by (simp_all add: t on_work_enqueued_def set_port_entry_def)
  have "works_ok r (hcd_owned t)"
    by (rule works_ok_perm [OF _ _ mem(3)]) (use mem(3) q in \<open>auto simp: works_ok_def hcd_owned_def\<close>)
  then have inv: "hcd_inv t"
    using mem(2) h heap_determines(6) [OF h(1)] by (simp add: hcd_inv_def heap_ok_def)
  have l: "load_work p t = load_work p r" for p by (rule heap_determines(1) [OF h(1)])
  show thesis
  proof (rule that [of q])
    show "env t = fold (p_callback P) (h_callbacks s) (env s)"
      using mem(1) memory_only_hcd(4) [OF mem(1)]
      by (simp add: t on_work_enqueued_def set_port_entry_def memory_only_def)
    show "l_port_info t = (l_port_info s)[unat (index - 1) := port_stat_update nps (port_at index s)]"
      using memory_only_local(1) [OF mem(1)] by (simp add: t on_work_enqueued_def set_port_entry_def)
  qed (use g q inv l h(1) in \<open>simp_all add: got_work_def keeps_def\<close>)
qed

text \<open>
  C19. A port status message that names an existing port becomes exactly one work object.
  Whatever allocations fail, handling it returns, ownership stays in order and no work that
  was queued changes; and either a fresh, uncancelled work is at the end of the inbox that holds the
  new status with the triggers against the status recorded before, every callback has been called
  once, and status and address are recorded for that port alone; or nothing was enqueued, called
  or recorded, and another thread has asked this one to stop.
\<close>

theorem bg_port_stat_enqueues:
  assumes "hcd_inv s" and "port_ok index s"
  shows "\<exists>t. bg_port_stat P index nps 0 False s = Some (Inr (), t) \<and> hcd_inv t \<and>
    h_processing t = h_processing s \<and>
    (\<forall>x \<in> footprints s (hcd_owned s). heap t x = heap s x) \<and>
    (if h_inbox t = h_inbox s
     then env t = env s \<and> l_port_info t = l_port_info s \<and> h_thread_shutdown t \<and>
       (h_thread_shutdown s \<or> True \<in> set (naps s))
     else \<exists>q. h_inbox t = h_inbox s @ [q] \<and>
       load_work q t = Some (port_stat_work_of P index nps (pi_stat (port_at index s))) \<and>
       env t = fold (p_callback P) (h_callbacks s) (env s) \<and>
       l_port_info t =
         (l_port_info s)[unat (index - 1) := port_stat_update nps (port_at index s)])"
proof -
  have sp: "spare s 0" using assms(1) by (simp add: spare_def hcd_inv_def)
  from bg_port_stat_run [OF sp assms(2), of P nps False]
  obtain t where t: "bg_port_stat P index nps 0 False s = Some (Inr (), t)"
    "(paused s t \<and> hcd_inv t \<and> h_thread_shutdown t) \<or>
     (\<exists>s'. paused s s' \<and> port_stat_done P index nps s' t)" by blast
  from t(2) show ?thesis
  proof (elim disjE exE conjE)
    assume p: "paused s t" "hcd_inv t" "h_thread_shutdown t"
    then show ?thesis
      using t(1) paused_local(1) [OF p(1)] by (auto simp: paused_def keeps_def)
  next
    fix s' assume p: "paused s s'" and d: "port_stat_done P index nps s' t"
    from d show ?thesis
    proof (rule port_stat_done_effect)
      fix q assume q: "hcd_inv t" "h_inbox t = h_inbox s' @ [q]" "h_processing t = h_processing s'"
        "load_work q t = Some (port_stat_work_of P index nps (pi_stat (port_at index s')))"
        "keeps s' t"
        "env t = fold (p_callback P) (h_callbacks s') (env s')"
        "l_port_info t =
          (l_port_info s')[unat (index - 1) := port_stat_update nps (port_at index s')]"
      have same: "h_inbox s' = h_inbox s" "h_processing s' = h_processing s" "env s' = env s"
        "h_callbacks s' = h_callbacks s" "hcd_owned s' = hcd_owned s"
        using p paused_owned [OF p] by (simp_all add: paused_def)
      have kept: "\<forall>x \<in> footprints s (hcd_owned s). heap t x = heap s x"
        using keeps_trans [OF spare_works [OF sp] _ same(5) q(5)] p by (auto simp: paused_def dest: keepsD(1))
      show ?thesis
        using t(1) q(1-4,6,7) paused_local(1,4) [OF p] kept by (intro exI [of _ t]) (simp add: same)
    qed
  qed
qed

section \<open>A sample state\<close>

text \<open>The third allocation from now fails; nobody asks the thread to stop.\<close>

definition sample_local :: "log local_hcd" where
  "sample_local = \<lparr>env = [], errno = 0, heap = sample_heap False, brk = 7,
     oom = [False, False, True], naps = [False],
     h_callbacks = [\<lparr>cb_func = 9, cb_arg = 1\<rparr>], h_bg_thread = 1, h_thread_shutdown = False,
     h_port_count = 1, h_inbox = [6], h_processing = [5], l_fd = 3, l_id = 0, l_usb_bus_num = 1,
     l_bus_id = ''vhci_hcd.0'', l_port_info = [port_info_default], l_port_block = 4\<rparr>"

lemma sample_local_inv: "hcd_inv sample_local" "port_ok 1 sample_local"
proof -
  have "works_ok sample_local [6, 5]"
    using sample_heap_ok(6) [of sample_local False] works_ok_append_commute [of sample_local "[5]" "[6]"]
    by (simp add: sample_local_def)
  then show "hcd_inv sample_local"
    using sample_heap_ok(7) [of sample_local False]
    by (simp add: hcd_inv_def hcd_owned_def sample_local_def)
  show "port_ok 1 sample_local" by (simp add: port_ok_def sample_local_def)
qed

theorem bg_port_stat_enqueues_witness:
  "\<exists>t q. bg_port_stat plain_platform 1 (port_stat_new 0x0103 0x0010 0) 0 False sample_local =
       Some (Inr (), t) \<and> h_inbox t = [6, q] \<and>
     map pi_adr (l_port_info t) = [0] \<and> env t = [Called \<lparr>cb_func = 9, cb_arg = 1\<rparr>]"
proof -
  have u: "pi_adr (port_stat_update (port_stat_new 0x0103 0x0010 0) p) = 0" for p
    by (simp add: port_stat_update_def port_stat_new_def get_connection_changed_def
        get_reset_changed_def get_reset_def get_enable_def has_mask_def Let_def)
  from bg_port_stat_enqueues [OF sample_local_inv, of plain_platform "port_stat_new 0x0103 0x0010 0"]
  show ?thesis
    by (auto simp: u sample_local_def plain_platform_def sample_platform_def abi.extend_def
        split: if_splits)
qed

end
