(* ===== verification/Local_Hooks.thy ===== *)
theory Local_Hooks
  imports Local_Port_Stat
begin

text \<open>
  The virtual functions of \<open>local_hcd\<close> keep the promises of the interface \<open>hcd_hooks\<close>:
  finishing a URB gives it back to the kernel with one ioctl, cancelling one that the user is
  processing enqueues one work object that tells so.
\<close>

section \<open>Finishing\<close>

definition local_ready :: "'e platform \<Rightarrow> nat \<Rightarrow> ('e, 'z) local_hcd_scheme \<Rightarrow> bool" where
  "local_ready P p s \<longleftrightarrow>
     (case load_work p s of
        None \<Rightarrow> False
      | Some w \<Rightarrow>
          (case w_kind w of
             ProcessUrbWork q \<Rightarrow>
               (case load_urb q s of
                  None \<Rightarrow> False
                | Some u \<Rightarrow> giveback_ready P s u)
           | _ \<Rightarrow> True))"

text \<open>The environment after the work has been finished.\<close>

definition local_given :: "'e platform \<Rightarrow> nat \<Rightarrow> ('e, 'z) local_hcd_scheme \<Rightarrow> 'e" where
  "local_given P p s =
     (case load_work p s of
        None \<Rightarrow> env s
      | Some w \<Rightarrow>
          (case w_kind w of
             ProcessUrbWork q \<Rightarrow>
               (case load_urb q s of
                  None \<Rightarrow> env s
                | Some u \<Rightarrow>
                    fst (p_giveback P (l_fd s) (giveback_request P s u (giveback_packets P s u)) (env s)))
           | _ \<Rightarrow> env s))"

lemma quiet_hcd:
  assumes "quiet (s :: ('e, 'z) hcd_scheme) t"
  shows "heap t = heap s" "h_inbox t = h_inbox s" "h_processing t = h_processing s"
    "h_port_count t = h_port_count s" "hcd.more t = hcd.more s" "hcd_frame s t"
  using assms more_hcd [of t s] by (simp_all add: quiet_def hcd_frame_def)

lemma memory_only_frame: "memory_only s t \<Longrightarrow> hcd_frame s t"
  using more_hcd [of t s] by (simp add: memory_only_def hcd_frame_def)

lemma local_finishing_run:
  assumes "hcd_inv s" "p \<in> set (hcd_owned s)"
  shows "if local_ready P p s
    then \<exists>t. local_finishing_work P p s = Some (Inr (), t) \<and> quiet s t \<and> heap_ok t \<and>
      env t = local_given P p s
    else local_finishing_work P p s = None"
proof -
  have "work_object s p" and ok: "heap_ok s"
    using assms(1,2) by (auto simp: hcd_inv_def works_ok_def)
  then obtain w where w: "load_work p s = Some w" "\<And>q. w_kind w = ProcessUrbWork q \<Longrightarrow> urb_object s q"
    by (auto elim: work_objectE)
  show ?thesis
  proof (cases "w_kind w")
    case (ProcessUrbWork q)
    then obtain u where u: "load_urb q s = Some u" "urb_mem s u"
      using w(2) by (auto simp: urb_object_def split: option.splits)
    then have r: "local_ready P p s = giveback_ready P s u"
      using w(1) ProcessUrbWork by (simp add: local_ready_def)
    show ?thesis
      using giveback_run [OF ok u(2), of P "l_fd s"] w(1) ProcessUrbWork u(1) ok r
      by (auto simp: local_finishing_work_def local_given_def quiet_def)
  qed (use w(1) ok in \<open>simp_all add: local_finishing_work_def local_given_def local_ready_def\<close>)
qed

lemma giveback_oom_mark: "giveback_oom P (mark p s) u = giveback_oom P s u"
  by (simp add: giveback_oom_def mark_def alloc_fails_def split: list.split)

lemma mark_other: "p \<noteq> x \<Longrightarrow> heap (mark p s) x = heap s x"
  by (simp add: mark_def)

lemma is_canceled_mark:
  assumes "load_work p s = Some w" "heap t = heap (mark p s)" shows "is_canceled t p"
proof -
  have "load_work p t = Some (work_cancel w)"
    using load_work_mark [OF assms(1), of p] heap_determines(1) [OF assms(2), of p] by simp
  then show ?thesis by (simp add: is_canceled_def work_cancel_def)
qed

lemma local_ready_mark:
  assumes "hcd_inv s" "p \<in> set (hcd_owned s)"
  shows "local_ready P p (mark p s) = local_ready P p s"
proof -
  have "work_object s p" using assms(1,2) by (auto simp: hcd_inv_def works_ok_def)
  then obtain w where w: "load_work p s = Some w" "heap s p = Some (WorkObj w)"
      "\<And>q. w_kind w = ProcessUrbWork q \<Longrightarrow> urb_object s q"
    by (auto elim: work_objectE)
  note m = load_work_mark [OF w(1), of p]
  show ?thesis
  proof (cases "w_kind w")
    case (ProcessUrbWork q)
    then obtain u where u: "load_urb q s = Some u" "urb_mem s u"
      using w(3) by (auto simp: urb_object_def split: option.splits)
    have "q \<noteq> p" using u(1) w(2) by (auto simp: load_urb_Some)
    then have lu: "load_urb q (mark p s) = Some u"
      using u(1) load_cong(1) [of "mark p s" q s] mark_other [of p q s] by simp
    have "u_packet_count u = 0 \<or> u_iso_packets u \<noteq> p"
      using u(2) w(2) by (auto simp: urb_mem_def packets_at_iff)
    then have "packets_set (mark p s) u = packets_set s u"
      using mark_other [of p "u_iso_packets u" s] by (auto simp: packets_set_iff)
    then have "giveback_ready P (mark p s) u = giveback_ready P s u"
      by (simp add: giveback_ready_def giveback_oom_mark)
    then show ?thesis
      using m lu u(1) w(1) ProcessUrbWork by (simp add: local_ready_def work_cancel_def)
  qed (use m w(1) in \<open>simp_all add: local_ready_def work_cancel_def\<close>)
qed

section \<open>Cancelling\<close>

definition cancel_work_of :: "work \<Rightarrow> usb_vhci_urb \<Rightarrow> work" where
  "cancel_work_of w u =
     \<lparr>w_port = w_port w, w_canceled = False, w_kind = CancelUrbWork (u_handle u)\<rparr>"

lemma cancel_work_of_simps [simp]:
  "plain_kind (w_kind (cancel_work_of w u))" "w_port (cancel_work_of w u) = w_port w"
  "w_canceled (cancel_work_of w u) = False"
  by (simp_all add: cancel_work_of_def)

lemma cancel_urb_work_ctor_ok:
  "w_port w \<noteq> 0 \<Longrightarrow> cancel_urb_work_ctor (w_port w) (u_handle u) = Inr (cancel_work_of w u)"
  by (simp add: cancel_urb_work_ctor_def work_ctor_def cancel_work_of_def)

text \<open>
  A URB in progress: a fresh cancel work at the end of the inbox, or no memory and nothing
  changed.
\<close>

lemma local_canceling_run:
  assumes inv: "hcd_inv s" and own: "p \<in> set (h_processing s)"
    and w: "load_work p s = Some w" "w_kind w = ProcessUrbWork q" "load_urb q s = Some u"
  shows "\<exists>r t. local_canceling_work P p True s = Some (r, t) \<and> hcd_inv t \<and> heap s \<subseteq>\<^sub>m heap t \<and>
    h_processing t = h_processing s \<and> hcd_frame s t \<and>
    (case r of
       Inl e \<Rightarrow> e = BadAlloc \<and> h_inbox t = h_inbox s \<and> env t = env s
     | Inr _ \<Rightarrow> \<exists>cw. h_inbox t = h_inbox s @ [cw] \<and> load_work cw t = Some (cancel_work_of w u) \<and>
         env t = fold (p_callback P) (h_callbacks s) (env s))"
proof -
  have ok: "heap_ok s" "works_ok s (hcd_owned s)" using inv by (simp_all add: hcd_inv_def)
  have "work_object s p" using ok(2) own by (simp add: works_ok_def hcd_owned_def)
  then have port: "w_port w \<noteq> 0" using w(1) by (simp add: work_object_def)
  note ctor = cancel_urb_work_ctor_ok [OF port, of u]
  from ok(1) show ?thesis
  proof (cases rule: new_work_cases [where w = "cancel_work_of w u"])
    case (fail t)
    then have "hcd_inv t" "h_inbox t = h_inbox s" "h_processing t = h_processing s" "env t = env s"
      using ok heap_determines(6) [OF fail(3)] memory_only_hcd [OF fail(5)]
      by (simp_all add: hcd_inv_def memory_only_def)
    moreover have "hcd_frame s t" using fail(5) by (rule memory_only_frame)
    ultimately show ?thesis using fail(1,3) w ctor by (simp add: local_canceling_work_def)
  next
    case new: (ok cw t)
    note t = works_ok_new [OF ok(2) new(4,3,5) cancel_work_of_simps(1), unfolded cancel_work_of_simps, OF port]
    note same = memory_only_hcd [OF new(7)] and frame = memory_only_frame [OF new(7)]
    have env: "env t = env s" using new(7) by (simp add: memory_only_def)
    have ext: "heap s \<subseteq>\<^sub>m heap t" using new(4,5) by (auto simp: map_le_def)
    show ?thesis
    proof (cases rule: enqueue_cases [of cw t])
      case (fail t')
      have h: "heap t' = heap t" "h_inbox t' = h_inbox t" "h_processing t' = h_processing t"
        "env t' = env t" "brk t' = brk t"
        by (subst fail(2), simp)+
      have hf: "hcd_frame s (t'\<lparr>heap := x\<rparr>)" for x
        using frame by (subst fail(2), simp add: hcd_frame_def)
      have ok': "heap_ok t'" "works_ok t' (cw # hcd_owned s)"
        using new(6) h t(1) heap_determines(6) [OF h(1)] works_ok_append_commute [of t "hcd_owned s" "[cw]"]
        by (simp_all add: heap_ok_def)
      have fp: "work_footprint t' cw = {cw}"
        using plain_work(2) [of cw t' "cancel_work_of w u"] t(2) port heap_determines(1) [OF h(1)] by simp
      let ?t = "t'\<lparr>heap := heap t' |` (- work_footprint t' cw)\<rparr>"
      note d = delete_owned(1,2) [OF ok']
      have "hcd_owned ?t = hcd_owned s" using same h by (simp add: hcd_owned_def)
      then have "hcd_inv ?t" using d(2) heap_ok_restrict [OF ok'(1)] by (simp add: hcd_inv_def)
      moreover have "heap s \<subseteq>\<^sub>m heap ?t"
        using fp h(1) new(4,5) by (auto simp: map_le_def restrict_map_def)
      ultimately show ?thesis
        using fail(1) new(1) d(1) w ctor same h env hf by (simp add: local_canceling_work_def)
    next
      case (ok bs)
      let ?t = "on_work_enqueued P (t\<lparr>oom := bs, h_inbox := h_inbox t @ [cw]\<rparr>)"
      have h: "heap ?t = heap t" by (simp add: on_work_enqueued_def)
      have "works_ok t (hcd_owned ?t)"
        by (rule works_ok_perm [OF _ _ t(1)])
          (use t(1) same in \<open>auto simp: works_ok_def hcd_owned_def on_work_enqueued_def\<close>)
      then have "hcd_inv ?t"
        using heap_determines(6) [OF h] new(6) by (simp add: hcd_inv_def heap_ok_def on_work_enqueued_def)
      moreover have "load_work cw ?t = Some (cancel_work_of w u)"
        using heap_determines(1) [OF h] t(2) by simp
      ultimately show ?thesis
        using ok(1) new(1) w ctor same env ext h
        frame
        by (simp add: local_canceling_work_def) (simp add: on_work_enqueued_def hcd_frame_def)
    qed
  qed
qed

lemma local_canceling_other:
  assumes "load_work p s = Some w" "plain_kind (w_kind w)"
  shows "local_canceling_work P p b s = Some (Inr (), s)"
  using assms by (cases "w_kind w") (simp_all add: local_canceling_work_def)

lemma local_canceling_active:
  assumes "hcd_inv s" "p \<in> set (h_processing s)"
  shows "\<exists>r t new. local_canceling_work P p True s = Some (r, t) \<and> hcd_inv t \<and>
    heap s \<subseteq>\<^sub>m heap t \<and> h_inbox t = h_inbox s @ new \<and> length new \<le> 1 \<and>
    h_processing t = h_processing s \<and> hcd_frame s t"
proof -
  have "work_object s p" using assms by (auto simp: hcd_inv_def hcd_owned_def works_ok_def)
  then obtain w where w: "load_work p s = Some w" "\<And>q. w_kind w = ProcessUrbWork q \<Longrightarrow> urb_object s q"
    by (auto elim: work_objectE)
  show ?thesis
  proof (cases "plain_kind (w_kind w)")
    case True
    then show ?thesis
      using local_canceling_other [OF w(1)] assms(1) by (auto simp: hcd_frame_def intro!: exI [of _ "[]"])
  next
    case False
    then obtain q where q: "w_kind w = ProcessUrbWork q" by (cases "w_kind w") simp_all
    then obtain u where u: "load_urb q s = Some u"
      using w(2) by (auto simp: urb_object_def split: option.splits)
    from local_canceling_run [OF assms w(1) q u, of P]
    obtain r t where t: "local_canceling_work P p True s = Some (r, t)" "hcd_inv t"
      "heap s \<subseteq>\<^sub>m heap t" "h_processing t = h_processing s" "hcd_frame s t"
      "case r of
         Inl e \<Rightarrow> e = BadAlloc \<and> h_inbox t = h_inbox s \<and> env t = env s
       | Inr _ \<Rightarrow> \<exists>cw. h_inbox t = h_inbox s @ [cw] \<and> load_work cw t = Some (cancel_work_of w u) \<and>
           env t = fold (p_callback P) (h_callbacks s) (env s)"
      by blast
    then have "\<exists>new. h_inbox t = h_inbox s @ new \<and> length new \<le> 1" by (cases r) auto
    with t show ?thesis by blast
  qed
qed

interpretation local_hooks: hcd_hooks "local_canceling_work P" "local_finishing_work P"
  "local_ready P" "local_given P" for P :: "'e platform"
proof unfold_locales
  fix s :: "('e, 'z) local_hcd_scheme" and p
  assume inv: "hcd_inv s" and own: "p \<in> set (hcd_owned s)"
  note run = local_finishing_run [OF inv own, of P]
  show "\<exists>t. local_finishing_work P p s = Some (Inr (), t) \<and> heap t = heap s \<and> heap_ok t \<and>
      h_inbox t = h_inbox s \<and> h_processing t = h_processing s \<and> hcd_frame s t \<and> env t = local_given P p s"
    if "local_ready P p s"
  proof -
    from run that obtain t where t: "local_finishing_work P p s = Some (Inr (), t)"
      "quiet s t" "heap_ok t" "env t = local_given P p s" by auto
    with quiet_hcd [OF t(2)] show ?thesis by blast
  qed
  show "local_finishing_work P p s = None" if "\<not> local_ready P p s" using run that by simp
  show "local_ready P p (mark p s) = local_ready P p s" by (rule local_ready_mark [OF inv own])
next
  fix s :: "('e, 'z) local_hcd_scheme" and p
  show "local_canceling_work P p False s = Some (Inr (), s)" by (simp add: local_canceling_work_def)
qed (rule local_canceling_active)

section \<open>Finishing and cancelling URBs\<close>

lemma load_work_urb_owner:
  assumes "hcd_inv s" "p \<in> set (hcd_owned s)" "load_work p s = Some w" "w_kind w = ProcessUrbWork q"
  shows "urb_object s q" "heap s p = Some (WorkObj w)"
proof -
  have "work_object s p" using assms(1,2) by (auto simp: hcd_inv_def works_ok_def)
  then show "urb_object s q" using assms(3,4) by (simp add: work_object_def)
  show "heap s p = Some (WorkObj w)" using assms(3) by (simp add: load_work_Some)
qed

lemma local_given_mark:
  assumes "hcd_inv s" "p \<in> set (hcd_owned s)"
  shows "local_given P p (mark p s) = local_given P p s"
proof -
  have "work_object s p" using assms by (auto simp: hcd_inv_def works_ok_def)
  then obtain w where w: "load_work p s = Some w" by (rule work_objectE)
  note m = load_work_mark [OF w, of p]
  have fd: "l_fd (mark p s) = l_fd s" by (simp add: mark_def)
  show ?thesis
  proof (cases "w_kind w")
    case (ProcessUrbWork q)
    note own = load_work_urb_owner [OF assms w ProcessUrbWork]
    obtain u where u: "load_urb q s = Some u" using own(1) by (auto simp: urb_object_def split: option.splits)
    note mem = urb_object_blocks(3) [OF own(1) u]
    have lu: "load_urb q (mark p s) = Some u"
      using u own(2) load_cong(1) [of "mark p s" q s] mark_other [of p q s] by (auto simp: load_urb_Some)
    have a: "fst (alloc_fails (mark p s)) = fst (alloc_fails s)" by (simp add: mark_def)
    have b: "load_bytes (u_buffer u) (mark p s) = load_bytes (u_buffer u) s"
      if "u_buffer u = 0 \<or> u_buffer u \<noteq> p" for x :: nat
      using that mark_other [of p "u_buffer u" s] by (auto simp: load_bytes_def load_def)
    have b': "u_buffer u = 0 \<or> u_buffer u \<noteq> p" and c': "u_iso_packets u = 0 \<or> u_iso_packets u \<noteq> p"
      using mem own(2) by (auto simp: urb_mem_def bytes_at_iff packets_at_iff split: if_splits)
    have c: "load_packets (u_iso_packets u) (mark p s) = load_packets (u_iso_packets u) s"
      using c' mark_other [of p "u_iso_packets u" s] by (auto simp: load_packets_def load_def)
    have "giveback_packets P (mark p s) u = giveback_packets P s u"
      using a c by (simp add: giveback_packets_def packet_reports_def)
    moreover have "giveback_request P (mark p s) u ks = giveback_request P s u ks" for ks
      using b [OF b'] by (simp add: giveback_request_def Let_def)
    ultimately show ?thesis
      using w m lu u fd ProcessUrbWork by (simp add: local_given_def work_cancel_def)
  qed (use w m in \<open>simp_all add: local_given_def work_cancel_def\<close>)
qed

text \<open>
  C10. Finishing a URB that the user has processed gives it back to the kernel with exactly one
  request, which is determined by the URB; the work leaves the processing list, exactly the blocks
  of the work, its URB object, data and packets are freed, and everything else is as it was. The
  only fault is the one of giving back: an isochronous URB with a packet that was never set, or
  without memory for the reports of its packets.
\<close>

theorem finish_work_gives_back:
  assumes "hcd_inv s" and "p \<in> set (h_processing s)"
    and "load_work p s = Some w" and "w_kind w = ProcessUrbWork q" and "load_urb q s = Some u"
  shows "if giveback_ready P s u
    then \<exists>t. finish_work (local_finishing_work P) p s = Some (Inr (), t) \<and> hcd_inv t \<and>
      env t = fst (p_giveback P (l_fd s) (giveback_request P s u (giveback_packets P s u)) (env s)) \<and>
      h_inbox t = h_inbox s \<and> h_processing t = removeAll p (h_processing s) \<and>
      heap t = heap s |` (- {p, q, u_buffer u, u_iso_packets u})
    else finish_work (local_finishing_work P) p s = None"
proof (cases "giveback_ready P s u")
  case False
  then have "\<not> local_ready P p s" using assms(3-5) by (simp add: local_ready_def)
  from local_hooks.finish_work_fault [OF assms(1,2) this] False show ?thesis by simp
next
  case True
  then have "local_ready P p s" using assms(3-5) by (simp add: local_ready_def)
  from local_hooks.finish_work_spec [OF assms(1,2) this]
  obtain t where t: "finish_work (local_finishing_work P) p s = Some (Inr (), t)" "hcd_inv t"
    "heap t = heap s |` (- work_footprint s p)" "env t = local_given P p s"
    "h_inbox t = h_inbox s" "h_processing t = removeAll p (h_processing s)" by blast
  have "heap s 0 = None" using assms(1) heap_ok_null [of s] by (simp add: hcd_inv_def)
  then have "heap s |` (- work_footprint s p) = heap s |` (- {p, q, u_buffer u, u_iso_packets u})"
    using assms(3-5)
    by (auto simp: work_footprint_def urb_footprint_def urb_blocks_def restrict_map_def fun_eq_iff)
  then show ?thesis using t assms(3-5) True by (simp add: local_given_def)
qed

text \<open>
  C11. Cancelling by handle: the first work with that handle that still waits in the inbox is
  marked as cancelled and given back to the kernel at once, and no other block changes (or
  giving it back faults, as above); otherwise the first one that is being processed is announced to the user with a fresh
  cancel work at the end of the inbox and one call of each callback (or \<open>bad_alloc\<close>, and nothing
  happened); otherwise nothing happens.
\<close>

theorem cancel_urb_correct:
  assumes "hcd_inv s"
  shows "case List.find (has_handle s h) (h_inbox s) of
      Some p \<Rightarrow>
        (if local_ready P p s
         then \<exists>t. cancel_process_urb_work (local_canceling_work P) (local_finishing_work P) h s =
             Some (Inr False, t) \<and> hcd_inv t \<and> is_canceled t p \<and>
           (\<forall>x. x \<noteq> p \<longrightarrow> heap t x = heap s x) \<and> env t = local_given P p s \<and>
           h_inbox t = h_inbox s \<and> h_processing t = h_processing s
         else cancel_process_urb_work (local_canceling_work P) (local_finishing_work P) h s = None)
    | None \<Rightarrow>
      (case List.find (has_handle s h) (h_processing s) of
         Some p \<Rightarrow>
           \<exists>r t. cancel_process_urb_work (local_canceling_work P) (local_finishing_work P) h s =
               Some (r, t) \<and> hcd_inv t \<and> heap s \<subseteq>\<^sub>m heap t \<and> h_processing t = h_processing s \<and>
             (if r = Inr True
              then env t = fold (p_callback P) (h_callbacks s) (env s) \<and>
                (\<exists>cw w. h_inbox t = h_inbox s @ [cw] \<and> load_work p s = Some w \<and>
                   load_work cw t =
                     Some \<lparr>w_port = w_port w, w_canceled = False, w_kind = CancelUrbWork h\<rparr>)
              else r = Inl BadAlloc \<and> h_inbox t = h_inbox s \<and> env t = env s)
       | None \<Rightarrow>
           cancel_process_urb_work (local_canceling_work P) (local_finishing_work P) h s =
             Some (Inr False, s))"
proof -
  note spec = local_hooks.cancel_spec [OF assms(1), of P h]
  show ?thesis
  proof (cases "List.find (has_handle s h) (h_inbox s)")
    case (Some p)
    show ?thesis
    proof (cases "local_ready P p s")
      case False
      then show ?thesis using spec Some by simp
    next
      case True
      have p: "p \<in> set (h_inbox s)" "has_handle s h p" using Some find_SomeD by fast+
      then obtain w where w: "load_work p s = Some w" by (auto elim: has_handle_owned)
      obtain t where t: "cancel_process_urb_work (local_canceling_work P) (local_finishing_work P) h s =
            Some (Inr False, t)" "hcd_inv t" "heap t = heap (mark p s)"
          "env t = local_given P p (mark p s)" "h_inbox t = h_inbox s" "h_processing t = h_processing s"
        using spec Some True by auto
      have "is_canceled t p" by (rule is_canceled_mark [OF w t(3)])
      moreover have "env t = local_given P p s"
        using t(4) local_given_mark [OF assms(1)] p(1) by (simp add: hcd_owned_def)
      ultimately show ?thesis using t Some True by simp
    qed
  next
    case None
    show ?thesis
    proof (cases "List.find (has_handle s h) (h_processing s)")
      case (Some p)
      then have p: "p \<in> set (h_processing s)" "has_handle s h p" using find_SomeD by fast+
      then obtain w q u where w: "load_work p s = Some w" "w_kind w = ProcessUrbWork q"
          "load_urb q s = Some u" "u_handle u = h" by (auto elim: has_handle_owned)
      obtain r t where rt: "cancel_process_urb_work (local_canceling_work P) (local_finishing_work P) h s =
            Some (r, t)" "r = Inr True \<or> isl r" "hcd_inv t" "heap s \<subseteq>\<^sub>m heap t"
          "h_processing t = h_processing s"
          "local_canceling_work P p True s = Some (case r of Inl e \<Rightarrow> Inl e | Inr _ \<Rightarrow> Inr (), t)"
        using spec None Some by auto
      from local_canceling_run [OF assms(1) p(1) w(1-3), of P] rt(6) w(1)
      have "case (case r of Inl e \<Rightarrow> Inl e | Inr _ \<Rightarrow> Inr ()) of
          Inl e \<Rightarrow> e = BadAlloc \<and> h_inbox t = h_inbox s \<and> env t = env s
        | Inr _ \<Rightarrow> \<exists>cw. h_inbox t = h_inbox s @ [cw] \<and> load_work cw t = Some (cancel_work_of w u) \<and>
            env t = fold (p_callback P) (h_callbacks s) (env s)" by auto
      then show ?thesis
        using None Some rt w by (cases r) (auto simp: cancel_work_of_def)
    next
      case None2: None
      then show ?thesis using spec None by simp
    qed
  qed
qed

text \<open>
  A URB that was cancelled while it waited is never handed to the user: whatever \<open>next_work\<close>
  returns afterwards is a different work, and the cancelled one is still in the inbox
  or freed, never in the processing list.
\<close>

theorem cancelled_never_delivered:
  assumes "hcd_inv s"
    and "List.find (has_handle s h) (h_inbox s) = Some p"
    and "cancel_process_urb_work (local_canceling_work P) (local_finishing_work P) h s = Some (r, s')"
    and "next_work s' = Some (r', t)"
  shows "hcd_inv t \<and> p \<notin> set (h_processing t) \<and> (\<forall>x more. r' = Inr (x, more) \<longrightarrow> x \<noteq> p) \<and>
    (p \<in> set (h_inbox t) \<or> heap t p = None)"
proof -
  from assms(2) have p: "p \<in> set (h_inbox s)" "has_handle s h p" using find_SomeD by fast+
  then obtain w where w: "load_work p s = Some w" "p \<noteq> 0" by (auto elim: has_handle_owned)
  have s': "hcd_inv s'" "heap s' = heap (mark p s)" "h_inbox s' = h_inbox s" "h_processing s' = h_processing s"
    using local_hooks.cancel_spec [OF assms(1), of P h] assms(2,3) by (auto split: if_splits)
  have c: "is_canceled s' p" by (rule is_canceled_mark [OF w(1) s'(2)])
  have dist: "distinct (h_inbox s' @ h_processing s')"
    using s'(1) by (simp add: hcd_inv_def works_ok_def hcd_owned_def)
  define gone live where gl: "gone = takeWhile (is_canceled s') (h_inbox s')"
    "live = dropWhile (is_canceled s') (h_inbox s')"
  have t: "hcd_inv t" "heap t = heap s' |` (- footprints s' gone)"
    "case live of
       [] \<Rightarrow> r' = Inr (0, False) \<and> h_inbox t = [] \<and> h_processing t = h_processing s'
     | w # rest \<Rightarrow> h_inbox t = rest \<and>
         (if fst (alloc_fails s') then r' = Inl BadAlloc \<and> h_processing t = h_processing s'
          else r' = Inr (w, rest \<noteq> []) \<and> h_processing t = h_processing s' @ [w])"
    using next_work_spec [OF s'(1) gl] assms(4) by auto
  have split: "h_inbox s' = gone @ live" by (simp add: gl)
  have pin: "p \<in> set gone \<or> p \<in> set live" using p(1) s'(3) split by (metis Un_iff set_append)
  have head: "live = x # rest \<Longrightarrow> x \<noteq> p" for x rest
    using c gl(2) by (metis hd_dropWhile list.sel(1) list.simps(3))
  have "p \<notin> set (h_processing s')" using dist p(1) s'(3) by auto
  moreover have "heap t p = None" if "p \<in> set gone"
  proof -
    have "work_object s' p" using s'(1,3) p(1) by (auto simp: hcd_inv_def works_ok_def hcd_owned_def)
    then have "p \<in> footprints s' gone"
      using that work_footprint_self by (auto simp: footprints_def)
    then show ?thesis using t(2) by (simp add: restrict_map_def)
  qed
  ultimately show ?thesis
    using t(1,3) head pin w(2) by (cases live) (auto split: if_splits)
qed

section \<open>Witnesses\<close>

text \<open>The sample controller with all its work still waiting.\<close>

definition sample_waiting :: "log local_hcd" where
  "sample_waiting = sample_local\<lparr>h_inbox := [5, 6], h_processing := []\<rparr>"

lemma sample_waiting_inv: "hcd_inv sample_waiting"
proof -
  have "works_ok sample_waiting [5, 6]"
    using sample_heap_ok(6) [of sample_waiting False] by (simp add: sample_waiting_def sample_local_def)
  then show ?thesis
    using sample_heap_ok(7) [of sample_waiting False]
    by (simp add: hcd_inv_def hcd_owned_def sample_waiting_def sample_local_def)
qed

lemma sample_local_work:
  assumes "s = sample_local \<or> s = sample_waiting"
  shows "load_work 5 s = Some \<lparr>w_port = 1, w_canceled = False, w_kind = ProcessUrbWork 3\<rparr>"
    "load_work 6 s = Some \<lparr>w_port = 1, w_canceled = False, w_kind = PortStatWork port_stat_default 0\<rparr>"
    "load_urb 3 s = Some sample_iso_urb" "packets_set s sample_iso_urb"
    "\<not> giveback_oom plain_platform s sample_iso_urb"
proof -
  have h: "heap s = sample_heap False" "brk s = 7" "oom s = [False, False, True]"
    using assms by (auto simp: sample_local_def sample_waiting_def)
  show "load_work 5 s = Some \<lparr>w_port = 1, w_canceled = False, w_kind = ProcessUrbWork 3\<rparr>"
    "load_work 6 s = Some \<lparr>w_port = 1, w_canceled = False, w_kind = PortStatWork port_stat_default 0\<rparr>"
    "load_urb 3 s = Some sample_iso_urb" "packets_set s sample_iso_urb"
    using sample_heap_ok [OF h(1)] by simp_all
  show "\<not> giveback_oom plain_platform s sample_iso_urb"
    using h(3) by (simp add: giveback_oom_def alloc_fails_def)
qed

theorem finish_work_gives_back_witness:
  "\<exists>t. finish_work (local_finishing_work plain_platform) 5 sample_local = Some (Inr (), t) \<and>
     h_processing t = [] \<and> heap t 1 = None \<and> heap t 3 = None \<and> heap t 6 \<noteq> None \<and>
     length (env t) = 1"
proof -
  note sample = sample_local_work [of sample_local]
  have p: "5 \<in> set (h_processing sample_local)" by (simp add: sample_local_def)
  have "giveback_ready plain_platform sample_local sample_iso_urb"
    using sample by (simp add: giveback_ready_def)
  with finish_work_gives_back [OF sample_local_inv(1) p, of _ 3 sample_iso_urb plain_platform] sample
  show ?thesis
    by (auto simp: sample_local_def sample_iso_urb_def sample_heap_def restrict_map_def
        sample_platform_simps)
qed

lemma sample_waiting_ready: "\<forall>p \<in> set (h_inbox sample_waiting). local_ready plain_platform p sample_waiting"
  using sample_local_work [of sample_waiting]
  by (simp add: local_ready_def sample_waiting_def giveback_ready_def)

lemma sample_waiting_find: "List.find (has_handle sample_waiting 7) (h_inbox sample_waiting) = Some 5"
proof -
  have "has_handle sample_waiting 7 5"
    using sample_local_work [of sample_waiting] by (simp add: has_handle_def sample_iso_urb_def zero_urb_def)
  then show ?thesis by (simp add: sample_waiting_def)
qed

theorem cancel_urb_correct_witness:
  "\<exists>t. cancel_process_urb_work (local_canceling_work plain_platform)
       (local_finishing_work plain_platform) 7 sample_waiting = Some (Inr False, t) \<and>
     is_canceled t 5 \<and> h_inbox t = [5, 6]"
proof -
  have "local_ready plain_platform 5 sample_waiting"
    using sample_waiting_ready by (simp add: sample_waiting_def)
  with cancel_urb_correct [OF sample_waiting_inv, of plain_platform 7] show ?thesis
    by (auto simp: sample_waiting_find) (auto simp: sample_waiting_def)
qed

theorem cancelled_never_delivered_witness:
  "\<exists>s' r t. cancel_process_urb_work (local_canceling_work plain_platform)
        (local_finishing_work plain_platform) 7 sample_waiting = Some (Inr False, s') \<and>
     next_work s' = Some (r, t) \<and> 5 \<notin> set (h_processing t)"
proof -
  have "local_ready plain_platform 5 sample_waiting"
    using sample_waiting_ready by (simp add: sample_waiting_def)
  with local_hooks.cancel_spec [OF sample_waiting_inv, of plain_platform 7]
  obtain s' where s': "cancel_process_urb_work (local_canceling_work plain_platform)
        (local_finishing_work plain_platform) 7 sample_waiting = Some (Inr False, s')" "hcd_inv s'"
    by (auto simp: sample_waiting_find)
  moreover obtain r t where "next_work s' = Some (r, t)" using next_work_spec [OF s'(2) refl refl] by blast
  moreover have "5 \<notin> set (h_processing t)"
    using cancelled_never_delivered [OF sample_waiting_inv sample_waiting_find
        s'(1) \<open>next_work s' = Some (r, t)\<close>] by blast
  ultimately show ?thesis by blast
qed

end
