(* ===== verification/Local_Alloc.thy ===== *)
theory Local_Alloc
  imports Local_Hooks
begin

text \<open>
  How the background thread gets the memory for a URB (\<open>alloc_urb\<close>): it waits as long as it
  takes, for the data buffer, the packet array and the object. Every wait ends, because each
  one consumes a failed allocation or is broken off by the request to stop; what is allocated is
  fresh, so that no work in a queue changes.
\<close>

section \<open>Waiting\<close>

text \<open>The members that \<open>bg_work\<close> never changes.\<close>

definition steady :: "('e, 'z) local_hcd_scheme \<Rightarrow> ('e, 'z) local_hcd_scheme \<Rightarrow> bool" where
  "steady s t \<longleftrightarrow> h_callbacks t = h_callbacks s \<and> h_bg_thread t = h_bg_thread s \<and>
     h_port_count t = h_port_count s \<and> l_fd t = l_fd s \<and> l_port_block t = l_port_block s"

lemma steady_refl: "steady s s"
  by (simp add: steady_def)

lemma steady_trans: "steady r s \<Longrightarrow> steady s t \<Longrightarrow> steady r t"
  by (simp add: steady_def)

lemma paused_steady: "paused s t \<Longrightarrow> steady s t"
  using paused_local(2,5) [of s t] by (simp add: steady_def paused_def)

lemma memory_only_steady: "memory_only s t \<Longrightarrow> steady s t"
  using more_hcd [of t s] memory_only_local(2,5) [of s t] by (simp add: steady_def memory_only_def)

text \<open>As \<open>paused\<close>, and nothing that was allocated before is touched.\<close>

definition waited :: "('e, 'z) hcd_scheme \<Rightarrow> ('e, 'z) hcd_scheme \<Rightarrow> bool" where
  "waited s t \<longleftrightarrow> paused s t \<and> heap_ok t \<and> heap s \<subseteq>\<^sub>m heap t \<and> length (oom t) \<le> length (oom s)"

lemma waited_refl: "heap_ok s \<Longrightarrow> waited s s"
  by (simp add: waited_def paused_refl)

lemma waited_trans:
  assumes "works_ok r (hcd_owned r)" "waited r s" "waited s t" shows "waited r t"
  using assms paused_trans [OF assms(1), of s t] map_le_trans [of "heap r" "heap s" "heap t"]
  by (simp add: waited_def)

lemma waited_usleep: "heap_ok s \<Longrightarrow> waited s (usleep s)"
  using usleep_paused [of s] by (simp add: waited_def usleep_works)

lemma keeps_extend:
  assumes "works_ok s (hcd_owned s)" "heap s \<subseteq>\<^sub>m heap t" shows "keeps s t"
proof -
  have "heap t x = heap s x" if "x \<in> footprints s (hcd_owned s)" for x
    using footprints_live [OF assms(1) that] assms(2) by (metis map_le_def domIff)
  moreover have "heap t x = heap s x" if "x \<in> tables s" for x
    using tables_live [OF that] assms(2) by (metis map_le_def domIff)
  ultimately show ?thesis by (auto simp: keeps_def)
qed

lemma waited_memory:
  assumes "works_ok s (hcd_owned s)" "memory_only s t" "heap_ok t" "heap s \<subseteq>\<^sub>m heap t"
    "length (oom t) \<le> length (oom s)"
  shows "waited s t"
  using assms paused_memory [OF assms(2) keeps_extend [OF assms(1,4)]] by (simp add: waited_def)

lemma waited_works:
  assumes "waited s t" "works_ok s ps" shows "works_ok t ps" "footprints t ps = footprints s ps"
  using assms works_ok_extend [of s ps t] by (simp_all add: waited_def)

lemma waited_owned: "waited s t \<Longrightarrow> hcd_owned t = hcd_owned s"
  by (simp add: waited_def paused_owned)

lemma waited_ok: "waited s t \<Longrightarrow> heap_ok t"
  by (simp add: waited_def)

section \<open>Arrays\<close>

lemma new_array_oom:
  assumes "heap_ok s" "0 \<le>s n" "new_array mk n s = (r, t)"
  shows "length (oom t) \<le> length (oom s)" "isl r \<Longrightarrow> length (oom t) < length (oom s)"
proof -
  obtain p q where pq: "alloc (mk (cells n)) s = (p, q)" by fastforce
  then have "r = (if p = 0 then Inl BadAlloc else Inr p)" "t = q"
    using assms(2,3) by (auto simp: new_array_def sless_zero_iff split: if_splits)
  then show "length (oom t) \<le> length (oom s)" "isl r \<Longrightarrow> length (oom t) < length (oom s)"
    using alloc_oom [OF pq assms(1)] by (auto split: if_splits)
qed

text \<open>The outcome of waiting for a block \<open>b\<close>: the order to stop, or a fresh block.\<close>

definition got_block :: "block \<Rightarrow> ('e, 'z) hcd_scheme \<Rightarrow> nat \<Rightarrow> ('e, 'z) hcd_scheme \<Rightarrow> bool" where
  "got_block b s p t \<longleftrightarrow> waited s t \<and>
     (if p = 0 then h_thread_shutdown t
      else heap s p = None \<and> heap t p = Some b)"

lemma new_retry_run:
  assumes "heap_ok s" "works_ok s (hcd_owned s)" "0 \<le>s n"
  shows "\<exists>p t. new_retry mk n s = Some (p, t) \<and> got_block (mk (cells n)) s p t"
  using assms
proof (induction "length (oom s)" arbitrary: s rule: less_induct)
  case less
  obtain r s1 where na: "new_array mk n s = (r, s1)" by fastforce
  note o = new_array_oom [OF less.prems(1,3) na]
  define s2 where "s2 = usleep s1"
  have unf: "new_retry mk n s = (case r of
       Inr p \<Rightarrow> Some (p, s1)
     | Inl e \<Rightarrow> if h_thread_shutdown s2 then Some (0, s2) else new_retry mk n s2)"
    unfolding s2_def by (subst new_retry.simps) (simp add: na Let_def split: sum.split)
  from less.prems(1,3) na show ?case
  proof (cases rule: new_array_cases)
    case fail
    then have l: "length (oom s2) < length (oom s)" using o(2) by (simp add: s2_def)
    have w: "waited s s2"
      using waited_trans [OF less.prems(2) waited_memory waited_usleep, of s1] fail o(1) less.prems(2)
      by (simp add: s2_def)
    have ok: "heap_ok s2" "works_ok s2 (hcd_owned s2)"
      using w less.prems(2) waited_works(1) [OF w] waited_owned [OF w] by (simp_all add: waited_ok)
    show ?thesis
    proof (cases "h_thread_shutdown s2")
      case True
      then show ?thesis using unf fail(1) w by (simp add: got_block_def)
    next
      case False
      from less.hyps [OF l ok less.prems(3)] obtain p t
        where t: "new_retry mk n s2 = Some (p, t)" "got_block (mk (cells n)) s2 p t" by blast
      have "heap s p = None" if "heap s2 p = None"
        using that w by (auto simp: waited_def map_le_def dom_def)
      then have "got_block (mk (cells n)) s p t"
        using t(2) waited_trans [OF less.prems(2) w] by (auto simp: got_block_def split: if_splits)
      then show ?thesis using t(1) unf fail(1) False by auto
    qed
  next
    case ok
    then have "heap s \<subseteq>\<^sub>m heap s1" by (auto simp: map_le_def)
    then have "got_block (mk (cells n)) s (brk s) s1"
      using ok o(1) less.prems(2) by (simp add: got_block_def waited_memory)
    then show ?thesis using unf ok(1) by simp
  qed
qed

section \<open>The URB object\<close>

text \<open>What the constructor that takes ownership makes of its argument.\<close>

definition own_check :: "'y abi_scheme \<Rightarrow> usb_vhci_urb \<Rightarrow> exn + usb_vhci_urb" where
  "own_check k u =
     (case urb_chk k u of
        Inl e \<Rightarrow> Inl e
      | Inr v \<Rightarrow>
          if u_buffer_length v = 0 \<and> u_buffer v \<noteq> 0 \<or> u_packet_count v = 0 \<and> u_iso_packets v \<noteq> 0
          then Inl (InvalidArgument ''urb'') else Inr v)"

lemma urb_own_ctor_check: "urb_own_ctor k u True s = Some (own_check k u, s)"
  by (simp add: urb_own_ctor_def own_check_def split: sum.split)

lemma new_urb_cases:
  assumes "heap_ok s"
  obtains (fail) t where
      "new_object_nothrow (\<lambda>s. map_option urb_block (urb_own_ctor P w True s)) s = Some (Inr 0, t)"
      "heap t = heap s" "heap_ok t" "memory_only s t" "length (oom t) < length (oom s)"
  | (throw) e t where
      "new_object_nothrow (\<lambda>s. map_option urb_block (urb_own_ctor P w True s)) s = Some (Inl e, t)"
      "own_check P w = Inl e"
      "heap t = heap s" "heap_ok t" "memory_only s t" "length (oom t) \<le> length (oom s)"
  | (ok) p uo t where
      "new_object_nothrow (\<lambda>s. map_option urb_block (urb_own_ctor P w True s)) s = Some (Inr p, t)"
      "own_check P w = Inr uo" "p \<noteq> 0" "heap s p = None" "heap t = (heap s)(p \<mapsto> UrbObj uo)"
      "heap_ok t" "memory_only s t" "length (oom t) \<le> length (oom s)"
proof -
  obtain p t where al: "alloc (Bytes []) s = (p, t)" by fastforce
  note o = alloc_oom [OF al assms]
  from assms al show thesis
  proof (cases rule: alloc_cases)
    case fail
    then show thesis using al o that(1) [of t]
      by (simp add: new_object_nothrow_def memory_only_def)
  next
    case ok
    show thesis
    proof (cases "own_check P w")
      case (Inl e)
      let ?t = "t\<lparr>heap := heap s\<rparr>"
      have "(heap t)(p := None) = heap s" using ok by (simp add: fun_upd_idem)
      then have "dealloc p t = Some ?t" using ok by (simp add: dealloc_Some)
      moreover have "heap_ok ?t" using ok assms by (auto simp: heap_ok_def less_Suc_eq)
      ultimately show thesis using Inl al ok o(2) that(2) [of e ?t]
        by (simp add: new_object_nothrow_def construct_def urb_own_ctor_check urb_block_def memory_only_def)
    next
      case (Inr uo)
      let ?t = "t\<lparr>heap := (heap s)(p \<mapsto> UrbObj uo)\<rparr>"
      have "heap_ok ?t" using ok heap_ok_update [of t p "Some (UrbObj uo)"] by simp
      then show thesis using Inr al ok o(2) that(3) [of p ?t uo]
        by (simp add: new_object_nothrow_def construct_def urb_own_ctor_check urb_block_def store_def
            memory_only_def)
    qed
  qed
qed

text \<open>The outcome: an exception, the order to stop, or a fresh object.\<close>

definition got_urb ::
  "'y abi_scheme \<Rightarrow> usb_vhci_urb \<Rightarrow> ('e, 'z) hcd_scheme \<Rightarrow> exn + nat \<Rightarrow> ('e, 'z) hcd_scheme \<Rightarrow> bool"
where
  "got_urb P w s r t \<longleftrightarrow> waited s t \<and>
     (case r of
        Inl e \<Rightarrow> own_check P w = Inl e
      | Inr p \<Rightarrow>
          if p = 0 then h_thread_shutdown t
          else heap s p = None \<and>
            (case own_check P w of Inl _ \<Rightarrow> False | Inr uo \<Rightarrow> heap t p = Some (UrbObj uo)))"

lemma waited_fresh: "waited s t \<Longrightarrow> heap t p = None \<Longrightarrow> heap s p = None"
  by (auto simp: waited_def map_le_def dom_def)

lemma new_urb_retry_run:
  assumes "heap_ok s" "works_ok s (hcd_owned s)"
  shows "\<exists>r t. new_urb_retry P w s = Some (r, t) \<and> got_urb P w s r t"
  using assms
proof (induction "length (oom s)" arbitrary: s rule: less_induct)
  case less
  have unf: "new_urb_retry P w s = do {
     (r, s) \<leftarrow> new_object_nothrow (\<lambda>s. map_option urb_block (urb_own_ctor P w True s)) s;
     (case r of
        Inl e \<Rightarrow> Some (Inl e, s)
      | Inr u \<Rightarrow>
          if u \<noteq> 0 then Some (Inr u, s)
          else if h_thread_shutdown (usleep s) then Some (Inr 0, usleep s)
          else new_urb_retry P w (usleep s)) }"
    by (subst new_urb_retry.simps) (simp only: Let_def)
  from less.prems(1) show ?case
  proof (cases rule: new_urb_cases [where P = P and w = w])
    case (fail t)
    let ?t = "usleep t"
    have w: "waited s ?t"
      using waited_trans [OF less.prems(2) waited_memory waited_usleep, of t] fail less.prems(2) by simp
    have ok: "heap_ok ?t" "works_ok ?t (hcd_owned ?t)" "length (oom ?t) < length (oom s)"
      using w less.prems(2) waited_works(1) [OF w] waited_owned [OF w] fail(5)
      by (simp_all add: waited_ok)
    show ?thesis
    proof (cases "h_thread_shutdown ?t")
      case True
      then show ?thesis using unf fail(1) w by (simp add: got_urb_def)
    next
      case False
      from less.hyps [OF ok(3,1,2)] obtain r t'
        where t': "new_urb_retry P w ?t = Some (r, t')" "got_urb P w ?t r t'" by blast
      have "got_urb P w s r t'"
        using t'(2) waited_trans [OF less.prems(2) w] waited_fresh [OF w]
        by (auto simp: got_urb_def split: sum.splits if_splits)
      then show ?thesis using t'(1) unf fail(1) False by auto
    qed
  next
    case (throw e t)
    then show ?thesis using unf less.prems(2) by (simp add: got_urb_def waited_memory)
  next
    case (ok p uo t)
    then have "heap s \<subseteq>\<^sub>m heap t" by (auto simp: map_le_def)
    with ok show ?thesis using unf less.prems(2) by (simp add: got_urb_def waited_memory)
  qed
qed

section \<open>Everything a URB needs\<close>

text \<open>
  Messages the constructor refuses: \<open>bg_work\<close> has no handler for the exception. The pointers of
  \<open>w\<close> are null where there is nothing to point to.
\<close>

definition bad_urb :: "'y abi_scheme \<Rightarrow> usb_vhci_urb \<Rightarrow> bool" where
  "bad_urb k w \<longleftrightarrow>
     (if u_type w = URB_TYPE_ISO k then u_packet_count w \<noteq> 0 \<and> u_buffer_length w = 0
      else u_packet_count w \<noteq> 0 \<or>
        u_type w \<notin> {URB_TYPE_INT k, URB_TYPE_CONTROL k, URB_TYPE_BULK k})"

definition message_ok :: "usb_vhci_urb \<Rightarrow> bool" where
  "message_ok w \<longleftrightarrow> 0 \<le>s u_buffer_length w \<and> 0 \<le>s u_packet_count w \<and>
     (u_buffer_length w = 0 \<longrightarrow> u_buffer w = 0) \<and> (u_packet_count w = 0 \<longrightarrow> u_iso_packets w = 0)"

definition same_message :: "usb_vhci_urb \<Rightarrow> usb_vhci_urb \<Rightarrow> bool" where
  "same_message w v \<longleftrightarrow> v = w\<lparr>u_buffer := u_buffer v, u_iso_packets := u_iso_packets v\<rparr>"

definition pointed :: "usb_vhci_urb \<Rightarrow> bool" where
  "pointed w \<longleftrightarrow> (u_buffer_length w = 0 \<longleftrightarrow> u_buffer w = 0) \<and> (u_packet_count w = 0 \<longleftrightarrow> u_iso_packets w = 0)"

lemma same_message_refl: "same_message w w"
  by (simp add: same_message_def)

lemma same_message_fields:
  assumes "same_message w v"
  shows "u_buffer_length v = u_buffer_length w" "u_packet_count v = u_packet_count w"
    "u_type v = u_type w" "u_devadr v = u_devadr w" "u_handle v = u_handle w" "u_epadr v = u_epadr w"
    "u_bmRequestType v = u_bmRequestType w" "u_bRequest v = u_bRequest w" "u_wValue v = u_wValue w"
    "u_status v = u_status w" "bad_urb k v = bad_urb k w" "is_set_address P v = is_set_address P w"
    "message_ok w \<Longrightarrow> pointed v \<Longrightarrow> message_ok v"
  using assms unfolding same_message_def
  by (cases w; cases v; simp add: bad_urb_def is_set_address_def is_control_def
      get_endpoint_number_def message_ok_def pointed_def)+

lemma same_message_trans:
  assumes "same_message u v" "same_message v w" shows "same_message u w"
  using assms unfolding same_message_def by (cases u; cases v; cases w) simp

lemma own_check_pointed:
  "pointed w \<Longrightarrow> own_check k w = (if bad_urb k w then Inl (InvalidArgument ''urb'') else Inr w)"
  by (cases w) (auto simp: own_check_def urb_chk_def bad_urb_def pointed_def split: if_splits)

text \<open>A fresh URB object at \<open>u\<close> with fresh, unwritten blocks.\<close>

definition fresh_object ::
  "('e, 'z) hcd_scheme \<Rightarrow> nat \<Rightarrow> usb_vhci_urb \<Rightarrow> ('e, 'z) hcd_scheme \<Rightarrow> bool" where
  "fresh_object s u v t \<longleftrightarrow> pointed v \<and> heap s u = None \<and> heap t u = Some (UrbObj v) \<and>
     (\<forall>x \<in> urb_blocks v. heap s x = None) \<and>
     (u_buffer v \<noteq> 0 \<longrightarrow> heap t (u_buffer v) = Some (Bytes (cells (u_buffer_length v)))) \<and>
     (u_iso_packets v \<noteq> 0 \<longrightarrow> heap t (u_iso_packets v) = Some (Packets (cells (u_packet_count v))))"

definition alloc_urb_result ::
  "'y abi_scheme \<Rightarrow> usb_vhci_urb \<Rightarrow> ('e, 'z) hcd_scheme \<Rightarrow> exn + nat \<Rightarrow> usb_vhci_urb \<Rightarrow>
   ('e, 'z) hcd_scheme \<Rightarrow> bool" where
  "alloc_urb_result P w s r v t \<longleftrightarrow> waited s t \<and> same_message w v \<and>
     (case r of
        Inl e \<Rightarrow> e = InvalidArgument ''urb'' \<and> bad_urb P w
      | Inr u \<Rightarrow> if u = 0 then h_thread_shutdown t
                 else \<not> bad_urb P w \<and> fresh_object s u v t)"

text \<open>One of the two arrays: nothing to do, or a wait for a block.\<close>

lemma array_part:
  assumes "heap_ok s" "works_ok s (hcd_owned s)" "0 \<le>s n"
  obtains go p t where
    "(if n \<noteq> 0 then do { (p, s) \<leftarrow> new_retry mk n s; Some (p \<noteq> 0, f p, s) } else Some (True, w, s)) =
       Some (go, if n \<noteq> 0 then f p else w, t)"
    "waited s t" "go \<longleftrightarrow> n = 0 \<or> p \<noteq> 0" "\<not> go \<longrightarrow> h_thread_shutdown t"
    "n \<noteq> 0 \<and> p \<noteq> 0 \<longrightarrow> heap s p = None \<and> heap t p = Some (mk (cells n))"
proof (cases "n = 0")
  case True
  then show thesis using that [of True 0 s] waited_refl [OF assms(1)] by simp
next
  case False
  from new_retry_run [OF assms(1-3), of mk] obtain p t where
    "new_retry mk n s = Some (p, t)" "got_block (mk (cells n)) s p t" by blast
  then show thesis using that [of "p \<noteq> 0" p t] False by (auto simp: got_block_def split: if_splits)
qed

lemma waited_persist: "waited s t \<Longrightarrow> heap s p = Some b \<Longrightarrow> heap t p = Some b"
  by (auto simp: waited_def map_le_def dom_def)

lemma alloc_urb_run:
  assumes ok: "heap_ok s" "works_ok s (hcd_owned s)" and w: "message_ok w"
  shows "\<exists>r v t. alloc_urb P w s = Some (r, v, t) \<and> alloc_urb_result P w s r v t"
proof -
  obtain go1 b s1 where b:
    "(if u_buffer_length w \<noteq> 0 then do { (p, s) \<leftarrow> new_retry Bytes (u_buffer_length w) s;
        Some (p \<noteq> 0, w\<lparr>u_buffer := p\<rparr>, s) } else Some (True, w, s)) =
       Some (go1, if u_buffer_length w \<noteq> 0 then w\<lparr>u_buffer := b\<rparr> else w, s1)"
    "waited s s1" "go1 \<longleftrightarrow> u_buffer_length w = 0 \<or> b \<noteq> 0" "\<not> go1 \<longrightarrow> h_thread_shutdown s1"
    "u_buffer_length w \<noteq> 0 \<and> b \<noteq> 0 \<longrightarrow>
       heap s b = None \<and> heap s1 b = Some (Bytes (cells (u_buffer_length w)))"
    by (rule array_part [OF ok, of "u_buffer_length w" Bytes "\<lambda>p. w\<lparr>u_buffer := p\<rparr>" w])
      (use w in \<open>auto simp: message_ok_def\<close>)
  define w1 where "w1 = (if u_buffer_length w \<noteq> 0 then w\<lparr>u_buffer := b\<rparr> else w)"
  have w1: "same_message w w1" "u_iso_packets w1 = u_iso_packets w" "u_packet_count w1 = u_packet_count w"
    by (simp_all add: w1_def same_message_def)
  have ok1: "heap_ok s1" "works_ok s1 (hcd_owned s1)"
    using waited_ok [OF b(2)] waited_works(1) [OF b(2) ok(2)] waited_owned [OF b(2)] by simp_all
  obtain go2 p s2 where p:
    "(if u_packet_count w1 \<noteq> 0 then do { (p, s) \<leftarrow> new_retry Packets (u_packet_count w1) s1;
        Some (p \<noteq> 0, w1\<lparr>u_iso_packets := p\<rparr>, s) } else Some (True, w1, s1)) =
       Some (go2, if u_packet_count w1 \<noteq> 0 then w1\<lparr>u_iso_packets := p\<rparr> else w1, s2)"
    "waited s1 s2" "go2 \<longleftrightarrow> u_packet_count w1 = 0 \<or> p \<noteq> 0" "\<not> go2 \<longrightarrow> h_thread_shutdown s2"
    "u_packet_count w1 \<noteq> 0 \<and> p \<noteq> 0 \<longrightarrow>
       heap s1 p = None \<and> heap s2 p = Some (Packets (cells (u_packet_count w1)))"
    by (rule array_part [OF ok1, of "u_packet_count w1" Packets
          "\<lambda>p. w1\<lparr>u_iso_packets := p\<rparr>" w1])
      (use w w1 in \<open>auto simp: message_ok_def\<close>)
  define w2 where "w2 = (if u_packet_count w1 \<noteq> 0 then w1\<lparr>u_iso_packets := p\<rparr> else w1)"
  have w2: "same_message w w2" by (simp add: w2_def w1_def same_message_def)
  have s2: "waited s s2" by (rule waited_trans [OF ok(2) b(2) p(2)])
  have ok2: "heap_ok s2" "works_ok s2 (hcd_owned s2)"
    using waited_ok [OF s2] waited_works(1) [OF s2 ok(2)] waited_owned [OF s2] by simp_all
  from new_urb_retry_run [OF ok2] obtain r t where
    u: "new_urb_retry P w2 s2 = Some (r, t)" "got_urb P w2 s2 r t" by blast
  have t: "waited s t" using u(2) waited_trans [OF ok(2) s2] by (simp add: got_urb_def)
  have run: "alloc_urb P w s =
      (if \<not> go1 then Some (Inr 0, w1, s1) else if \<not> go2 then Some (Inr 0, w2, s2) else Some (r, w2, t))"
    unfolding alloc_urb_def b(1)
    by (simp add: p(1) u(1) flip: w1_def w2_def)
  show ?thesis
  proof (cases "go1 \<and> go2")
    case False
    then show ?thesis
      using run b(2,4) p(4) s2 w1(1) w2
      by (cases go1) (simp_all add: alloc_urb_result_def)
  next
    case True
    have pt: "pointed w2"
      using True b(3) p(3) w by (auto simp: w1_def w2_def pointed_def message_ok_def)
    have bb: "u_buffer w2 \<noteq> 0 \<longrightarrow>
        heap s (u_buffer w2) = None \<and> heap s1 (u_buffer w2) = Some (Bytes (cells (u_buffer_length w2)))"
      using b(5) w by (auto simp: w1_def w2_def message_ok_def)
    have pp: "u_iso_packets w2 \<noteq> 0 \<longrightarrow> heap s1 (u_iso_packets w2) = None \<and>
        heap s2 (u_iso_packets w2) = Some (Packets (cells (u_packet_count w2)))"
      using p(5) w by (auto simp: w1_def w2_def message_ok_def)
    have ut: "waited s2 t" using u(2) by (simp add: got_urb_def)
    have "fresh_object s x w2 t" if "r = Inr x" "x \<noteq> 0" "\<not> bad_urb P w2" for x
      using that u(2) bb pp pt waited_fresh [OF b(2)] waited_fresh [OF s2] waited_persist [OF p(2)]
        waited_persist [OF ut]
      by (auto simp: fresh_object_def got_urb_def own_check_pointed urb_blocks_def)
    then have "alloc_urb_result P w s r w2 t"
      using u(2) t w2 pt same_message_fields(11) [OF w2, of P]
      by (auto simp: alloc_urb_result_def got_urb_def own_check_pointed split: sum.splits if_splits)
    then show ?thesis using run True by simp
  qed
qed

end
