(* ===== verification/Local_Observed.thy ===== *)
theory Local_Observed
  imports Local_Alloc
begin

text \<open>
  What the work on a URB message does to the environment: operations on memory leave it alone, and
  whatever does not change when data is fetched and callbacks are called does not change at all.
\<close>

section \<open>What the work on a message does to the environment\<close>

text \<open>The operations on memory do not touch the environment.\<close>

named_theorems env_of

lemma heap_env [env_of]:
  "alloc_fails s = (fails, t) \<Longrightarrow> env t = env s"
  "dealloc p s = Some t \<Longrightarrow> env t = env s"
  "store p b s = Some t \<Longrightarrow> env t = env s"
  by (auto simp: alloc_fails_def dealloc_def store_def split: list.splits if_splits option.splits)

lemma alloc_env [env_of]:
  "alloc b s = (p, t) \<Longrightarrow> env t = env s"
  "malloc b s = (p, t) \<Longrightarrow> env t = env s"
  by (auto simp: alloc_def malloc_def alloc_fails_def split: list.splits if_splits prod.splits bool.splits)

lemma array_env [env_of]:
  "malloc_array f n s = (p, t) \<Longrightarrow> env t = env s"
  "new_array f n s = (r, t) \<Longrightarrow> env t = env s"
  by (auto simp: malloc_array_def new_array_def dest: alloc_env split: if_splits prod.splits)

lemma copy_env [env_of]:
  "copy_to_user_bytes p bs s = Some t \<Longrightarrow> env t = env s"
  "copy_to_user_packets p ps s = Some t \<Longrightarrow> env t = env s"
  "fetch_iso_packet u p i s = Some t \<Longrightarrow> env t = env s"
  by (auto simp: copy_to_user_bytes_def copy_to_user_packets_def fetch_iso_packet_def
      dest: heap_env split: bind_splits if_splits)

lemma delete_urb_env [env_of]:
  "urb_dtor u s = Some t \<Longrightarrow> env t = env s"
  "delete_urb p s = Some t \<Longrightarrow> env t = env s"
  by (auto simp: urb_dtor_def delete_urb_def dest!: heap_env split: bind_splits if_splits)

lemma delete_env [env_of]:
  "process_urb_work_dtor w s = Some t \<Longrightarrow> env t = env s"
  "delete_work p s = Some t \<Longrightarrow> env t = env s"
  by (auto simp: process_urb_work_dtor_def delete_work_def dest!: heap_env delete_urb_env
      split: bind_splits if_splits work_kind.splits)

lemma construct_env [env_of]:
  "construct p (r, s) = Some (r', t) \<Longrightarrow> env t = env s"
  "construct_at p x s = Some (r', t) \<Longrightarrow> env t = env s"
  by (auto simp: construct_def construct_at_def dest: heap_env split: bind_splits sum.splits)

lemma new_work_env [env_of]:
  "new_object_nothrow (work_block x) s = Some (r, t) \<Longrightarrow> env t = env s"
  by (auto simp: new_object_nothrow_def work_block_def dest!: alloc_env construct_env
      split: prod.splits if_splits sum.splits)

lemma own_ctor_env: "map_option urb_block (urb_own_ctor k w True s) = Some (r, t) \<Longrightarrow> t = s"
  by (cases "own_check k w") (simp_all add: urb_own_ctor_check urb_block_def)

lemma new_urb_env [env_of]:
  "new_object_nothrow (\<lambda>s. map_option urb_block (urb_own_ctor k w True s)) s = Some (r, t) \<Longrightarrow> env t = env s"
  by (auto simp: new_object_nothrow_def simp del: map_option_eq_Some dest!: alloc_env construct_env own_ctor_env
      split: prod.split_asm if_split_asm bind_splits)

lemma new_retry_env: assumes "new_retry mk n s = Some r" shows "env (snd r) = env s"
proof (rule new_retry.raw_induct [of "\<lambda>mk n s r. env (snd r) = env s", OF _ assms])
  fix f mk n and s :: "('e, 'z) hcd_scheme" and r
  assume 1: "\<And>n s b y. f n s b = Some y \<Longrightarrow> env (snd y) = env b"
    "(let rs = new_array mk n s
      in case fst rs of
           Inr p \<Rightarrow> Some (p, snd rs)
         | Inl e \<Rightarrow> let s = usleep (snd rs) in if h_thread_shutdown s then Some (0, s) else f mk n s) = Some r"
  show "env (snd r) = env s"
    using 1(2) by (cases "new_array mk n s") (auto simp: Let_def dest!: 1(1) array_env split: sum.splits if_splits)
qed

lemma new_urb_retry_env: assumes "new_urb_retry P w s = Some r" shows "env (snd r) = env s"
proof -
  have "env (snd r) = env (snd ((P, w), s))"
  proof (rule new_urb_retry.raw_induct [of "\<lambda>a r. env (snd r) = env (snd a)", OF _ assms])
    fix f P w and s :: "('a, 'b) hcd_scheme" and r
    assume ih: "\<And>P w s r. f P w s = Some r \<Longrightarrow> env (snd r) = env (snd ((P, w), s))"
      and run: "do {
         (r, s) \<leftarrow> new_object_nothrow (\<lambda>s. map_option urb_block (urb_own_ctor P w True s)) s;
         (case r of
            Inl e \<Rightarrow> Some (Inl e, s)
          | Inr u \<Rightarrow>
              if u \<noteq> 0 then Some (Inr u, s)
              else let s = usleep s in if h_thread_shutdown s then Some (Inr 0, s) else f P w s) } = Some r"
    show "env (snd r) = env (snd ((P, w), s))"
      using run by (auto simp: Let_def dest!: ih new_urb_env split: sum.splits if_splits bind_splits)
  qed
  then show ?thesis by simp
qed

lemma alloc_urb_env [env_of]: "alloc_urb P w s = Some (r, v, t) \<Longrightarrow> env t = env s"
  by (auto simp: alloc_urb_def dest!: new_retry_env new_urb_retry_env split: bind_splits if_splits)

lemma enqueue_env [env_of]: "enqueue_work p s = (r, t) \<Longrightarrow> env t = env s"
  by (auto simp: enqueue_work_def alloc_fails_def split: list.splits bool.splits)

lemma handle_set_address_env [env_of]: "handle_set_address P i u s = Some t \<Longrightarrow> env t = env s"
  by (auto simp: handle_set_address_def Let_def set_port_entry_def dest!: heap_env split: bind_splits if_splits)

text \<open>What is observed of the environment does not change when data is fetched and callbacks are called.\<close>

definition overlooks :: "'e platform \<Rightarrow> ('e \<Rightarrow> 'b) \<Rightarrow> bool" where
  "overlooks P f \<longleftrightarrow> (\<forall>fd q e. f (fst (p_fetch_data P fd q e)) = f e) \<and> (\<forall>c e. f (p_callback P c e) = f e)"

lemma overlooks_callbacks: "overlooks P f \<Longrightarrow> f (fold (p_callback P) cs e) = f e"
  by (induction cs arbitrary: e) (simp_all add: overlooks_def)

lemma syscall_env: "syscall g s = (r, t) \<Longrightarrow> env t = fst (g (env s))"
  by (auto simp: syscall_def split: prod.splits sum.splits)

lemma fetch_data_observed:
  assumes "overlooks P f" "usb_vhci_fetch_data P fd u s = Some (r, t)" shows "f (env t) = f (env s)"
proof -
  have loop: "env t = env s" if "for_upto i n (fetch_iso_packet u p) s = Some t" for i n p s t
    using that by (rule for_upto_preserves [where f = env, rotated]) (rule copy_env)
  have "f (fst (p_fetch_data P fd q e)) = f e" for q e using assms(1) by (simp add: overlooks_def)
  then show ?thesis
    using assms(2)
    by (auto simp: usb_vhci_fetch_data_def Let_def dest!: env_of syscall_env loop
        split: bind_splits if_splits prod.splits option.splits)
qed

lemma process_urb_attempt_observed:
  assumes "overlooks P f" "process_urb_attempt P w u p s = Some (r, q, t)" shows "f (env t) = f (env s)"
  using assms overlooks_callbacks [OF assms(1)]
  by (auto simp: process_urb_attempt_def Let_def set_port_entry_def on_work_enqueued_def
      dest!: env_of
      split: bind_splits if_splits prod.splits sum.splits)

lemma bg_process_urb_observed:
  assumes "overlooks P f" and run: "bg_process_urb P res w p nomem s = Some r"
  shows "f (env (snd r)) = f (env s)"
proof -
  let ?Q = "\<lambda>(((((P, res), w), p), nomem), s) r. overlooks P f \<longrightarrow> f (env (snd r)) = f (env s)"
  have "?Q (((((P, res), w), p), nomem), s) r"
  proof (rule bg_process_urb.raw_induct [of ?Q, OF _ run])
    fix bg P res w puw nomem and s :: "('a, 'c) local_hcd_scheme" and x
    assume ih: "\<And>P res w puw nomem s x. bg P res w puw nomem s = Some x \<Longrightarrow> ?Q (((((P, res), w), puw), nomem), s) x"
      and run: "(let s = if nomem then usleep s else s
      in if nomem \<and> h_thread_shutdown s
         then do { s \<leftarrow> delete_work puw s; Some (Inr (), s) }
         else do {
           (r, w, s) \<leftarrow> alloc_urb P w s;
           (case r of
              Inl e \<Rightarrow> Some (Inl e, s)
            | Inr u \<Rightarrow>
                if u = 0 then Some (Inr (), s)
                else do {
                  (res, s) \<leftarrow>
                    (if res \<noteq> 0 then do { uo \<leftarrow> load_urb u s; usb_vhci_fetch_data P (l_fd s) uo s }
                     else Some (res, s));
                  if res = - 1 then do { s \<leftarrow> delete_urb u s; Some (Inr (), s) }
                  else do {
                    (r, puw, s) \<leftarrow> process_urb_attempt P w u puw s;
                    (case r of
                       Inl e \<Rightarrow> Some (Inl e, s)
                     | Inr ok \<Rightarrow> if ok then Some (Inr (), s) else bg P res w puw True s) } }) }) = Some x"
    define s1 where "s1 = (if nomem then usleep s else s)"
    have s1: "env s1 = env s" by (simp add: s1_def)
    have ih': "f (env (snd x)) = f (env t)" if "bg P res w puw True t = Some x" "overlooks P f" for P res w puw t
      using ih [OF that(1)] that(2) by simp
    have "f (env (snd x)) = f (env s)" if o: "overlooks P f"
      using run unfolding s1_def [symmetric] Let_def
      by (auto simp: s1 dest!: env_of ih' [OF _ o]
          fetch_data_observed [OF o] process_urb_attempt_observed [OF o]
          split: if_split_asm bind_split_asm sum.split_asm simp del: bind_eq_Some_conv)
    then show "?Q (((((P, res), w), puw), nomem), s) x" by simp
  qed
  then show ?thesis using assms(1) by simp
qed

end
