(* ===== verification/Local_Process_Urb.thy ===== *)
theory Local_Process_Urb
  imports Local_Alloc
begin

text \<open>
  URB messages: \<open>bg_work\<close> allocates the URB, fetches its data from the kernel, finds the port by
  the device address, answers \<open>SET_ADDRESS\<close> itself, and enqueues one work object that owns
  the URB.
\<close>

section \<open>Fetching into a fresh object\<close>

text \<open>
  \<open>u\<close> is a URB object that did not exist in \<open>s\<close>, nor did its blocks; everything that existed is
  as it was.
\<close>

definition prepared ::
  "('e, 'z) hcd_scheme \<Rightarrow> nat \<Rightarrow> usb_vhci_urb \<Rightarrow> ('e, 'z) hcd_scheme \<Rightarrow> bool" where
  "prepared s u v t \<longleftrightarrow> heap_ok t \<and> heap s \<subseteq>\<^sub>m heap t \<and> load_urb u t = Some v \<and> urb_object t u \<and>
     (\<forall>x \<in> urb_footprint t u. heap s x = None) \<and>
     h_callbacks t = h_callbacks s \<and> h_bg_thread t = h_bg_thread s \<and>
     h_port_count t = h_port_count s \<and> h_inbox t = h_inbox s \<and> h_processing t = h_processing s \<and>
     hcd.more t = hcd.more s \<and> set (naps t) \<subseteq> set (naps s) \<and>
     (h_thread_shutdown t \<longrightarrow> h_thread_shutdown s \<or> True \<in> set (naps s)) \<and>
     length (oom t) \<le> length (oom s)"

lemma fresh_object_urb:
  assumes "fresh_object s u v t" "message_ok v" "heap_ok t"
  shows "load_urb u t = Some v" "urb_mem t v" "urb_object t u" "urb_footprint t u = insert u (urb_blocks v)"
    "\<forall>x \<in> urb_footprint t u. heap s x = None"
proof -
  have u: "heap t u = Some (UrbObj v)" using assms(1) by (simp add: fresh_object_def)
  then have "u \<noteq> 0" using assms(3) heap_ok_null [of t] by (cases "u = 0") auto
  with u show l: "load_urb u t = Some v" by (simp add: load_urb_Some)
  show m: "urb_mem t v"
    using assms(1,2) by (auto simp: fresh_object_def urb_mem_def message_ok_def pointed_def bytes_at_iff
        packets_at_iff cells_def)
  show "urb_object t u" "urb_footprint t u = insert u (urb_blocks v)"
    using l m by (simp_all add: urb_object_def urb_footprint_def)
  then show "\<forall>x \<in> urb_footprint t u. heap s x = None"
    using assms(1) by (auto simp: fresh_object_def)
qed

lemma prepared_fresh:
  assumes "waited s t" "fresh_object s u v t" "message_ok v"
  shows "prepared s u v t"
  using assms fresh_object_urb [OF assms(2,3)]
  by (simp add: prepared_def waited_def paused_def)

lemmas for_upto_oom = for_upto_preserves [where f = oom]

lemma fetch_data_oom:
  assumes "heap_ok s" "usb_vhci_fetch_data P fd u s = Some (r, t)"
  shows "length (oom t) \<le> length (oom s)"
proof -
  obtain q s1 where m: "(if 0 <s u_packet_count u then malloc_array IocPackets (u_packet_count u) s else (0, s)) = (q, s1)"
    by fastforce
  have o1: "length (oom s1) \<le> length (oom s)"
    using m assms(1) alloc_oom(2) [of _ s]
    by (auto simp: malloc_array_def malloc_def split: if_splits prod.splits)
  obtain ret s2 where y: "syscall (p_fetch_data P fd
            \<lparr>id_handle = u_handle u, id_buffer_length = u_buffer_length u,
             id_packet_count = u_packet_count u, id_buffer = u_buffer u, id_iso_packets = q\<rparr>) s1 = (ret, s2)"
    by fastforce
  then have o2: "oom s2 = oom s1" by (auto simp: syscall_def split: prod.splits sum.splits)
  have iso: "fetch_iso_packet u q i s = Some t \<Longrightarrow> oom t = oom s" for i and s t :: "('a, 'b) machine_scheme"
    by (auto simp: fetch_iso_packet_def Option.bind_eq_Some_conv store_oom split: if_splits prod.splits)
  have cp: "copy_to_user_bytes p d s = Some t \<Longrightarrow> oom t = oom s"
    "copy_to_user_packets p k s = Some t \<Longrightarrow> oom t = oom s" for p d k and s t :: "('a, 'b) machine_scheme"
    by (auto simp: copy_to_user_bytes_def copy_to_user_packets_def Option.bind_eq_Some_conv store_oom
        split: if_splits)
  have "oom t = oom s2"
    using assms(2) unfolding usb_vhci_fetch_data_def Let_def m prod.case y
    by (auto simp: Option.bind_eq_Some_conv dest!: dealloc_oom cp for_upto_oom [rotated] dest: iso
        split: option.splits prod.splits)
  then show ?thesis using o1 o2 by simp
qed

lemma fetched_heap_other:
  "x \<notin> urb_blocks u \<Longrightarrow> x \<noteq> 0 \<Longrightarrow> fetched_heap h u data pkts x = h x"
  by (auto simp: fetched_heap_def data_heap_other urb_blocks_def)

lemma urb_mem_fetched:
  assumes "urb_mem s u" "heap t = fetched_heap (heap s) u data pkts"
    "length data \<le> unat (u_buffer_length u)" "length pkts = unat (u_packet_count u)"
  shows "urb_mem t u"
proof -
  have b: "u_buffer_length u \<noteq> 0 \<Longrightarrow> bytes_at t (u_buffer u) (unat (u_buffer_length u))"
  proof -
    assume "u_buffer_length u \<noteq> 0"
    then obtain bs where bs: "u_buffer u \<noteq> 0" "heap s (u_buffer u) = Some (Bytes bs)"
        "length bs = unat (u_buffer_length u)"
      using assms(1) by (auto simp: urb_mem_def bytes_at_iff)
    have "u_iso_packets u \<noteq> u_buffer u \<or> pkts = []"
      using assms(1,4) bs(1,2) by (cases "u_packet_count u = 0") (auto simp: urb_mem_def packets_at_iff)
    then show "bytes_at t (u_buffer u) (unat (u_buffer_length u))"
      using bs assms(2,3) by (auto simp: bytes_at_iff fetched_heap_def data_heap_def put_data_def)
  qed
  have p: "u_packet_count u \<noteq> 0 \<Longrightarrow> packets_at t (u_iso_packets u) (unat (u_packet_count u))"
  proof -
    assume n: "u_packet_count u \<noteq> 0"
    then have "u_iso_packets u \<noteq> 0" "pkts \<noteq> []"
      using assms(1,4) by (auto simp: urb_mem_def packets_at_iff unat_eq_zero)
    then show "packets_at t (u_iso_packets u) (unat (u_packet_count u))"
      using assms(2,4) by (simp add: packets_at_iff fetched_heap_def)
  qed
  show ?thesis using assms(1) b p by (simp add: urb_mem_def)
qed

lemma fetch_stage:
  fixes s t :: "('e, 'z) local_hcd_scheme"
  assumes prep: "prepared s u v t" and ok: "fetch_data_ok P"
  shows "\<exists>res' t'. (if res \<noteq> 0 then do {
        uo \<leftarrow> load_urb u t;
        usb_vhci_fetch_data P (l_fd t) uo t }
      else Some (res, t)) = Some (res', t') \<and> prepared s u v t' \<and>
    (if res = 0 then res' = 0 \<and> t' = t else fetched P (l_fd t) v t res' t')"
proof (cases "res = 0")
  case True
  then show ?thesis using prep by simp
next
  case False
  have p: "heap_ok t" "load_urb u t = Some v" "urb_object t u" using prep by (simp_all add: prepared_def)
  note blk = urb_object_blocks [OF p(3,2)]
  from fetch_data_run [OF p(1) blk(3) ok, of "l_fd t"]
  obtain r t' where r: "usb_vhci_fetch_data P (l_fd t) v t = Some (r, t')" "fetched P (l_fd t) v t r t'"
    by blast
  have h: "(\<forall>x. x \<notin> urb_blocks v \<longrightarrow> x \<noteq> 0 \<longrightarrow> heap t' x = heap t x) \<and> urb_mem t' v"
  proof (cases "snd (p_fetch_data P (l_fd t) (fetch_request t v) (env t))")
    case (Inl err)
    then have "heap t' = heap t" using r(2) by (simp add: fetched_def)
    then show ?thesis using blk(3) urb_mem_cong [of v t' t] by simp
  next
    case (Inr dp)
    obtain data pkts where dp: "dp = (data, pkts)" by (cases dp)
    then have ht: "heap t' = fetched_heap (heap t) v data pkts" using r(2) Inr by (simp add: fetched_def)
    have "fetch_reply_ok (fetch_request t v) (data, pkts)"
      using ok Inr dp unfolding fetch_data_ok_def by blast
    then have "urb_mem t' v"
      using urb_mem_fetched [OF blk(3) ht] by (simp add: fetch_reply_ok_def fetch_request_def)
    then show ?thesis using ht fetched_heap_other by simp
  qed
  have l: "load_urb u t' = Some v" using h p(2) blk(1,2) by (simp add: load_urb_Some)
  then have fp: "urb_object t' u" "urb_footprint t' u = urb_footprint t u"
    using h p(2) by (simp_all add: urb_object_def urb_footprint_def)
  have "heap s \<subseteq>\<^sub>m heap t'"
  proof (unfold map_le_def, rule ballI)
    fix x assume x: "x \<in> dom (heap s)"
    have "\<forall>y \<in> urb_footprint t u. heap s y = None" "heap t x = heap s x"
      using prep x by (auto simp: prepared_def map_le_def)
    moreover have "urb_blocks v \<subseteq> urb_footprint t u" using p(2) by (auto simp: urb_footprint_def)
    moreover have "x \<noteq> 0"
      using x calculation(2) heap_ok_null [OF p(1)] by (cases "x = 0") auto
    ultimately have "x \<notin> urb_blocks v" "x \<noteq> 0" "heap t x = heap s x"
      using x by (auto simp: domIff)
    then show "heap s x = heap t' x" using h by simp
  qed
  moreover have "length (oom t') \<le> length (oom s)"
    using fetch_data_oom [OF p(1) r(1)] prep by (simp add: prepared_def)
  moreover have "machine.more t' = machine.more t" "naps t' = naps t" "heap_ok t'"
    using r(2) by (simp_all add: fetched_def)
  ultimately have "prepared s u v t'"
    using prep l fp more_hcd [of t' t] by (simp add: prepared_def)
  then show ?thesis using r False p(2) by auto
qed

section \<open>Wrapping the URB into a work\<close>

text \<open>\<open>puw\<close> is null, or a work object that belongs to no queue.\<close>

definition held_list :: "nat \<Rightarrow> nat list" where
  "held_list p = (if p = 0 then [] else [p])"

definition held :: "('e, 'z) hcd_scheme \<Rightarrow> nat \<Rightarrow> bool" where
  "held s p \<longleftrightarrow> heap_ok s \<and> works_ok s (hcd_owned s @ held_list p)"

lemma held_works: "held s p \<Longrightarrow> works_ok s (hcd_owned s)" "held s p \<Longrightarrow> heap_ok s"
  by (auto simp: held_def held_list_def works_ok_snoc split: if_splits)

lemma held_inv: "hcd_inv s \<longleftrightarrow> held s 0"
  by (simp add: held_def held_list_def hcd_inv_def)

definition urb_work :: "u8 \<Rightarrow> nat \<Rightarrow> work" where
  "urb_work index u = \<lparr>w_port = index, w_canceled = False, w_kind = ProcessUrbWork u\<rparr>"

lemma process_urb_work_ctor_ok:
  "index \<noteq> 0 \<Longrightarrow> u \<noteq> 0 \<Longrightarrow> process_urb_work_ctor index u = Inr (urb_work index u)"
  by (simp add: process_urb_work_ctor_def work_ctor_def urb_work_def)

text \<open>A work that owns a URB of its own joins works whose blocks did not change.\<close>

lemma works_ok_urb_work:
  assumes "works_ok s ps" and frame: "\<And>x. x \<in> footprints s ps \<Longrightarrow> heap t x = heap s x"
    and q: "load_work q t = Some (urb_work index u)" "index \<noteq> 0" "urb_object t u"
    and new: "disjnt (insert q (urb_footprint t u)) (footprints s ps)"
  shows "works_ok t (ps @ [q])"
proof -
  note f = works_ok_frame [OF assms(1) frame]
  have "work_object t q" "work_footprint t q = insert q (urb_footprint t u)"
    using q by (simp_all add: work_object_def work_footprint_def urb_work_def)
  moreover have "q \<notin> set ps"
    using new work_footprint_self works_ok_object [OF assms(1)] by (auto simp: footprints_def disjnt_def)
  ultimately show ?thesis using f(1,2) new by (simp add: works_ok_snoc)
qed

lemma held_delete:
  assumes "held s p"
  shows "\<exists>t. delete_work p s = Some t \<and> hcd_inv t \<and> keeps s t \<and> memory_only s t"
proof (cases "p = 0")
  case True
  then show ?thesis
    using assms by (simp add: held_inv delete_work_def keeps_def)
next
  case False
  then have ok: "heap_ok s" "works_ok s (p # hcd_owned s)"
    using assms works_ok_append_commute [of s "hcd_owned s" "[p]"]
    by (simp_all add: held_def held_list_def)
  let ?t = "s\<lparr>heap := heap s |` (- work_footprint s p)\<rparr>"
  note d = delete_owned [OF ok]
  have "keeps s ?t"
    by (rule keepsI [of _ _ "work_footprint s p"])
      (use ok(2) footprint_tables in \<open>auto simp: works_ok_Cons disjnt_def restrict_map_def\<close>)
  moreover have "hcd_inv ?t"
    using d(2) heap_ok_restrict [OF ok(1)] by (simp add: hcd_inv_def hcd_owned_def)
  ultimately show ?thesis using d(1) by (intro exI [of _ ?t]) simp
qed

text \<open>The URB object \<open>u\<close> is live and shares no block with any work around.\<close>

definition loose_urb :: "('e, 'z) hcd_scheme \<Rightarrow> nat \<Rightarrow> nat \<Rightarrow> bool" where
  "loose_urb s p u \<longleftrightarrow> urb_object s u \<and>
     disjnt (urb_footprint s u) (footprints s (hcd_owned s @ held_list p))"

lemma get_urb_work:
  assumes held: "held s p" and loose: "loose_urb s p u" and ix: "index \<noteq> 0"
  shows "\<exists>q t. (if p = 0 then new_object_nothrow (work_block (process_urb_work_ctor index u)) s
      else do {
        obj \<leftarrow> load_work p s;
        s \<leftarrow> process_urb_work_dtor obj s;
        construct_at p (process_urb_work_ctor index u) s }) = Some (Inr q, t) \<and>
    (if q = 0 then p = 0 \<and> held t 0 \<and> memory_only s t \<and> heap t = heap s \<and>
       length (oom t) < length (oom s)
     else got_work s (urb_work index u) q t \<and> length (oom t) \<le> length (oom s) \<and>
       q \<notin> urb_footprint s u \<and> (\<forall>x \<in> urb_footprint s u. heap t x = heap s x))"
proof -
  have u: "urb_object s u" "u \<noteq> 0"
    using loose by (auto simp: loose_urb_def urb_object_def load_urb_Some split: option.splits)
  note ctor = process_urb_work_ctor_ok [OF ix u(2)]
  have live: "x \<in> urb_footprint s u \<Longrightarrow> heap s x \<noteq> None" for x
    using urb_footprint_live [OF u(1)] by blast
  show ?thesis
  proof (cases "p = 0")
    case True
    then have ok: "heap_ok s" "works_ok s (hcd_owned s)" using held by (simp_all add: held_def held_list_def)
    from ok(1) show ?thesis
    proof (cases rule: new_work_cases [where w = "urb_work index u"])
      case (fail t)
      then have "held t 0"
        using ok heap_determines(6) [OF fail(3)] memory_only_hcd(3) [OF fail(5)]
        by (simp add: held_def held_list_def)
      with fail True ctor show ?thesis by auto
    next
      case new: (ok q t)
      have fr: "x \<in> footprints s (hcd_owned s) \<Longrightarrow> heap t x = heap s x"
        "x \<in> urb_footprint s u \<Longrightarrow> heap t x = heap s x" for x
        using footprints_live [OF ok(2), of x] live [of x] new(4,5) by auto
      note uo = urb_object_cong [OF fr(2) u(1)]
      have l: "load_work q t = Some (urb_work index u)" using new by (simp add: load_work_Some)
      have "disjnt (insert q (urb_footprint t u)) (footprints s (hcd_owned s))"
        using loose True footprints_live [OF ok(2), of q] new(4) uo(2)
        by (auto simp: loose_urb_def held_list_def)
      then have "works_ok t (hcd_owned s @ [q])"
        using works_ok_urb_work [OF ok(2) fr(1) l ix uo(1)] by blast
      moreover have "keeps s t"
        by (rule keepsI [OF fr(1), of "{q}"]) (use new(4,5) in \<open>auto simp: tables_def\<close>)
      ultimately have "got_work s (urb_work index u) q t"
        using new l by (simp add: got_work_def)
      moreover have "q \<notin> urb_footprint s u" using live new(4) by blast
      ultimately show ?thesis using new(2,3,8) fr(2) True ctor by auto
    qed
  next
    case False
    then have ok: "heap_ok s" "works_ok s (p # hcd_owned s)"
      using held works_ok_append_commute [of s "hcd_owned s" "[p]"]
      by (simp_all add: held_def held_list_def)
    then have pw: "work_object s p" "disjnt (work_footprint s p) (footprints s (hcd_owned s))"
        "works_ok s (hcd_owned s)"
      by (simp_all add: works_ok_Cons)
    then obtain w where w: "load_work p s = Some w" by (auto elim: work_objectE)
    let ?h = "heap s |` (- (work_footprint s p - {p}))"
    let ?t = "s\<lparr>heap := ?h(p \<mapsto> WorkObj (urb_work index u))\<rparr>"
    have d: "process_urb_work_dtor w s = Some (s\<lparr>heap := ?h\<rparr>)" by (rule work_dtor_spec [OF ok(1) pw(1) w])
    have hp: "?h p = heap s p" by (simp add: restrict_map_def)
    have st: "construct_at p (process_urb_work_ctor index u) (s\<lparr>heap := ?h\<rparr>) = Some (Inr p, ?t)"
      using w hp by (simp add: ctor construct_at_def store_def load_work_Some)
    have pin: "p \<in> work_footprint s p" by (rule work_footprint_self [OF pw(1)])
    have lo: "disjnt (urb_footprint s u) (work_footprint s p)"
      "disjnt (urb_footprint s u) (footprints s (hcd_owned s))"
      using loose False by (simp_all add: loose_urb_def held_list_def disjnt_Un2)
    have fr: "x \<in> footprints s (hcd_owned s) \<Longrightarrow> heap ?t x = heap s x"
      "x \<in> urb_footprint s u \<Longrightarrow> heap ?t x = heap s x" for x
      using pw(2) lo(1) pin by (auto simp: disjnt_def restrict_map_def)
    note uo = urb_object_cong [OF fr(2) u(1)]
    have l: "load_work p ?t = Some (urb_work index u)" using w by (simp add: load_work_Some)
    have "disjnt (insert p (urb_footprint ?t u)) (footprints s (hcd_owned s))"
      using pw(2) pin lo(2) uo(2) by (auto simp: disjnt_def)
    then have wk: "works_ok ?t (hcd_owned s @ [p])"
      using works_ok_urb_work [OF pw(3) fr(1) l ix uo(1)] by blast
    have "heap_ok ?t" using ok(1) w by (auto simp: heap_ok_def restrict_map_def load_work_Some)
    moreover have "keeps s ?t"
      by (rule keepsI [OF fr(1), of "work_footprint s p"])
        (use footprint_tables [OF pw(1)] pin in \<open>auto simp: restrict_map_def\<close>)
    ultimately have "got_work s (urb_work index u) p ?t"
      using False l wk by (simp add: got_work_def)
    moreover have "p \<notin> urb_footprint s u" using lo(1) pin by (auto simp: disjnt_def)
    ultimately show ?thesis using False w d st fr(2) by auto
  qed
qed

section \<open>SET_ADDRESS\<close>

text \<open>What the controller makes of the URB and of the port.\<close>

definition answered :: "'y abi_scheme \<Rightarrow> usb_vhci_urb \<Rightarrow> usb_vhci_urb" where
  "answered P u =
     (if is_set_address P u then (if u_wValue u > 0x7f then stall u else ack u) else u)"

definition addressed :: "'y abi_scheme \<Rightarrow> usb_vhci_urb \<Rightarrow> port_info \<Rightarrow> port_info" where
  "addressed P u p =
     (if is_set_address P u \<and> \<not> u_wValue u > 0x7f then p\<lparr>pi_adr := ucast (u_wValue u)\<rparr> else p)"

lemma answered_pointers [simp]:
  "u_buffer (answered P u) = u_buffer u" "u_iso_packets (answered P u) = u_iso_packets u"
  "u_buffer_length (answered P u) = u_buffer_length u" "u_packet_count (answered P u) = u_packet_count u"
  "u_handle (answered P u) = u_handle u" "urb_blocks (answered P u) = urb_blocks u"
  by (simp_all add: answered_def ack_def stall_def set_status_def urb_blocks_def)

lemma set_port_entry_same:
  "port_ok index s \<Longrightarrow> set_port_entry index (port_at index s) s = s"
  using unat_pred [of index]
  by (simp add: set_port_entry_def port_at_def port_ok_def)

lemma handle_set_address_run:
  assumes "load_urb u s = Some v" "port_ok index s"
  shows "handle_set_address P index u s =
    Some (set_port_entry index (addressed P v (port_at index s))
            (s\<lparr>heap := (heap s)(u \<mapsto> UrbObj (answered P v))\<rparr>))"
proof -
  have u: "u \<noteq> 0" "heap s u = Some (UrbObj v)" using assms(1) by (simp_all add: load_urb_Some)
  have same: "s\<lparr>heap := (heap s)(u \<mapsto> UrbObj v)\<rparr> = s" using u(2) by (simp add: fun_upd_idem)
  have st: "store u (UrbObj x) s = Some (s\<lparr>heap := (heap s)(u \<mapsto> UrbObj x)\<rparr>)" for x
    using u by (simp add: store_def)
  have p: "port_ok index (s\<lparr>heap := h\<rparr>)" "port_at index (s\<lparr>heap := h\<rparr>) = port_at index s" for h
    using assms(2) by (simp_all add: port_ok_def port_at_def)
  show ?thesis
    using assms st port_entry_at [OF p(1)] set_port_entry_same [OF p(1)] set_port_entry_same [OF assms(2)]
    by (simp add: handle_set_address_def answered_def addressed_def Let_def p(2) same)
qed

section \<open>Looking up the port\<close>

text \<open>The first port whose device has the address, counted from 1, or 0.\<close>

definition port_of :: "u8 \<Rightarrow> port_info list \<Rightarrow> nat" where
  "port_of a ps =
     (case List.find (\<lambda>i. pi_adr (ps ! i) = a) [0..<length ps] of None \<Rightarrow> 0 | Some i \<Rightarrow> Suc i)"

definition ports_ok :: "('e, 'z) local_hcd_scheme \<Rightarrow> bool" where
  "ports_ok s \<longleftrightarrow> length (l_port_info s) = unat (h_port_count s)"

lemma find_port_run:
  assumes "length ps = unat n" "i \<le> n"
  shows "\<exists>r. find_port i n a ps = Some r \<and>
    unat r = (case List.find (\<lambda>i. pi_adr (ps ! i) = a) [unat i..<length ps] of
                None \<Rightarrow> 0 | Some i \<Rightarrow> Suc i)"
  using assms
proof (induction "unat n - unat i" arbitrary: i)
  case 0
  then have "i = n" by (simp add: word_le_nat_alt word_unat_eq_iff)
  then show ?case using 0 by (simp add: find_port.simps [of n n])
next
  case (Suc d)
  then have less: "i < n" by (simp add: word_less_nat_alt)
  note next_i = unat_next [OF less]
  have le: "i + 1 \<le> n" using less next_i by (simp add: word_le_nat_alt word_less_nat_alt)
  have split: "[unat i..<length ps] = unat i # [unat (i + 1)..<length ps]"
    using less Suc.prems(1) by (simp add: next_i word_less_nat_alt upt_conv_Cons)
  have at: "idx ps (unat i) = Some (ps ! unat i)"
    using less Suc.prems(1) by (simp add: idx_def word_less_nat_alt)
  have d: "d = unat n - unat (i + 1)" using Suc.hyps(2) next_i by simp
  obtain r where r: "find_port (i + 1) n a ps = Some r"
    "unat r = (case List.find (\<lambda>i. pi_adr (ps ! i) = a) [unat (i + 1)..<length ps] of
                None \<Rightarrow> 0 | Some i \<Rightarrow> Suc i)"
    using Suc.hyps(1) [OF d Suc.prems(1) le] by blast
  show ?case
    using less at r next_i by (subst find_port.simps, unfold split) simp
qed

lemma port_from_address_run:
  assumes "ports_ok s"
  shows "port_from_address a s =
    Some (if a > 0x7f then Inl (InvalidArgument ''address'')
          else Inr (of_nat (port_of a (l_port_info s))))"
    "port_of a (l_port_info s) \<le> length (l_port_info s)"
    "unat (of_nat (port_of a (l_port_info s)) :: u8) = port_of a (l_port_info s)"
proof -
  have "length (l_port_info s) = unat (h_port_count s)" using assms by (simp add: ports_ok_def)
  from find_port_run [OF this, of 0 a] obtain r where r: "find_port 0 (h_port_count s) a (l_port_info s) = Some r"
    "unat r = port_of a (l_port_info s)"
    by (auto simp: port_of_def)
  then have "of_nat (port_of a (l_port_info s)) = r" by (metis of_nat_unat ucast_id)
  with r show "port_from_address a s =
    Some (if a > 0x7f then Inl (InvalidArgument ''address'')
          else Inr (of_nat (port_of a (l_port_info s))))"
    "unat (of_nat (port_of a (l_port_info s)) :: u8) = port_of a (l_port_info s)"
    by (simp_all add: port_from_address_def)
  show "port_of a (l_port_info s) \<le> length (l_port_info s)"
    using find_SomeD [of "\<lambda>i. pi_adr (l_port_info s ! i) = a" "[0..<length (l_port_info s)]"]
    by (force simp: port_of_def split: option.split)
qed

section \<open>One attempt\<close>

text \<open>The work has been enqueued, seen from the state in which the attempt began.\<close>

definition urb_queued ::
  "'e platform \<Rightarrow> nat \<Rightarrow> usb_vhci_urb \<Rightarrow> ('e, 'z) local_hcd_scheme \<Rightarrow> ('e, 'z) local_hcd_scheme \<Rightarrow> bool"
where
  "urb_queued P u v s t \<longleftrightarrow> hcd_inv t \<and> keeps s t \<and> steady s t \<and> h_processing t = h_processing s \<and>
     env t = fold (p_callback P) (h_callbacks s) (env s) \<and>
     load_urb u t = Some (answered P v) \<and> (\<forall>x \<in> urb_blocks v. heap t x = heap s x) \<and>
     \<not> u_devadr v > 0x7f \<and> pointed v \<and>
     (\<exists>q index. index \<noteq> 0 \<and> unat index = port_of (u_devadr v) (l_port_info s) \<and>
        h_inbox t = h_inbox s @ [q] \<and> load_work q t = Some (urb_work index u) \<and>
        l_port_info t = (l_port_info s)[unat (index - 1) := addressed P v (port_at index s)])"

lemma urb_mem_answered [simp]: "urb_mem t (answered P v) = urb_mem t v"
  by (simp add: urb_mem_def)

text \<open>Answering the request in the object that was just wrapped.\<close>

lemma answer_works:
  fixes s t :: "('e, 'z) local_hcd_scheme"
  assumes s: "works_ok s (hcd_owned s)"
    and got: "got_work s (urb_work index u) q t" and ix: "index \<noteq> 0"
    and u: "load_urb u t = Some v" "urb_object t u" "q \<notin> urb_footprint t u"
    and t': "heap t' = (heap t)(u \<mapsto> UrbObj (answered P v))"
  shows "works_ok t' (hcd_owned s @ [q])" "load_work q t' = Some (urb_work index u)"
    "load_urb u t' = Some (answered P v)" "keeps s t'" "\<forall>x \<in> urb_blocks v. heap t' x = heap t x"
proof -
  have w: "works_ok t (hcd_owned s @ [q])" "load_work q t = Some (urb_work index u)" "keeps s t"
    using got by (simp_all add: got_work_def)
  have fp: "work_footprint t q = insert q (urb_footprint t u)" "u \<in> urb_footprint t u"
    using w(2) u(1) by (simp_all add: work_footprint_def urb_work_def urb_footprint_def)
  then have own: "works_ok t (hcd_owned s)" "disjnt (insert q (urb_footprint t u)) (footprints t (hcd_owned s))"
    using w(1) by (simp_all add: works_ok_snoc)
  then have nu: "u \<notin> footprints t (hcd_owned s)" using fp(2) by (auto simp: disjnt_def)
  have qu: "q \<noteq> u" using u(3) fp(2) by auto
  show l: "load_work q t' = Some (urb_work index u)" using w(2) qu t' by (simp add: load_work_Some)
  show lu: "load_urb u t' = Some (answered P v)" using u(1) t' by (simp add: load_urb_Some)
  note blk = urb_object_blocks [OF u(2,1)]
  show bl: "\<forall>x \<in> urb_blocks v. heap t' x = heap t x" using blk(1) t' by auto
  have "urb_mem t' v" using blk(3) bl urb_mem_cong [of v t' t] by simp
  then have uo: "urb_object t' u" using lu by (simp add: urb_object_def)
  have "urb_footprint t' u = urb_footprint t u" using lu u(1) by (simp add: urb_footprint_def)
  then show "works_ok t' (hcd_owned s @ [q])"
    using works_ok_urb_work [OF own(1) _ l ix uo] own(2) nu t' by (metis fun_upd_other)
  have "footprints t (hcd_owned s) = footprints s (hcd_owned s)"
    using works_ok_frame(2) [OF s, of t] w(3) by (simp add: keeps_def)
  then show "keeps s t'"
    using w(3) nu t' u(1) by (auto simp: keeps_def tables_def load_urb_Some)
qed

lemma unat_pos: "(index :: u8) \<noteq> 0 \<Longrightarrow> 0 < unat index"
  by (simp add: unat_gt_0)

lemma process_urb_attempt_spec:
  assumes held: "held s p" and loose: "loose_urb s p u" and u: "load_urb u s = Some v"
    and adr: "u_devadr w = u_devadr v" and ports: "ports_ok s"
  shows "\<exists>r q t. process_urb_attempt P w u p s = Some (r, q, t) \<and>
    (case r of
       Inl e \<Rightarrow> e = InvalidArgument ''address'' \<and> u_devadr v > 0x7f \<and> t = s
     | Inr ok \<Rightarrow>
         if ok then
           (port_of (u_devadr v) (l_port_info s) = 0 \<and> hcd_inv t \<and> keeps s t \<and> memory_only s t) \<or>
           urb_queued P u v s t
         else held t q \<and> keeps s t \<and> memory_only s t \<and> length (oom t) < length (oom s))"
proof (cases "u_devadr v > 0x7f")
  case True
  then show ?thesis
    using port_from_address_run(1) [OF ports] adr by (auto simp: process_urb_attempt_def)
next
  case low: False
  define index :: u8 where "index = of_nat (port_of (u_devadr v) (l_port_info s))"
  have ix: "unat index = port_of (u_devadr v) (l_port_info s)" "unat index \<le> length (l_port_info s)"
    using port_from_address_run(2,3) [OF ports, of "u_devadr v"] by (simp_all add: index_def)
  have look: "port_from_address (u_devadr w) s = Some (Inr index)"
    using port_from_address_run(1) [OF ports] low adr by (simp add: index_def)
  show ?thesis
  proof (cases "index = 0")
    case True
    from held_delete [OF held] obtain t where t: "delete_work p s = Some t" "hcd_inv t" "keeps s t" "memory_only s t"
      by blast
    then show ?thesis
      using look True ix(1) by (intro exI [of _ "Inr True"] exI [of _ p] exI [of _ t])
        (simp add: process_urb_attempt_def)
  next
    case False
    then have pok: "port_ok index s" using ix(2) by (simp add: port_ok_def)
    note own = held_works(1) [OF held]
    obtain q t1 where get: "(if p = 0 then new_object_nothrow (work_block (process_urb_work_ctor index u)) s
        else do {
          obj \<leftarrow> load_work p s;
          s \<leftarrow> process_urb_work_dtor obj s;
          construct_at p (process_urb_work_ctor index u) s }) = Some (Inr q, t1)"
      "if q = 0 then p = 0 \<and> held t1 0 \<and> memory_only s t1 \<and> heap t1 = heap s \<and>
         length (oom t1) < length (oom s)
       else got_work s (urb_work index u) q t1 \<and> length (oom t1) \<le> length (oom s) \<and>
         q \<notin> urb_footprint s u \<and> (\<forall>x \<in> urb_footprint s u. heap t1 x = heap s x)"
      using get_urb_work [OF held loose False] by blast
    have run: "process_urb_attempt P w u p s = do {
         (r, s) \<leftarrow> Some (Inr q, t1);
         (case r of
            Inl e \<Rightarrow> Some (Inl e, p, s)
          | Inr puw \<Rightarrow>
              if puw = 0 then Some (Inr False, puw, s)
              else do {
                p \<leftarrow> port_entry index s;
                let rollback_address = pi_adr p;
                s \<leftarrow> handle_set_address P index u s;
                (case enqueue_work puw s of
                   (Inl e, s) \<Rightarrow> do {
                     p \<leftarrow> port_entry index s;
                     Some (Inr False, puw,
                           set_port_entry index (p\<lparr>pi_adr := rollback_address\<rparr>) s) }
                 | (Inr _, s) \<Rightarrow> Some (Inr True, puw, on_work_enqueued P s)) }) }"
      unfolding process_urb_attempt_def look using False by (simp add: get(1) split del: if_split)
    show ?thesis
    proof (cases "q = 0")
      case True
      then show ?thesis using run get(2) keeps_heap [of t1 s] by auto
    next
      case q: False
      then have g: "got_work s (urb_work index u) q t1" "length (oom t1) \<le> length (oom s)"
        "q \<notin> urb_footprint s u" "\<And>x. x \<in> urb_footprint s u \<Longrightarrow> heap t1 x = heap s x"
        using get(2) by auto
      have mem: "memory_only s t1" "heap_ok t1" using g(1) by (simp_all add: got_work_def)
      note same = memory_only_hcd [OF mem(1)] memory_only_local [OF mem(1)]
      have uo: "urb_object s u" using loose by (simp add: loose_urb_def)
      have pv: "pointed v"
        using urb_object_blocks(3) [OF uo u]
        by (auto simp: urb_mem_def pointed_def bytes_at_iff packets_at_iff split: if_splits)
      note u1 = urb_object_cong [OF g(4) uo]
      have l1: "load_urb u t1 = Some v"
        using u load_cong(1) [of t1 u s] g(4) by (simp add: urb_footprint_def)
      have pok1: "port_ok index t1" using pok same by simp
      define p2 where "p2 = addressed P v (port_at index s)"
      define t2 where "t2 = set_port_entry index p2 (t1\<lparr>heap := (heap t1)(u \<mapsto> UrbObj (answered P v))\<rparr>)"
      have sa: "handle_set_address P index u t1 = Some t2"
        using handle_set_address_run [OF l1 pok1] same(11) by (simp add: t2_def p2_def)
      have h2: "heap t2 = (heap t1)(u \<mapsto> UrbObj (answered P v))" "brk t2 = brk t1" "oom t2 = oom t1"
        "env t2 = env t1" "h_inbox t2 = h_inbox s" "h_processing t2 = h_processing s"
        "h_callbacks t2 = h_callbacks s"
        "l_port_info t2 = (l_port_info s)[unat (index - 1) := p2]"
        using same by (simp_all add: t2_def set_port_entry_def)
      have "q \<notin> urb_footprint t1 u" using g(3) u1(2) by simp
      note ans = answer_works [OF own g(1) False l1 u1(1) this h2(1)]
      have ok2: "heap_ok t2"
        using mem(2) l1 by (auto simp: heap_ok_def h2 load_urb_Some)
      have pok2: "port_ok index t2" using pok h2(8) by (simp add: port_ok_def)
      have "unat index - 1 < length (l_port_info s)" using ix(2) unat_pos [OF False] by linarith
      then have at2: "port_at index t2 = p2"
        using unat_pred [OF False] h2(8) by (simp add: port_at_def)
      show ?thesis
      proof (cases rule: enqueue_cases [of q t2])
        case (fail t3)
        then obtain bs where t3: "t3 = t2\<lparr>oom := bs\<rparr>" by blast
        define t where "t = set_port_entry index (port_at index s) t3"
        have "p2\<lparr>pi_adr := pi_adr (port_at index s)\<rparr> = port_at index s"
          by (simp add: p2_def addressed_def)
        moreover have "port_entry index t3 = Some p2"
          using port_entry_at [OF pok2] at2 by (simp add: t3 port_entry_def)
        ultimately have r: "process_urb_attempt P w u p s = Some (Inr False, q, t)"
          using run q sa fail(1) port_entry_at [OF pok1] same(11) by (simp add: t_def)
        have "l_port_info s = (l_port_info s)[unat (index - 1) := port_at index s]"
          using set_port_entry_same [OF pok]
          by (metis local_hcd.select_convs(5) local_hcd.surjective local_hcd.update_convs(5)
              set_port_entry_def)
        then have t: "t = t1\<lparr>heap := heap t2, oom := bs\<rparr>"
          using same(8) by (simp add: t_def t3 t2_def set_port_entry_def)
        have mo: "memory_only s t" using mem(1) unfolding t by (simp add: memory_only_def)
        have ht: "heap t = heap t2" by (simp add: t)
        have "heap_ok t" using ok2 h2(2) by (simp add: t heap_ok_def)
        moreover have "works_ok t (hcd_owned s @ [q])" using ans(1) heap_determines(6) [OF ht] by simp
        ultimately have "held t q"
          using q memory_only_hcd(3) [OF mo] by (simp add: held_def held_list_def)
        moreover have "length (oom t) < length (oom s)"
          using fail(3) g(2) h2(3) by (simp add: t t3)
        moreover have "keeps s t" using ans(4) ht by (simp add: keeps_def)
        ultimately show ?thesis using r mo by auto
      next
        case (ok bs)
        define t where "t = on_work_enqueued P (t2\<lparr>oom := bs, h_inbox := h_inbox s @ [q]\<rparr>)"
        have r: "process_urb_attempt P w u p s = Some (Inr True, q, t)"
          using run q sa ok(1) port_entry_at [OF pok1] by (simp add: t_def h2(5))
        have t: "heap t = heap t2" "brk t = brk t2" "h_inbox t = h_inbox s @ [q]" "h_processing t = h_processing s"
          "env t = fold (p_callback P) (h_callbacks s) (env s)" "l_port_info t = l_port_info t2"
          using h2 mem(1) by (simp_all add: t_def on_work_enqueued_def memory_only_def)
        have "works_ok t2 (hcd_owned t)"
          by (rule works_ok_perm [OF _ _ ans(1)]) (use ans(1) t in \<open>auto simp: works_ok_def hcd_owned_def\<close>)
        then have "hcd_inv t"
          using ok2 t heap_determines(6) [OF t(1)] by (simp add: hcd_inv_def heap_ok_def)
        moreover have "keeps s t" using ans(4) t(1) by (simp add: keeps_def)
        moreover have "steady s t"
          using memory_only_steady [OF mem(1)]
          by (simp add: t_def t2_def on_work_enqueued_def set_port_entry_def steady_def)
        moreover have "load_urb u t = Some (answered P v)" "load_work q t = Some (urb_work index u)"
          using ans(2,3) t(1) heap_determines(1) [OF t(1)] by (simp_all add: load_urb_Some)
        moreover have "\<forall>x \<in> urb_blocks v. heap t x = heap s x"
          using ans(5) t(1) g(4) u by (simp add: urb_footprint_def)
        ultimately have "urb_queued P u v s t"
          using t(3-6) h2(8) ix(1) False low pv
          unfolding urb_queued_def p2_def by (intro conjI exI [of _ q] exI [of _ index]) simp_all
        then show ?thesis using r by auto
      qed
    qed
  qed
qed

section \<open>One round of the loop\<close>

text \<open>What happens to the controller before the work is enqueued; the environment may change.\<close>

definition idle :: "('e, 'z) hcd_scheme \<Rightarrow> ('e, 'z) hcd_scheme \<Rightarrow> bool" where
  "idle s t \<longleftrightarrow> h_callbacks t = h_callbacks s \<and> h_bg_thread t = h_bg_thread s \<and>
     h_port_count t = h_port_count s \<and> h_inbox t = h_inbox s \<and> h_processing t = h_processing s \<and>
     hcd.more t = hcd.more s \<and> set (naps t) \<subseteq> set (naps s) \<and>
     (h_thread_shutdown t \<longrightarrow> h_thread_shutdown s \<or> True \<in> set (naps s)) \<and> keeps s t"

lemma idle_owned: "idle s t \<Longrightarrow> hcd_owned t = hcd_owned s"
  by (simp add: idle_def hcd_owned_def)

lemma idle_trans:
  assumes "works_ok r (hcd_owned r)" "idle r s" "idle s t" shows "idle r t"
proof -
  have "keeps r t"
    using keeps_trans [OF assms(1), of s t] assms(2,3) idle_owned [OF assms(2)] by (simp add: idle_def)
  then show ?thesis using assms(2,3) by (auto simp: idle_def)
qed

lemma idle_local:
  assumes "idle (s :: ('e, 'z) local_hcd_scheme) t"
  shows "l_port_info t = l_port_info s" "l_fd t = l_fd s" "ports_ok t = ports_ok s"
    "port_at index t = port_at index s" "l_port_block t = l_port_block s"
proof -
  have "hcd.more t = hcd.more s" "h_port_count t = h_port_count s" using assms by (simp_all add: idle_def)
  then show "l_port_info t = l_port_info s" "l_fd t = l_fd s" "ports_ok t = ports_ok s"
    "port_at index t = port_at index s" "l_port_block t = l_port_block s"
    by (cases s; cases t; simp add: ports_ok_def port_at_def)+
qed

lemma paused_idle: "paused s t \<Longrightarrow> idle s t"
  by (simp add: paused_def idle_def)

lemma idle_steady: "idle s t \<Longrightarrow> steady s t"
  using idle_local(2,5) [of s t] by (simp add: steady_def idle_def)

lemma memory_only_idle: "memory_only s t \<Longrightarrow> keeps s t \<Longrightarrow> idle s t"
  using paused_memory paused_idle by blast

lemma prepared_idle:
  assumes "works_ok s (hcd_owned s)" "prepared s u v t" shows "idle s t"
  using assms keeps_extend [OF assms(1), of t] by (simp add: prepared_def idle_def)

lemma held_extend:
  assumes "held s p" "heap_ok t" "heap s \<subseteq>\<^sub>m heap t" "hcd_owned t = hcd_owned s"
  shows "held t p"
  using assms works_ok_extend(1) [of s _ t] by (simp add: held_def)

lemma held_waited: "held s p \<Longrightarrow> waited s t \<Longrightarrow> held t p"
  using held_extend [of s p t] waited_owned [of s t] by (simp add: waited_def)

lemma held_prepared:
  assumes "held s p" "prepared s u v t"
  shows "held t p" "loose_urb t p u"
proof -
  have wk: "works_ok s (hcd_owned s @ held_list p)" using assms(1) by (simp add: held_def)
  have t: "heap s \<subseteq>\<^sub>m heap t" "heap_ok t" "hcd_owned t = hcd_owned s" "urb_object t u"
    "\<And>x. x \<in> urb_footprint t u \<Longrightarrow> heap s x = None"
    using assms(2) by (simp_all add: prepared_def hcd_owned_def)
  show "held t p" by (rule held_extend [OF assms(1) t(2,1,3)])
  have "footprints t (hcd_owned s @ held_list p) = footprints s (hcd_owned s @ held_list p)"
    by (rule works_ok_extend(2) [OF wk t(1)])
  then show "loose_urb t p u"
    using t footprints_live [OF wk] unfolding loose_urb_def disjnt_iff by metis
qed

text \<open>The URB is thrown away when its data cannot be fetched.\<close>

lemma discard_urb:
  assumes "held s p" "prepared s u v t"
  shows "\<exists>t'. delete_urb u t = Some t' \<and> held t' p \<and> idle s t'"
proof -
  note h = held_prepared [OF assms]
  let ?t = "t\<lparr>heap := heap t |` (- urb_footprint t u)\<rparr>"
  have t: "heap_ok t" "urb_object t u" "works_ok t (hcd_owned t @ held_list p)"
    "disjnt (urb_footprint t u) (footprints t (hcd_owned t @ held_list p))"
    using h by (simp_all add: held_def loose_urb_def)
  have fr: "heap ?t x = heap t x" if "x \<in> footprints t (hcd_owned t @ held_list p)" for x
    using t(4) that by (auto simp: disjnt_def restrict_map_def)
  have "works_ok ?t (hcd_owned t @ held_list p)" by (rule works_ok_frame(1) [OF t(3) fr])
  then have "held ?t p" using heap_ok_restrict [OF t(1)] by (simp add: held_def hcd_owned_def)
  moreover have "keeps t ?t"
    by (rule keepsI [of _ _ "urb_footprint t u"])
      (use fr urb_footprint_tables [OF t(2)] in \<open>auto simp: footprints_def\<close>)
  then have "idle t ?t" by (simp add: idle_def)
  then have "idle s ?t"
    using idle_trans [OF held_works(1) [OF assms(1)] prepared_idle [OF held_works(1) [OF assms(1)] assms(2)]]
    by blast
  ultimately show ?thesis using delete_urb_spec [OF t(1,2)] by blast
qed

text \<open>The kernel refuses to deliver the data of the URB.\<close>

definition fetch_refused :: "'e platform \<Rightarrow> ('e, 'z) local_hcd_scheme \<Rightarrow> usb_vhci_urb \<Rightarrow> bool" where
  "fetch_refused P s w \<longleftrightarrow>
     (\<exists>q. id_handle q = u_handle w \<and> id_buffer_length q = u_buffer_length w \<and>
        id_packet_count q = u_packet_count w \<and> isl (snd (p_fetch_data P (l_fd s) q (env s))))"

lemma urb_round:
  fixes s :: "('e, 'z) local_hcd_scheme"
  assumes held: "held s p" and msg: "message_ok w" and ports: "ports_ok s" and kernel: "fetch_data_ok P"
    and s1: "s1 = (if nomem then usleep s else s)" "\<not> (nomem \<and> h_thread_shutdown s1)"
  obtains (refused) t where "bg_process_urb P res w p nomem s = Some (Inl (InvalidArgument ''urb''), t)"
      "bad_urb P w" "held t p" "idle s t"
  | (stopped) t where "bg_process_urb P res w p nomem s = Some (Inr (), t)"
      "h_thread_shutdown t" "held t p" "idle s t"
  | (unfetched) t where "bg_process_urb P res w p nomem s = Some (Inr (), t)"
      "res \<noteq> 0" "held t p" "idle s t" "fetch_refused P s w"
  | (tried) u v s2 s3 r q t where "\<not> bad_urb P w" "same_message w v" "pointed v"
      "waited s s2" "fresh_object s u v s2" "prepared s1 u v s3" "idle s s3" "held s3 p"
      "load_urb u s3 = Some v" "length (oom s3) \<le> length (oom s)"
      "if res = 0 then s3 = s2 else fetched P (l_fd s) v s2 0 s3"
      "bg_process_urb P res w p nomem s = (case r of
         Inl e \<Rightarrow> Some (Inl e, t)
       | Inr ok \<Rightarrow> if ok then Some (Inr (), t) else bg_process_urb P 0 v q True t)"
      "case r of
         Inl e \<Rightarrow> e = InvalidArgument ''address'' \<and> u_devadr w > 0x7f \<and> t = s3
       | Inr ok \<Rightarrow>
           if ok then
             (port_of (u_devadr w) (l_port_info s) = 0 \<and> hcd_inv t \<and> idle s t) \<or> urb_queued P u v s3 t
           else held t q \<and> idle s t \<and> env t = env s3 \<and> length (oom t) < length (oom s)"
proof -
  have w1: "waited s s1" "oom s1 = oom s"
    using s1(1) waited_usleep [of s] waited_refl [of s] held_works(2) [OF held] by auto
  note wk = held_works(1) [OF held]
  have h1: "held s1 p" "works_ok s1 (hcd_owned s1)" "heap_ok s1"
    using held_waited [OF held w1(1)] held_works by auto
  have i1: "idle s s1" using w1(1) by (simp add: waited_def paused_idle)
  obtain r v s2 where al: "alloc_urb P w s1 = Some (r, v, s2)" "alloc_urb_result P w s1 r v s2"
    using alloc_urb_run [OF h1(3,2) msg] by blast
  then have w2: "waited s1 s2" "same_message w v" by (simp_all add: alloc_urb_result_def)
  have ws2: "waited s s2" by (rule waited_trans [OF wk w1(1) w2(1)])
  then have i2: "idle s s2" "held s2 p" using held_waited [OF held] by (simp_all add: waited_def paused_idle)
  have unf: "bg_process_urb P res w p nomem s =
      (case r of
         Inl e \<Rightarrow> Some (Inl e, s2)
       | Inr u \<Rightarrow>
           if u = 0 then Some (Inr (), s2)
           else do {
             (res, s) \<leftarrow>
               (if res \<noteq> 0 then do {
                  uo \<leftarrow> load_urb u s2;
                  usb_vhci_fetch_data P (l_fd s2) uo s2 }
                else Some (res, s2));
             if res = - 1 then do { s \<leftarrow> delete_urb u s; Some (Inr (), s) }
             else do {
               (r, puw, s) \<leftarrow> process_urb_attempt P v u p s;
               (case r of
                  Inl e \<Rightarrow> Some (Inl e, s)
                | Inr ok \<Rightarrow>
                    if ok then Some (Inr (), s)
                    else bg_process_urb P res v puw True s) } })"
    using s1(2) al(1) by (subst bg_process_urb.simps, simp only: Let_def flip: s1(1)) simp
  show thesis
  proof (cases r)
    case (Inl e)
    then show thesis using unf al(2) i2 that(1) [of s2] by (simp add: alloc_urb_result_def)
  next
    case (Inr u)
    show thesis
    proof (cases "u = 0")
      case True
      then show thesis using unf al(2) i2 that(2) [of s2] Inr by (simp add: alloc_urb_result_def)
    next
      case False
      then have fo: "\<not> bad_urb P w" "fresh_object s1 u v s2" using al(2) Inr by (simp_all add: alloc_urb_result_def)
      then have pt: "pointed v" by (simp add: fresh_object_def)
      have mv: "message_ok v" by (rule same_message_fields(13) [OF w2(2) msg pt])
      have fos: "fresh_object s u v s2"
        using fo(2) waited_fresh [OF w1(1)] by (simp add: fresh_object_def)
      note prep = prepared_fresh [OF w2(1) fo(2) mv]
      from fetch_stage [OF prep kernel, of res] obtain res' s3 where
        f: "(if res \<noteq> 0 then do { uo \<leftarrow> load_urb u s2; usb_vhci_fetch_data P (l_fd s2) uo s2 }
            else Some (res, s2)) = Some (res', s3)" "prepared s1 u v s3"
           "if res = 0 then res' = 0 \<and> s3 = s2 else fetched P (l_fd s2) v s2 res' s3"
        by blast
      have i3: "idle s s3" by (rule idle_trans [OF wk i1 prepared_idle [OF h1(2) f(2)]])
      note h3 = held_prepared [OF h1(1) f(2)]
      have l3: "load_urb u s3 = Some v" using f(2) by (simp add: prepared_def)
      show thesis
      proof (cases "res' = - 1")
        case True
        from discard_urb [OF h1(1) f(2)] obtain t where t: "delete_urb u s3 = Some t" "held t p" "idle s1 t"
          by blast
        have res: "res \<noteq> 0" using True f(3) by (auto split: if_splits)
        then have "isl (snd (p_fetch_data P (l_fd s2) (fetch_request s2 v) (env s2)))"
          using True f(3) by (auto simp: fetched_def split: sum.splits)
        moreover have "l_fd s2 = l_fd s" "env s2 = env s"
          using idle_local(2) [OF i2(1)] ws2 by (simp_all add: waited_def paused_def)
        ultimately have "fetch_refused P s w"
          using same_message_fields(1,2,5) [OF w2(2)]
          unfolding fetch_refused_def by (intro exI [of _ "fetch_request s2 v"]) (simp add: fetch_request_def)
        moreover have "bg_process_urb P res w p nomem s = Some (Inr (), t)"
          using unf Inr False f(1) True t(1) by simp
        ultimately show thesis using that(3) [of t] t(2) idle_trans [OF wk i1 t(3)] res by blast
      next
        case nf: False
        then have r0: "res' = 0" using f(3) by (auto simp: fetched_def split: if_splits sum.splits)
        have po: "ports_ok s3" using ports idle_local(3) [OF i3] by simp
        have o3: "length (oom s3) \<le> length (oom s)" using f(2) w1(2) by (simp add: prepared_def)
        obtain a q t where a: "process_urb_attempt P v u p s3 = Some (a, q, t)"
          "case a of
             Inl e \<Rightarrow> e = InvalidArgument ''address'' \<and> u_devadr v > 0x7f \<and> t = s3
           | Inr ok \<Rightarrow>
               if ok then
                 (port_of (u_devadr v) (l_port_info s3) = 0 \<and> hcd_inv t \<and> keeps s3 t \<and> memory_only s3 t) \<or>
                 urb_queued P u v s3 t
               else held t q \<and> keeps s3 t \<and> memory_only s3 t \<and> length (oom t) < length (oom s3)"
          using process_urb_attempt_spec [OF h3 l3 refl po] by blast
        have run: "bg_process_urb P res w p nomem s = (case a of
            Inl e \<Rightarrow> Some (Inl e, t)
          | Inr ok \<Rightarrow> if ok then Some (Inr (), t) else bg_process_urb P 0 v q True t)"
          using unf Inr False f(1) r0 a(1) by simp
        have "case a of
             Inl e \<Rightarrow> e = InvalidArgument ''address'' \<and> u_devadr w > 0x7f \<and> t = s3
           | Inr ok \<Rightarrow>
               if ok then
                 (port_of (u_devadr w) (l_port_info s) = 0 \<and> hcd_inv t \<and> idle s t) \<or> urb_queued P u v s3 t
               else held t q \<and> idle s t \<and> env t = env s3 \<and> length (oom t) < length (oom s)"
          using a(2) same_message_fields(4) [OF w2(2)] idle_local(1) [OF i3] o3
            idle_trans [OF wk i3] memory_only_idle [of s3 t]
          by (cases a) (auto simp: memory_only_def split: if_splits)
        moreover have "if res = 0 then s3 = s2 else fetched P (l_fd s) v s2 0 s3"
          using f(3) r0 idle_local(2) [OF i2(1)] by auto
        ultimately show thesis
          by (rule that(4) [OF fo(1) w2(2) pt ws2 fos f(2) i3 h3(1) l3 o3 _ run, rotated])
      qed
    qed
  qed
qed

section \<open>The whole loop\<close>

text \<open>A message that \<open>bg_work\<close> cannot handle: an exception leaves it.\<close>

definition escapes :: "'y abi_scheme \<Rightarrow> usb_vhci_urb \<Rightarrow> exn \<Rightarrow> bool" where
  "escapes P w e \<longleftrightarrow> (e = InvalidArgument ''urb'' \<and> bad_urb P w) \<or>
     (e = InvalidArgument ''address'' \<and> u_devadr w > 0x7f)"

text \<open>The blocks of the URB are as the allocator left them.\<close>

definition unwritten :: "usb_vhci_urb \<Rightarrow> ('e, 'z) machine_scheme \<Rightarrow> bool" where
  "unwritten v t \<longleftrightarrow>
     (u_buffer v \<noteq> 0 \<longrightarrow> heap t (u_buffer v) = Some (Bytes (cells (u_buffer_length v)))) \<and>
     (u_iso_packets v \<noteq> 0 \<longrightarrow> heap t (u_iso_packets v) = Some (Packets (cells (u_packet_count v))))"

lemma unwritten_queued:
  "fresh_object r u v s \<Longrightarrow> urb_queued P u v s t \<Longrightarrow> unwritten v t"
  by (auto simp: fresh_object_def urb_queued_def unwritten_def urb_blocks_def)

lemma held_hcd_inv: "held s p \<Longrightarrow> hcd_inv s"
  using held_works by (auto simp: hcd_inv_def)

lemma bg_process_urb_run:
  fixes s :: "('e, 'z) local_hcd_scheme"
  assumes "held s p" "message_ok w" "ports_ok s" "fetch_data_ok P"
  shows "\<exists>r t. bg_process_urb P res w p nomem s = Some (r, t) \<and>
    (case r of
       Inl e \<Rightarrow> escapes P w e \<and> hcd_inv t \<and> idle s t
     | Inr _ \<Rightarrow>
         (hcd_inv t \<and> idle s t \<and> (h_thread_shutdown t \<or> (res \<noteq> 0 \<and> fetch_refused P s w) \<or>
            port_of (u_devadr w) (l_port_info s) = 0)) \<or>
         (\<exists>u v s'. \<not> bad_urb P w \<and> same_message w v \<and> idle s s' \<and> urb_queued P u v s' t \<and>
            (res = 0 \<longrightarrow> unwritten v t \<and> env s' = env s)))"
  using assms
proof (induction "length (oom s)" arbitrary: s p w res nomem rule: less_induct)
  case less
  define s1 where "s1 = (if nomem then usleep s else s)"
  note wk = held_works(1) [OF less.prems(1)]
  show ?case
  proof (cases "nomem \<and> h_thread_shutdown s1")
    case True
    then have s1: "s1 = usleep s" by (simp add: s1_def)
    have w1: "waited s s1" using waited_usleep held_works(2) [OF less.prems(1)] s1 by simp
    from held_delete [OF held_waited [OF less.prems(1) w1]] obtain t
      where t: "delete_work p s1 = Some t" "hcd_inv t" "keeps s1 t" "memory_only s1 t" by blast
    have "idle s t"
      using idle_trans [OF wk paused_idle memory_only_idle [OF t(4,3)]] w1 by (simp add: waited_def)
    moreover have "h_thread_shutdown t" using memory_only_hcd(6) [OF t(4)] True by simp
    moreover have "bg_process_urb P res w p nomem s = Some (Inr (), t)"
      using True t(1) by (subst bg_process_urb.simps) (simp add: s1)
    ultimately show ?thesis using t(2) by auto
  next
    case False
    from less.prems s1_def False show ?thesis
    proof (cases rule: urb_round [where res = res])
      case (refused t)
      then show ?thesis using held_hcd_inv by (auto simp: escapes_def)
    next
      case (stopped t)
      then show ?thesis using held_hcd_inv by auto
    next
      case (unfetched t)
      then show ?thesis using held_hcd_inv by auto
    next
      case (tried u v s2 s3 r q t)
      show ?thesis
      proof (cases r)
        case (Inl e)
        then show ?thesis using tried held_hcd_inv by (auto simp: escapes_def)
      next
        case (Inr ok)
        show ?thesis
        proof (cases ok)
          case True
          have first: "res = 0 \<longrightarrow> unwritten v t \<and> env s3 = env s" if "urb_queued P u v s3 t"
            using tried(4,11) unwritten_queued [OF tried(5), of P t] that by (auto simp: waited_def paused_def)
          have "(port_of (u_devadr w) (l_port_info s) = 0 \<and> hcd_inv t \<and> idle s t) \<or> urb_queued P u v s3 t"
            using tried(13) Inr True by simp
          moreover have "bg_process_urb P res w p nomem s = Some (Inr (), t)"
            using tried(12) Inr True by simp
          ultimately show ?thesis using tried(1,2,7) first by auto
        next
          case False
          then have t: "held t q" "idle s t" "length (oom t) < length (oom s)"
            "res = 0 \<longrightarrow> env t = env s"
            "bg_process_urb P res w p nomem s = bg_process_urb P 0 v q True t"
            using tried(4,11-13) Inr by (auto simp: waited_def paused_def)
          have mv: "message_ok v" by (rule same_message_fields(13) [OF tried(2) less.prems(2) tried(3)])
          have "ports_ok t" using less.prems(3) idle_local(3) [OF t(2)] by simp
          from less.hyps [OF t(3,1) mv this less.prems(4), of 0 True] obtain r' t'
            where run: "bg_process_urb P res w p nomem s = Some (r', t')"
            and post: "case r' of
                Inl e \<Rightarrow> escapes P v e \<and> hcd_inv t' \<and> idle t t'
              | Inr _ \<Rightarrow>
                  (hcd_inv t' \<and> idle t t' \<and>
                    (h_thread_shutdown t' \<or> ((0 :: i32) \<noteq> 0 \<and> fetch_refused P t v) \<or>
                     port_of (u_devadr v) (l_port_info t) = 0)) \<or>
                  (\<exists>u x s'. \<not> bad_urb P v \<and> same_message v x \<and> idle t s' \<and> urb_queued P u x s' t' \<and>
                     ((0 :: i32) = 0 \<longrightarrow> unwritten x t' \<and> env s' = env t))"
            unfolding t(5) by blast
          note i = idle_trans [OF wk t(2)] and f = same_message_fields(4,11) [OF tried(2)]
          show ?thesis
          proof (cases r')
            case (Inl e)
            then show ?thesis using run post i f(1) f(2) [of P] by (auto simp: escapes_def)
          next
            case (Inr x)
            then show ?thesis
              using run post i f(1) f(2) [of P] idle_local(1) [OF t(2)] same_message_trans [OF tried(2)] t(4)
              by (auto; blast)
          qed
        qed
      qed
    qed
  qed
qed

lemma bg_process_urb_queues:
  assumes ok: "held s p" "message_ok w" "ports_ok s" "fetch_data_ok P"
    and w: "\<not> bad_urb P w" "\<not> u_devadr w > 0x7f" "port_of (u_devadr w) (l_port_info s) \<noteq> 0"
    and awake: "\<And>t. idle s t \<Longrightarrow> \<not> h_thread_shutdown t"
  shows "\<exists>t. bg_process_urb P 0 w p nomem s = Some (Inr (), t) \<and> h_inbox t \<noteq> h_inbox s"
proof -
  from bg_process_urb_run [OF ok, of 0 nomem] obtain r t
    where run: "bg_process_urb P 0 w p nomem s = Some (r, t)"
    and post: "case r of
       Inl e \<Rightarrow> escapes P w e \<and> hcd_inv t \<and> idle s t
     | Inr _ \<Rightarrow>
         (hcd_inv t \<and> idle s t \<and> (h_thread_shutdown t \<or> ((0 :: i32) \<noteq> 0 \<and> fetch_refused P s w) \<or>
            port_of (u_devadr w) (l_port_info s) = 0)) \<or>
         (\<exists>u v s'. \<not> bad_urb P w \<and> same_message w v \<and> idle s s' \<and> urb_queued P u v s' t \<and>
            ((0 :: i32) = 0 \<longrightarrow> unwritten v t \<and> env s' = env s))"
    by blast
  then show ?thesis using w awake by (cases r) (auto simp: escapes_def idle_def urb_queued_def)
qed

text \<open>The attempt under the lock when there is no memory for the work.\<close>

lemma attempt_no_work:
  assumes "ports_ok s" "u \<noteq> 0" "\<not> u_devadr w > 0x7f" "port_of (u_devadr w) (l_port_info s) \<noteq> 0"
    and "oom s = True # bs"
  shows "process_urb_attempt P w u 0 s = Some (Inr False, 0, s\<lparr>oom := bs\<rparr>)"
proof -
  define index :: u8 where "index = of_nat (port_of (u_devadr w) (l_port_info s))"
  have "unat index \<noteq> 0" using port_from_address_run(3) [OF assms(1)] assms(4) by (simp add: index_def)
  then have ix: "index \<noteq> 0" by auto
  have "port_from_address (u_devadr w) s = Some (Inr index)"
    using port_from_address_run(1) [OF assms(1)] assms(3) by (simp add: index_def)
  then show ?thesis
    using ix assms(2,5) by (simp add: process_urb_attempt_def new_object_nothrow_def alloc_def alloc_fails_def)
qed

text \<open>A round in which everything succeeds up to the attempt under the lock.\<close>

lemma round_without_work:
  fixes s :: "('e, 'z) local_hcd_scheme"
  assumes inv: "hcd_inv s" "ports_ok s" and msg: "message_ok w" "fetch_data_ok P"
    and al: "alloc_urb P w s = Some (Inr u, v, s2)" "u \<noteq> 0"
    and ft: "if res = 0 then s3 = s2 else usb_vhci_fetch_data P (l_fd s) v s2 = Some (0, s3)"
    and at: "process_urb_attempt P v u 0 s3 = Some (Inr False, q, s4)"
  shows "bg_process_urb P res w 0 False s = bg_process_urb P 0 v q True s4"
    "held s4 q" "idle s s4" "env s4 = env s3" "same_message w v" "message_ok v" "pointed v"
    "prepared s u v s3" "res \<noteq> 0 \<Longrightarrow> fetched P (l_fd s) v s2 0 s3" "env s2 = env s" "\<not> bad_urb P w"
    "waited s s2" "fresh_object s u v s2"
proof -
  have h0: "held s 0" using inv(1) by (simp add: held_inv)
  note wk = held_works(1,2) [OF h0]
  have "alloc_urb_result P w s (Inr u) v s2" using alloc_urb_run [OF wk(2,1) msg(1), of P] al(1) by simp
  then show w2: "waited s s2" "same_message w v" "fresh_object s u v s2" "\<not> bad_urb P w"
    using al(2) by (simp_all add: alloc_urb_result_def)
  show pv: "pointed v" using w2(3) by (simp add: fresh_object_def)
  show mv: "message_ok v" by (rule same_message_fields(13) [OF w2(2) msg(1) pv])
  show e2: "env s2 = env s" using w2(1) by (simp add: waited_def paused_def)
  have fd: "l_fd s2 = l_fd s" using idle_local(2) [OF paused_idle, of s s2] w2(1) by (simp add: waited_def)
  note prep = prepared_fresh [OF w2(1,3) mv]
  have lu: "load_urb u s2 = Some v" using prep by (simp add: prepared_def)
  have st: "(if res \<noteq> 0 then do { uo \<leftarrow> load_urb u s2; usb_vhci_fetch_data P (l_fd s2) uo s2 }
      else Some (res, s2)) = Some (0, s3)"
    using ft fd lu by (simp split: if_splits)
  with fetch_stage [OF prep msg(2), of res]
  have s3: "prepared s u v s3" "if res = 0 then s3 = s2 else fetched P (l_fd s2) v s2 0 s3" by auto
  show "prepared s u v s3" by (rule s3(1))
  show "fetched P (l_fd s) v s2 0 s3" if "res \<noteq> 0" using s3(2) fd that by simp
  have i3: "idle s s3" by (rule prepared_idle [OF wk(1) s3(1)])
  note h3 = held_prepared [OF h0 s3(1)]
  have l3: "load_urb u s3 = Some v" using s3(1) by (simp add: prepared_def)
  have "ports_ok s3" using idle_local(3) [OF i3] inv(2) by simp
  from process_urb_attempt_spec [OF h3 l3 refl this, of P] at
  have s4: "held s4 q" "keeps s3 s4" "memory_only s3 s4" by simp_all
  show "held s4 q" by (rule s4(1))
  show "idle s s4" by (rule idle_trans [OF wk(1) i3 memory_only_idle [OF s4(3,2)]])
  show "env s4 = env s3" using s4(3) by (simp add: memory_only_def)
  show "bg_process_urb P res w 0 False s = bg_process_urb P 0 v q True s4"
    using al st at by (subst bg_process_urb.simps) simp
qed

section \<open>Properties\<close>

text \<open>
  C5. A URB message with good lengths is always dealt with: \<open>bg_work\<close> returns whatever
  allocations fail, ownership stays in order, and no work that was queued changes. Either one
  fresh work is at the end of the inbox, for the first port whose device has the address,
  owning a URB object with the fields of the message, and a \<open>SET_ADDRESS\<close> request has been
  answered and recorded for that port alone; or nothing was enqueued or recorded, because the
  thread was asked to stop, the kernel refused the data, no port has the address, or
  an exception left the function, which happens for an address above 127 and for malformed URBs only.
\<close>

theorem bg_process_urb_enqueues:
  assumes "hcd_inv s" and "ports_ok s" and "message_ok w" and "fetch_data_ok P"
  shows "\<exists>r t. bg_process_urb P res w 0 False s = Some (r, t) \<and> hcd_inv t \<and>
    h_processing t = h_processing s \<and>
    (\<forall>x \<in> footprints s (hcd_owned s). heap t x = heap s x) \<and>
    (if h_inbox t = h_inbox s
     then l_port_info t = l_port_info s \<and>
       (case r of
          Inl e \<Rightarrow> escapes P w e
        | Inr _ \<Rightarrow> (h_thread_shutdown t \<and> (h_thread_shutdown s \<or> True \<in> set (naps s))) \<or> (res \<noteq> 0 \<and> fetch_refused P s w) \<or>
            port_of (u_devadr w) (l_port_info s) = 0)
     else r = Inr () \<and>
       (\<exists>q index u v. h_inbox t = h_inbox s @ [q] \<and> load_work q t = Some (urb_work index u) \<and>
          load_urb u t = Some (answered P v) \<and> same_message w v \<and> pointed v \<and> index \<noteq> 0 \<and>
          unat index = port_of (u_devadr w) (l_port_info s) \<and>
          l_port_info t = (l_port_info s)[unat (index - 1) := addressed P v (port_at index s)]))"
proof -
  have held: "held s 0" using assms(1) by (simp add: held_inv)
  from bg_process_urb_run [OF held assms(3,2,4), of res False] obtain r t
    where run: "bg_process_urb P res w 0 False s = Some (r, t)"
    and post: "case r of
       Inl e \<Rightarrow> escapes P w e \<and> hcd_inv t \<and> idle s t
     | Inr _ \<Rightarrow>
         (hcd_inv t \<and> idle s t \<and> (h_thread_shutdown t \<or> (res \<noteq> 0 \<and> fetch_refused P s w) \<or>
            port_of (u_devadr w) (l_port_info s) = 0)) \<or>
         (\<exists>u v s'. \<not> bad_urb P w \<and> same_message w v \<and> idle s s' \<and> urb_queued P u v s' t \<and>
            (res = 0 \<longrightarrow> unwritten v t \<and> env s' = env s))"
    by blast
  consider (idle) "hcd_inv t" "idle s t" "case r of
          Inl e \<Rightarrow> escapes P w e
        | Inr _ \<Rightarrow> (h_thread_shutdown t \<and> (h_thread_shutdown s \<or> True \<in> set (naps s))) \<or> (res \<noteq> 0 \<and> fetch_refused P s w) \<or>
            port_of (u_devadr w) (l_port_info s) = 0"
    | (queued) u v s' where "r = Inr ()" "same_message w v" "idle s s'" "urb_queued P u v s' t"
    using post by (cases r) (auto simp: idle_def)
  then show ?thesis
  proof cases
    case idle
    then show ?thesis using run idle_local(1) [OF idle(2)] by (auto simp: idle_def keeps_def)
  next
    case queued
    then have "keeps s t"
      using keeps_trans [OF held_works(1) [OF held], of s' t] idle_owned [OF queued(3)]
      by (simp add: idle_def urb_queued_def)
    moreover obtain q index where "hcd_inv t" "h_processing t = h_processing s"
      "h_inbox t = h_inbox s @ [q]" "load_work q t = Some (urb_work index u)"
      "load_urb u t = Some (answered P v)" "pointed v" "index \<noteq> 0"
      "unat index = port_of (u_devadr w) (l_port_info s)"
      "l_port_info t = (l_port_info s)[unat (index - 1) := addressed P v (port_at index s)]"
      using queued(3,4) same_message_fields(4) [OF queued(2)] idle_local(1,4) [OF queued(3)]
      by (auto simp: urb_queued_def idle_def)
    ultimately show ?thesis using run queued(1,2) unfolding keeps_def
      by (intro exI [of _ r] exI [of _ t] conjI) (simp_all, blast)
  qed
qed

text \<open>
  C6. With enough memory the data of a URB reaches the user unchanged. When no allocation fails,
  nobody asks the thread to stop, the address belongs to a port and the message is well formed,
  then exactly one work is enqueued; its URB owns fresh blocks that hold what the kernel
  delivered: the bytes in front of the buffer, and offset and length of each packet, in order; one
  request for the data is made if the kernel announced any, and then each callback is called once.
\<close>

theorem bg_process_urb_delivers:
  assumes "hcd_inv s" and "ports_ok s" and "message_ok w" and "fetch_data_ok P"
    and "oom s = []" and "\<not> h_thread_shutdown s" and "True \<notin> set (naps s)"
    and "\<not> bad_urb P w" and "\<not> u_devadr w > 0x7f" and "port_of (u_devadr w) (l_port_info s) \<noteq> 0"
    and "\<not> fetch_refused P s w"
  shows "\<exists>t q index u v. bg_process_urb P res w 0 False s = Some (Inr (), t) \<and> hcd_inv t \<and>
    h_inbox t = h_inbox s @ [q] \<and> load_work q t = Some (urb_work index u) \<and>
    unat index = port_of (u_devadr w) (l_port_info s) \<and>
    load_urb u t = Some (answered P v) \<and> same_message w v \<and> pointed v \<and>
    (if res = 0 then env t = fold (p_callback P) (h_callbacks s) (env s)
     else \<exists>req e data pkts. id_handle req = u_handle w \<and> id_buffer_length req = u_buffer_length w \<and>
       id_packet_count req = u_packet_count w \<and>
       p_fetch_data P (l_fd s) req (env s) = (e, Inr (data, pkts)) \<and>
       env t = fold (p_callback P) (h_callbacks s) e \<and>
       (u_buffer v \<noteq> 0 \<longrightarrow>
          heap t (u_buffer v) = Some (Bytes (put_data data (cells (u_buffer_length w))))) \<and>
       (u_iso_packets v \<noteq> 0 \<longrightarrow>
          heap t (u_iso_packets v) = Some (Packets (map (Some \<circ> fetched_packet) pkts))))"
proof -
  have held: "held s 0" using assms(1) by (simp add: held_inv)
  have awake: "\<not> h_thread_shutdown t" if "idle s t" for t using that assms(6,7) by (simp add: idle_def)
  have go: "\<not> (False \<and> h_thread_shutdown (if False then usleep s else s))" by simp
  from held assms(3,2,4) refl go show ?thesis
  proof (cases rule: urb_round [where nomem = False and res = res])
    case (tried u v s2 s3 r q t)
    note f = same_message_fields [OF tried(2)]
    have r: "r = Inr True" "urb_queued P u v s3 t"
      using tried(13) assms(5,9,10) by (cases r; auto split: if_splits)+
    have run: "bg_process_urb P res w 0 False s = Some (Inr (), t)" using tried(12) r(1) by simp
    note i3 = idle_local [OF tried(7)] and i2 = tried(4)
    have e2: "env s2 = env s" using i2 by (simp add: waited_def paused_def)
    have same: "h_inbox s3 = h_inbox s" "h_callbacks s3 = h_callbacks s" using tried(7) by (simp_all add: idle_def)
    have fo: "u_buffer v \<noteq> 0 \<longrightarrow> heap s2 (u_buffer v) = Some (Bytes (cells (u_buffer_length w)))"
      "u_iso_packets v \<noteq> 0 \<longrightarrow> heap s2 (u_iso_packets v) = Some (Packets (cells (u_packet_count w)))"
      using tried(5) f(1,2) by (simp_all add: fresh_object_def)
    have data: "if res = 0 then env s3 = env s
      else \<exists>req e data pkts. id_handle req = u_handle w \<and> id_buffer_length req = u_buffer_length w \<and>
        id_packet_count req = u_packet_count w \<and>
        p_fetch_data P (l_fd s) req (env s) = (e, Inr (data, pkts)) \<and> env s3 = e \<and>
        (u_buffer v \<noteq> 0 \<longrightarrow>
           heap s3 (u_buffer v) = Some (Bytes (put_data data (cells (u_buffer_length w))))) \<and>
        (u_iso_packets v \<noteq> 0 \<longrightarrow>
           heap s3 (u_iso_packets v) = Some (Packets (map (Some \<circ> fetched_packet) pkts)))"
    proof (cases "res = 0")
      case True
      then show ?thesis using tried(11) e2 by simp
    next
      case False
      then have ft: "fetched P (l_fd s) v s2 0 s3" using tried(11) by simp
      let ?q = "fetch_request s2 v"
      obtain e d where ed: "p_fetch_data P (l_fd s) ?q (env s) = (e, d)" by fastforce
      have rq: "id_handle ?q = u_handle w" "id_buffer_length ?q = u_buffer_length w"
        "id_packet_count ?q = u_packet_count w"
        using f(1,2,5) by (simp_all add: fetch_request_def)
      then obtain data pkts where d: "d = Inr (data, pkts)"
        using assms(11) ed by (cases d) (auto simp: fetch_refused_def)
      have h3: "heap s3 = fetched_heap (heap s2) v data pkts" "env s3 = e"
        using ft ed d e2 by (simp_all add: fetched_def)
      have "fetch_reply_ok ?q (data, pkts)"
        using assms(4) ed d unfolding fetch_data_ok_def by (metis snd_conv)
      then have "length pkts = unat (u_packet_count v)"
        using rq(3) f(2) by (simp add: fetch_reply_ok_def)
      then have pk: "pkts = [] \<longleftrightarrow> u_packet_count v = 0" by (auto simp: unat_eq_zero)
      have ne: "u_buffer v \<noteq> 0 \<Longrightarrow> u_iso_packets v \<noteq> 0 \<Longrightarrow> u_buffer v \<noteq> u_iso_packets v"
        using fo by auto
      have "u_iso_packets v \<noteq> 0 \<longrightarrow> heap s3 (u_iso_packets v) = Some (Packets (map (Some \<circ> fetched_packet) pkts))"
        using pk tried(3) h3(1) by (auto simp: fetched_heap_def pointed_def)
      moreover have "u_buffer v \<noteq> 0 \<longrightarrow>
          heap s3 (u_buffer v) = Some (Bytes (put_data data (cells (u_buffer_length w))))"
        using pk tried(3) fo(1) h3(1) ne by (auto simp: fetched_heap_def pointed_def data_heap_def)
      ultimately show ?thesis using False rq ed d h3(2) by auto
    qed
    have blk: "u_buffer v \<noteq> 0 \<Longrightarrow> heap t (u_buffer v) = heap s3 (u_buffer v)"
      "u_iso_packets v \<noteq> 0 \<Longrightarrow> heap t (u_iso_packets v) = heap s3 (u_iso_packets v)"
      using r(2) by (simp_all add: urb_queued_def urb_blocks_def)
    obtain q index where q: "hcd_inv t" "env t = fold (p_callback P) (h_callbacks s) (env s3)"
      "load_urb u t = Some (answered P v)" "unat index = port_of (u_devadr w) (l_port_info s)"
      "h_inbox t = h_inbox s @ [q]" "load_work q t = Some (urb_work index u)"
      using r(2) same i3(1) f(4) by (auto simp: urb_queued_def)
    show ?thesis
      using run q tried(2,3) data blk
      by (intro exI [of _ t] exI [of _ q] exI [of _ index] exI [of _ u] exI [of _ v])
        (auto split: if_splits)
  qed (use assms(8,11) awake in auto)
qed

text \<open>
  C33. A retry loses the data of the URB. Take a round in which the URB gets its memory, the kernel
  delivers its data (\<open>res\<close> is not 0, as \<open>usb_vhci_fetch_work\<close> says for a URB with data), and the attempt
  under the lock then fails for lack of memory. The data stands in the URB's blocks, but what is enqueued
  in the end, in whichever later round, is a URB with other blocks, in which no byte and no packet was
  ever written: \<open>res\<close> is 0 by then, and the kernel is not asked again. All that happens to
  the environment after the one fetch is that the callbacks are called.
\<close>

theorem process_urb_retry_unwritten:
  fixes s :: "('e, 'z) local_hcd_scheme"
  assumes "hcd_inv s" and "ports_ok s" and "message_ok w" and "fetch_data_ok P" and "res \<noteq> 0"
    and "alloc_urb P w s = Some (Inr u, v, s2)" and "u \<noteq> 0"
    and "usb_vhci_fetch_data P (l_fd s) v s2 = Some (0, s3)"
    and "process_urb_attempt P v u 0 s3 = Some (Inr False, q, s4)"
    and "bg_process_urb P res w 0 False s = Some (r, t)" and "h_inbox t \<noteq> h_inbox s"
  shows "load_urb u s3 = Some v \<and>
    (\<exists>data pkts. snd (p_fetch_data P (l_fd s) (fetch_request s2 v) (env s)) = Inr (data, pkts) \<and>
       heap s3 = fetched_heap (heap s2) v data pkts) \<and>
    (\<exists>x index u' v'. h_inbox t = h_inbox s @ [x] \<and> load_work x t = Some (urb_work index u') \<and>
       load_urb u' t = Some (answered P v') \<and> same_message w v' \<and> pointed v' \<and> unwritten v' t) \<and>
    env t = fold (p_callback P) (h_callbacks s)
      (fst (p_fetch_data P (l_fd s) (fetch_request s2 v) (env s)))"
proof -
  note rd = round_without_work [OF assms(1-4,6,7), of res s3 q s4, simplified assms(5), simplified, OF assms(8,9)]
  have "ports_ok s4" using idle_local(3) [OF rd(3)] assms(2) by simp
  from bg_process_urb_run [OF rd(2,6) this assms(4), of 0 True] assms(10,11) rd(1,3)
  obtain u' v' s' where n: "same_message v v'" "idle s4 s'" "urb_queued P u' v' s' t" "unwritten v' t" "env s' = env s4"
    by (auto simp: idle_def split: sum.splits)
  then obtain x index where "h_inbox t = h_inbox s @ [x]" "load_work x t = Some (urb_work index u')"
    using rd(3) by (auto simp: urb_queued_def idle_def)
  moreover have "env t = fold (p_callback P) (h_callbacks s) (env s3)"
    using n(2,3,5) rd(3,4) by (simp add: urb_queued_def idle_def)
  moreover have "load_urb u' t = Some (answered P v')" "pointed v'" using n(3) by (simp_all add: urb_queued_def)
  moreover have "load_urb u s3 = Some v" using rd(8) by (simp add: prepared_def)
  moreover note rd(9) [unfolded fetched_def rd(10)]
  ultimately show ?thesis
    using same_message_trans [OF rd(5) n(1)] n(4) by (auto split: sum.splits)
qed

section \<open>Witnesses\<close>

text \<open>The sample controller with a device in the default state, and two messages for it.\<close>

definition sample_addressed :: "bool list \<Rightarrow> log local_hcd" where
  "sample_addressed fails = sample_local\<lparr>oom := fails,
     l_port_info := [\<lparr>pi_adr = 0, pi_stat = port_stat_default\<rparr>]\<rparr>"

definition set_address_urb :: usb_vhci_urb where
  "set_address_urb = zero_urb\<lparr>u_handle := 8, u_type := 2, u_bRequest := 5, u_wValue := 7\<rparr>"

definition bulk_out_urb :: usb_vhci_urb where
  "bulk_out_urb = zero_urb\<lparr>u_handle := 9, u_type := 3, u_epadr := 1, u_buffer_length := 3,
     u_buffer_actual := 3\<rparr>"

lemma sample_addressed_ok: "hcd_inv (sample_addressed fails)" "ports_ok (sample_addressed fails)"
  "l_port_info (sample_addressed fails) = [\<lparr>pi_adr = 0, pi_stat = port_stat_default\<rparr>]"
  "l_port_block (sample_addressed fails) = 4" "heap (sample_addressed fails) 4 = Some (PortTable 1)"
  "h_port_count (sample_addressed fails) = 1"
proof -
  have h: "heap (sample_addressed fails) = heap sample_local"
    "brk (sample_addressed fails) = brk sample_local"
    "hcd_owned (sample_addressed fails) = hcd_owned sample_local"
    by (simp_all add: sample_addressed_def hcd_owned_def)
  show "hcd_inv (sample_addressed fails)"
    using sample_local_inv(1) heap_determines(6) [OF h(1)] h by (simp add: hcd_inv_def heap_ok_def)
  show "ports_ok (sample_addressed fails)"
    "l_port_info (sample_addressed fails) = [\<lparr>pi_adr = 0, pi_stat = port_stat_default\<rparr>]"
    "l_port_block (sample_addressed fails) = 4" "heap (sample_addressed fails) 4 = Some (PortTable 1)"
    "h_port_count (sample_addressed fails) = 1"
    by (simp_all add: sample_addressed_def sample_local_def ports_ok_def sample_heap_def)
qed

lemma sample_messages_ok: "message_ok set_address_urb" "message_ok bulk_out_urb"
  by (simp_all add: message_ok_def set_address_urb_def bulk_out_urb_def zero_urb_def word_sle_eq)

lemma plain_platform_ok: "fetch_data_ok plain_platform"
  unfolding plain_platform_def by (rule fetch_data_ok_sample)

lemma sample_port_of: "port_of 0 [\<lparr>pi_adr = 0, pi_stat = port_stat_default\<rparr>] = 1"
  by (simp add: port_of_def)

lemma unat_is_1: "unat (i :: u8) = Suc 0 \<Longrightarrow> i = 1"
  by (simp add: word_unat_eq_iff)

theorem bg_process_urb_enqueues_witness:
  "\<exists>t q. bg_process_urb plain_platform 0 set_address_urb 0 False (sample_addressed [False, True]) =
       Some (Inr (), t) \<and> h_inbox t = [6, q] \<and> map pi_adr (l_port_info t) = [7]"
proof -
  have v: "is_set_address plain_platform v" "u_wValue v = 7" if "same_message set_address_urb v" for v
    using same_message_fields(12) [OF that, of plain_platform] same_message_fields(9) [OF that]
    by (simp_all add: is_set_address_def is_control_def get_endpoint_number_def set_address_urb_def
        zero_urb_def sample_platform_simps)
  have "u_devadr set_address_urb = 0" "\<not> bad_urb plain_platform set_address_urb"
    by (simp_all add: set_address_urb_def zero_urb_def bad_urb_def sample_platform_simps)
  then have e: "\<not> escapes plain_platform set_address_urb x" for x by (simp add: escapes_def)
  have n: "h_inbox (sample_addressed fails) = [6]" "naps (sample_addressed fails) = [False]"
    "\<not> h_thread_shutdown (sample_addressed fails)" for fails
    by (simp_all add: sample_addressed_def sample_local_def)
  have p: "port_at 1 (sample_addressed fails) = \<lparr>pi_adr = 0, pi_stat = port_stat_default\<rparr>" for fails
    by (simp add: port_at_def sample_addressed_ok(3))
  from bg_process_urb_enqueues [OF sample_addressed_ok(1,2) sample_messages_ok(1) plain_platform_ok,
      of 0 "[False, True]"] e \<open>u_devadr set_address_urb = 0\<close>
  show ?thesis
    by (auto simp: sample_addressed_ok(3) sample_port_of n p addressed_def v dest!: unat_is_1
        split: if_splits sum.splits)
qed

lemma plain_platform_delivers:
  "id_packet_count q = 0 \<Longrightarrow> snd (p_fetch_data plain_platform fd q e) = Inr (if id_buffer_length q = 0 then [] else [42], [])"
  by (simp add: sample_platform_simps sample_reply_def)

theorem bg_process_urb_delivers_witness:
  "\<exists>t q u v. bg_process_urb plain_platform 1 bulk_out_urb 0 False (sample_addressed []) =
       Some (Inr (), t) \<and> h_inbox t = [6, q] \<and> load_urb u t = Some v \<and> u_handle v = 9 \<and>
     heap t (u_buffer v) = Some (Bytes [Some 42, None, None])"
proof -
  have n: "h_inbox (sample_addressed []) = [6]" "True \<notin> set (naps (sample_addressed []))"
    "\<not> h_thread_shutdown (sample_addressed [])" "oom (sample_addressed []) = []"
    by (simp_all add: sample_addressed_def sample_local_def)
  have w: "u_devadr bulk_out_urb = 0" "\<not> bad_urb plain_platform bulk_out_urb"
    "u_buffer_length bulk_out_urb = 3" "u_packet_count bulk_out_urb = 0" "u_handle bulk_out_urb = 9"
    by (simp_all add: bulk_out_urb_def zero_urb_def bad_urb_def sample_platform_simps)
  have r: "\<not> fetch_refused plain_platform (sample_addressed []) bulk_out_urb"
    by (simp add: fetch_refused_def plain_platform_delivers w)
  have d: "data = [42]" if "p_fetch_data plain_platform fd q e = (e', Inr (data, pkts))"
      "id_packet_count q = 0" "id_buffer_length q = 3" for fd q e e' data pkts
    using that plain_platform_delivers [of q fd e] by simp
  from bg_process_urb_delivers [OF sample_addressed_ok(1,2) sample_messages_ok(2) plain_platform_ok n(4,3,2) w(2) _ _ r, of 1]
  obtain t q u v where t: "bg_process_urb plain_platform 1 bulk_out_urb 0 False (sample_addressed []) =
       Some (Inr (), t)" "h_inbox t = [6, q]" "load_urb u t = Some (answered plain_platform v)"
     "same_message bulk_out_urb v" "pointed v"
     "u_buffer v \<noteq> 0 \<longrightarrow> heap t (u_buffer v) = Some (Bytes (put_data [42] (cells 3)))"
    using w n(1) d by (auto simp: sample_addressed_ok(3) sample_port_of)
  moreover have "(cells 3 :: u8 option list) = [None, None, None]"
    unfolding cells_def by simp (simp add: numeral_3_eq_3)
  then have "put_data [42] (cells 3) = [Some 42, None, None]" by (simp add: put_data_def)
  ultimately show ?thesis
    using same_message_fields(1,5) [OF t(4)] w
    by (intro exI [of _ t] exI [of _ q] exI [of _ u] exI [of _ "answered plain_platform v"])
      (simp add: pointed_def)
qed

text \<open>
  A transfer of three bytes to the device: the blocks of the URB can be allocated, the kernel
  sends one byte, and then there is no memory for the work.
\<close>

lemma sample_first_round:
  obtains u v and s2 s3 s4 :: "log local_hcd" where
    "alloc_urb plain_platform bulk_out_urb (sample_addressed [False, False, True]) = Some (Inr u, v, s2)" "u \<noteq> 0"
    "usb_vhci_fetch_data plain_platform (l_fd (sample_addressed [False, False, True])) v s2 = Some (0, s3)"
    "process_urb_attempt plain_platform v u 0 s3 = Some (Inr False, 0, s4)"
    "oom s4 = []" "heap s3 (u_buffer v) = Some (Bytes [Some 42, None, None])" "v = bulk_out_urb\<lparr>u_buffer := u_buffer v\<rparr>"
proof -
  let ?s = "sample_addressed [False, False, True]" and ?v = "bulk_out_urb\<lparr>u_buffer := 7\<rparr>"
  define s2 where "s2 = ?s\<lparr>heap := (heap ?s)(7 \<mapsto> Bytes (cells 3), 8 \<mapsto> UrbObj ?v), brk := 9, oom := [True]\<rparr>"
  have n: "brk ?s = 7" "oom ?s = [False, False, True]" by (simp_all add: sample_addressed_def sample_local_def)
  have w: "u_buffer_length bulk_out_urb = 3" "u_packet_count bulk_out_urb = 0" "u_iso_packets bulk_out_urb = 0"
    "u_devadr bulk_out_urb = 0"
    by (simp_all add: bulk_out_urb_def zero_urb_def)
  have c: "own_check plain_platform ?v = Inr ?v"
    using own_check_pointed [of ?v plain_platform] w
    by (simp add: pointed_def) (simp add: bad_urb_def bulk_out_urb_def zero_urb_def sample_platform_simps)
  let ?b = "?s\<lparr>heap := (heap ?s)(7 \<mapsto> Bytes (cells 3)), brk := 8, oom := [False, True]\<rparr>"
  have buf: "new_retry Bytes 3 ?s = Some (7, ?b)"
    by (subst new_retry.simps) (simp add: new_array_def alloc_def alloc_fails_def n word_sless_alt)
  have obj: "new_urb_retry plain_platform ?v ?b = Some (Inr 8, s2)"
    by (subst new_urb_retry.simps)
      (simp add: new_object_nothrow_def alloc_def alloc_fails_def urb_own_ctor_check c urb_block_def construct_def
        store_def s2_def)
  have al: "alloc_urb plain_platform bulk_out_urb ?s = Some (Inr 8, ?v, s2)"
    using buf obj by (simp add: alloc_urb_def w)
  define s3 where "s3 = s2\<lparr>env := fst (p_fetch_data plain_platform 3 (fetch_request s2 ?v) (env s2)),
     heap := (heap s2)(7 \<mapsto> Bytes [Some 42, None, None])\<rparr>"
  have cells: "(cells 3 :: u8 option list) = [None, None, None]"
    unfolding cells_def by simp (simp add: numeral_3_eq_3)
  have "l_fd ?s = 3" by (simp add: sample_addressed_def sample_local_def)
  moreover have "usb_vhci_fetch_data plain_platform 3 ?v s2 = Some (0, s3)"
    by (simp add: usb_vhci_fetch_data_def w syscall_def s3_def sample_platform_simps sample_reply_def fetch_request_def
        copy_to_user_bytes_def copy_to_user_packets_def load_bytes_def load_def store_def dealloc_def s2_def cells)
  ultimately have ft: "usb_vhci_fetch_data plain_platform (l_fd ?s) ?v s2 = Some (0, s3)" by simp
  have l: "l_port_info s3 = l_port_info ?s" "h_port_count s3 = h_port_count ?s" "oom s3 = [True]"
    by (simp_all add: s3_def s2_def)
  then have "ports_ok s3" using sample_addressed_ok(2) by (simp add: ports_ok_def)
  then have "process_urb_attempt plain_platform ?v 8 0 s3 = Some (Inr False, 0, s3\<lparr>oom := []\<rparr>)"
    by (rule attempt_no_work) (simp_all add: l w sample_addressed_ok(3) sample_port_of)
  from that [OF al _ ft this] show thesis by (simp add: s3_def)
qed

theorem process_urb_retry_unwritten_witness:
  "\<exists>t x u v. bg_process_urb plain_platform 1 bulk_out_urb 0 False (sample_addressed [False, False, True]) = Some (Inr (), t) \<and>
     h_inbox t = [6, x] \<and> load_urb u t = Some v \<and> u_handle v = 9 \<and>
     heap t (u_buffer v) = Some (Bytes [None, None, None])"
proof -
  let ?s = "sample_addressed [False, False, True]"
  obtain u v and s2 s3 s4 :: "log local_hcd" where f:
    "alloc_urb plain_platform bulk_out_urb ?s = Some (Inr u, v, s2)" "u \<noteq> 0"
    "usb_vhci_fetch_data plain_platform (l_fd ?s) v s2 = Some (0, s3)"
    "process_urb_attempt plain_platform v u 0 s3 = Some (Inr False, 0, s4)"
    using sample_first_round by metis
  note ok = sample_addressed_ok(1,2) sample_messages_ok(2) plain_platform_ok
  have one: "(1 :: i32) \<noteq> 0" by simp
  have w: "u_devadr bulk_out_urb = 0" "\<not> bad_urb plain_platform bulk_out_urb"
    "u_buffer_length bulk_out_urb = 3" "u_handle bulk_out_urb = 9"
    by (simp_all add: bulk_out_urb_def zero_urb_def bad_urb_def sample_platform_simps)
  have n: "h_inbox ?s = [6]" "naps ?s = [False]" "\<not> h_thread_shutdown ?s"
    by (simp_all add: sample_addressed_def sample_local_def)
  note rd = round_without_work [OF ok f(1,2), of 1 s3 0 s4, simplified one, simplified, OF f(3,4)]
  note sm = same_message_fields [OF rd(5)]
  have p: "ports_ok s4" "port_of 0 (l_port_info s4) = 1"
    using idle_local(1,3) [OF rd(3)] ok(2) by (simp_all add: sample_addressed_ok(3) sample_port_of)
  have "\<not> h_thread_shutdown t" if "idle s4 t" for t
    using that rd(3) n by (auto simp: idle_def)
  from bg_process_urb_queues [OF rd(2,6) p(1) ok(4) _ _ _ this, of True] rd(1) sm(4) p(2) w
    sm(11) [of plain_platform]
  obtain t where t: "bg_process_urb plain_platform 1 bulk_out_urb 0 False ?s = Some (Inr (), t)"
      "h_inbox t \<noteq> h_inbox s4" by auto
  have "h_inbox t \<noteq> h_inbox ?s" using t(2) rd(3) by (simp add: idle_def)
  from process_urb_retry_unwritten [OF ok one f t(1) this] n(1)
  obtain x u' v' where q: "h_inbox t = [6, x]" "load_urb u' t = Some (answered plain_platform v')"
      "same_message bulk_out_urb v'" "unwritten v' t" "pointed v'" by auto
  have c: "(cells 3 :: u8 option list) = [None, None, None]"
    unfolding cells_def by simp (simp add: numeral_3_eq_3)
  show ?thesis
    using t(1) q same_message_fields(1,5) [OF q(3)] w c
    by (intro exI [of _ t] exI [of _ x] exI [of _ u'] exI [of _ "answered plain_platform v'"])
      (simp add: unwritten_def pointed_def)
qed

end
