(* ===== verification/Local_Background.thy ===== *)
theory Local_Background
  imports Local_Process_Urb
begin

text \<open>
  \<open>bg_work\<close> as a whole: what each message of the kernel does to the controller, and that the
  controller's invariant survives every one of them.
\<close>

section \<open>The message\<close>

lemma fetch_work_cases:
  assumes "work_types_ok P"
  obtains (none) w e err where
      "usb_vhci_fetch_work P fd work s = (- 1, w, s\<lparr>env := e, errno := err\<rparr>)"
  | (port) ps e where
      "usb_vhci_fetch_work P fd work s =
        (0, \<lparr>wk_work = WorkPortStat ps, wk_type = WORK_TYPE_PORT_STAT P\<rparr>, s\<lparr>env := e\<rparr>)"
  | (urb) kw u res e where
      "usb_vhci_fetch_work P fd work s =
        (res, \<lparr>wk_work = WorkUrb u, wk_type = WORK_TYPE_PROCESS_URB P\<rparr>, s\<lparr>env := e\<rparr>)"
      "res \<noteq> - 1" "snd (p_fetch_work P fd 100 (env s)) = Inr kw" "fetched_urb_wf P u"
      "urb_from_kernel kw u"
      "u_packet_count u = (if iu_type (iw_urb kw) = URB_TYPE_ISO P then iu_packet_count (iw_urb kw) else 0)"
  | (cancel) h e where
      "usb_vhci_fetch_work P fd work s =
        (0, \<lparr>wk_work = WorkHandle h, wk_type = WORK_TYPE_CANCEL_URB P\<rparr>, s\<lparr>env := e\<rparr>)"
proof -
  obtain e r where er: "p_fetch_work P fd 100 (env s) = (e, r)" by fastforce
  have d: "distinct [WORK_TYPE_PORT_STAT P, WORK_TYPE_PROCESS_URB P, WORK_TYPE_CANCEL_URB P]"
    using assms by (simp add: work_types_ok_def)
  have s: "s\<lparr>env := e\<rparr> = s\<lparr>env := e, errno := errno s\<rparr>" by simp
  note unf = usb_vhci_fetch_work_def usb_vhci_fetch_work_timeout_def syscall_def er
  show thesis
  proof (cases r)
    case (Inl err)
    then show thesis using none [of work err e] by (simp add: unf)
  next
    case (Inr kw)
    consider (p) "iw_type kw = WORK_TYPE_PORT_STAT P" | (u) "iw_type kw = WORK_TYPE_PROCESS_URB P"
      | (c) "iw_type kw = WORK_TYPE_CANCEL_URB P"
      | (other) "iw_type kw \<notin> {WORK_TYPE_PORT_STAT P, WORK_TYPE_PROCESS_URB P, WORK_TYPE_CANCEL_URB P}"
      by blast
    then show thesis
    proof cases
      case p
      then have "usb_vhci_fetch_work P fd work s =
          (0, \<lparr>wk_work = WorkPortStat \<lparr>ps_status = ip_status (iw_port kw), ps_change = ip_change (iw_port kw),
                  ps_index = ip_index (iw_port kw), ps_flags = ip_flags (iw_port kw)\<rparr>,
               wk_type = WORK_TYPE_PORT_STAT P\<rparr>, s\<lparr>env := e\<rparr>)"
        using Inr by (auto simp: unf)
      then show thesis by (rule port)
    next
      case u
      show thesis
      proof (cases "fetch_urb_by_type P (iw_urb kw) zero_urb")
        case None
        then have "usb_vhci_fetch_work P fd work s =
            (- 1, work\<lparr>wk_work := WorkUrb zero_urb\<rparr>, s\<lparr>env := e, errno := EBADMSG\<rparr>)"
          using Inr u d by (auto simp: unf)
        then show thesis by (rule none)
      next
        case (Some v)
        let ?u = "fetched_urb P kw v"
        let ?res = "if u_buffer_actual ?u \<noteq> 0 \<or> u_packet_count ?u \<noteq> 0 then 1 else 0 :: i32"
        have run: "usb_vhci_fetch_work P fd work s =
            (?res, \<lparr>wk_work = WorkUrb ?u, wk_type = WORK_TYPE_PROCESS_URB P\<rparr>, s\<lparr>env := e\<rparr>)"
          using u d Inr Some by (auto simp: unf fetched_urb_def Let_def split del: if_split)
        have "u_packet_count v = (if iu_type (iw_urb kw) = URB_TYPE_ISO P then iu_packet_count (iw_urb kw) else 0)"
          using Some by (auto simp: fetch_urb_by_type_def zero_urb_def split: if_splits)
        then have pc: "u_packet_count ?u =
            (if iu_type (iw_urb kw) = URB_TYPE_ISO P then iu_packet_count (iw_urb kw) else 0)"
          by (simp add: fetched_urb_def Let_def)
        have "?res \<noteq> - 1" by simp
        then show thesis
          using urb [OF run _ _ _ _ pc] fetched_urb_shape [OF Some] er Inr by simp
      qed
    next
      case c
      then have "usb_vhci_fetch_work P fd work s =
          (0, \<lparr>wk_work = WorkHandle (iw_handle kw), wk_type = WORK_TYPE_CANCEL_URB P\<rparr>, s\<lparr>env := e\<rparr>)"
        using Inr d by (auto simp: unf)
      then show thesis by (rule cancel)
    next
      case other
      then have "usb_vhci_fetch_work P fd work s = (- 1, work, s\<lparr>env := e, errno := EBADMSG\<rparr>)"
        using Inr by (auto simp: unf)
      then show thesis by (rule none)
    qed
  qed
qed

section \<open>The invariant\<close>

text \<open>Device addresses have seven bits; \<open>0xff\<close> stands for no address.\<close>

definition adr_ok :: "port_info \<Rightarrow> bool" where
  "adr_ok p \<longleftrightarrow> pi_adr p \<le> 0x7f \<or> pi_adr p = 0xff"

text \<open>The block for the array of ports is there.\<close>

definition table_ok :: "('e, 'z) local_hcd_scheme \<Rightarrow> bool" where
  "table_ok s \<longleftrightarrow> heap s (l_port_block s) = Some (PortTable (unat (h_port_count s)))"

lemma table_ok_tables: "table_ok s \<Longrightarrow> l_port_block s \<in> tables s"
  by (simp add: table_ok_def tables_def)

definition local_inv :: "('e, 'z) local_hcd_scheme \<Rightarrow> bool" where
  "local_inv s \<longleftrightarrow> hcd_inv s \<and> ports_ok s \<and> list_all adr_ok (l_port_info s) \<and> table_ok s"

text \<open>The blocks a \<open>local_hcd\<close> owns: its array of ports, and what its works own.\<close>

definition local_blocks :: "('e, 'z) local_hcd_scheme \<Rightarrow> nat set" where
  "local_blocks s = insert (l_port_block s) (footprints s (hcd_owned s))"

text \<open>What the code relies on from the kernel: it never announces a negative length.\<close>

definition kernel_ok :: "'e platform \<Rightarrow> bool" where
  "kernel_ok P \<longleftrightarrow> abi_ok P \<and> fetch_data_ok P \<and>
     (\<forall>fd n e kw. snd (p_fetch_work P fd n e) = Inr kw \<longrightarrow>
        0 \<le>s iu_buffer_length (iw_urb kw) \<and> 0 \<le>s iu_packet_count (iw_urb kw))"

lemma adr_ok_update: "adr_ok p \<Longrightarrow> adr_ok (port_stat_update nps p)"
  by (simp add: port_stat_update_def adr_ok_def Let_def)

lemma adr_ok_addressed: assumes "adr_ok p" shows "adr_ok (addressed P v p)"
proof -
  have "(ucast w :: u8) \<le> 0x7f" if "\<not> w > (0x7f :: u16)" for w
  proof -
    have "unat w \<le> 127" using that by (simp add: word_le_nat_alt not_less)
    then show ?thesis by (simp add: word_le_nat_alt unsigned_ucast_eq take_bit_eq_mod)
  qed
  then show ?thesis using assms by (simp add: addressed_def adr_ok_def)
qed

lemma list_all_update: "list_all Q xs \<Longrightarrow> Q x \<Longrightarrow> list_all Q (xs[i := x])"
  using set_update_subset_insert [of xs i x] by (auto simp: list_all_iff)

lemma adr_ok_at:
  assumes "list_all adr_ok (l_port_info s)" "port_ok index s" shows "adr_ok (port_at index s)"
proof -
  have "unat index - 1 < length (l_port_info s)"
    using assms(2) unat_pos [of index] unfolding port_ok_def by linarith
  then show ?thesis using assms(1) by (simp add: port_at_def list_all_length)
qed

lemma hcd_frame_local:
  assumes "hcd_frame (s :: ('e, 'z) local_hcd_scheme) t"
  shows "l_port_info t = l_port_info s" "steady s t"
proof -
  have m: "hcd.more t = hcd.more s" using assms by (simp add: hcd_frame_def)
  then show "l_port_info t = l_port_info s" by (cases s; cases t; simp)
  from m have "l_fd t = l_fd s" "l_port_block t = l_port_block s" by (cases s; cases t; simp)+
  then show "steady s t" using assms by (simp add: hcd_frame_def steady_def)
qed

text \<open>No URB around has packets.\<close>

definition no_packets :: "('e, 'z) machine_scheme \<Rightarrow> nat \<Rightarrow> bool" where
  "no_packets s p \<longleftrightarrow>
     (case load_work p s of
        None \<Rightarrow> False
      | Some w \<Rightarrow>
          (case w_kind w of
             ProcessUrbWork q \<Rightarrow> (case load_urb q s of None \<Rightarrow> False | Some u \<Rightarrow> u_packet_count u = 0)
           | _ \<Rightarrow> True))"

definition plain_urbs :: "('e, 'z) hcd_scheme \<Rightarrow> bool" where
  "plain_urbs s \<longleftrightarrow> (\<forall>p \<in> set (hcd_owned s). no_packets s p)"

lemma no_packets_frame:
  assumes "work_object s p" "\<And>x. x \<in> work_footprint s p \<Longrightarrow> heap t x = heap s x"
  shows "no_packets t p = no_packets s p"
proof -
  obtain w where w: "load_work p s = Some w" using assms(1) by (rule work_objectE)
  then have l: "load_work p t = Some w"
    using assms(2) load_cong(2) [of t p s] by (simp add: work_footprint_def)
  show ?thesis
  proof (cases "w_kind w")
    case (ProcessUrbWork q)
    then obtain u where u: "load_urb q s = Some u"
      using assms(1) w by (auto simp: work_object_def urb_object_def split: option.splits)
    then have "q \<in> work_footprint s p"
      using w ProcessUrbWork by (simp add: work_footprint_def urb_footprint_def)
    then have "load_urb q t = Some u" using assms(2) u load_cong(1) [of t q s] by simp
    then show ?thesis using w l u ProcessUrbWork by (simp add: no_packets_def)
  qed (use w l in \<open>simp_all add: no_packets_def\<close>)
qed

lemma plain_urbs_keeps:
  assumes "works_ok s (hcd_owned s)" "keeps s t" "p \<in> set (hcd_owned s)"
  shows "no_packets t p = no_packets s p"
proof (rule no_packets_frame)
  show "work_object s p" using assms(1,3) by (rule works_ok_object)
  show "heap t x = heap s x" if "x \<in> work_footprint s p" for x
    using assms(2,3) that work_footprint_subset [of p "hcd_owned s" s] by (auto simp: keeps_def)
qed

lemma plain_urbs_new:
  assumes "plain_urbs s" "works_ok s (hcd_owned s)" "keeps s t"
    "h_inbox t = h_inbox s @ new" "h_processing t = h_processing s" "\<And>q. q \<in> set new \<Longrightarrow> no_packets t q"
  shows "plain_urbs t"
  using assms plain_urbs_keeps [OF assms(2,3)] by (auto simp: plain_urbs_def hcd_owned_def)

lemma plain_urbs_heap:
  assumes "heap t = heap s" "hcd_owned t = hcd_owned s" shows "plain_urbs t = plain_urbs s"
proof -
  have l: "load_work p t = load_work p s" "load_urb p t = load_urb p s" for p
    using assms(1) load_cong [of t p s] by simp_all
  show ?thesis unfolding plain_urbs_def no_packets_def l assms(2) ..
qed

lemma plain_urbs_mark:
  assumes "hcd_inv s" "p \<in> set (hcd_owned s)" "load_work p s = Some w" "plain_urbs s"
  shows "plain_urbs (mark p s)"
proof -
  have "no_packets (mark p s) q" if q: "q \<in> set (hcd_owned s)" for q
  proof -
    obtain v where v: "load_work q s = Some v"
      using works_ok_object [of s "hcd_owned s" q] q assms(1) by (auto simp: hcd_inv_def elim: work_objectE)
    have pre: "no_packets s q" using assms(4) q by (simp add: plain_urbs_def)
    have m: "\<exists>v'. load_work q (mark p s) = Some v' \<and> w_kind v' = w_kind v"
      using v assms(3) load_work_mark [OF assms(3), of q] by (cases "q = p") (simp_all add: work_cancel_def)
    have u: "load_urb x (mark p s) = load_urb x s" if "load_urb x s \<noteq> None" for x
    proof -
      have "x \<noteq> p" using that assms(3) by (auto simp: load_urb_Some load_work_Some)
      then show ?thesis using load_cong(1) [of "mark p s" x s] by simp
    qed
    show ?thesis using pre v m u by (auto simp: no_packets_def split: work_kind.splits option.splits)
  qed
  then show ?thesis by (simp add: plain_urbs_def)
qed

text \<open>Every work in the queues belongs to a port of the controller.\<close>

definition port_upto :: "u8 \<Rightarrow> ('e, 'z) machine_scheme \<Rightarrow> nat \<Rightarrow> bool" where
  "port_upto n s p \<longleftrightarrow> (case load_work p s of None \<Rightarrow> False | Some w \<Rightarrow> w_port w \<le> n)"

definition ranged :: "('e, 'z) hcd_scheme \<Rightarrow> bool" where
  "ranged s \<longleftrightarrow> (\<forall>p \<in> set (hcd_owned s). port_upto (h_port_count s) s p)"

lemma ranged_heap:
  assumes "heap t = heap s" "hcd_owned t = hcd_owned s" "h_port_count t = h_port_count s"
  shows "ranged t = ranged s"
  unfolding ranged_def port_upto_def assms(2,3) heap_determines(1) [OF assms(1)] ..

lemma ranged_subset:
  assumes "ranged s" "set (hcd_owned t) \<subseteq> set (hcd_owned s)" "h_port_count t = h_port_count s"
    and "\<And>p. p \<in> set (hcd_owned t) \<Longrightarrow> load_work p t = load_work p s"
  shows "ranged t"
  using assms by (auto simp: ranged_def port_upto_def)

lemma ranged_new:
  assumes "ranged s" "works_ok s (hcd_owned s)" "keeps s t" "h_port_count t = h_port_count s"
    "h_inbox t = h_inbox s @ new" "h_processing t = h_processing s"
    "\<And>q. q \<in> set new \<Longrightarrow> port_upto (h_port_count s) t q"
  shows "ranged t"
proof -
  have "load_work p t = load_work p s" if "p \<in> set (hcd_owned s)" for p
    using works_ok_frame(3) [OF assms(2), of t] assms(3) that by (auto simp: keeps_def)
  then show ?thesis using assms(1,4-7) by (auto simp: ranged_def port_upto_def hcd_owned_def)
qed

lemma ranged_mark:
  assumes "load_work p s = Some w" "ranged s" shows "ranged (mark p s)"
proof -
  have n: "h_port_count (mark p s) = h_port_count s" by (simp add: mark_def)
  show ?thesis
    using assms(2) load_work_mark [OF assms(1)] assms(1)
    by (auto simp: ranged_def port_upto_def n work_cancel_def split: option.splits)
qed

text \<open>What one message does to the controller; \<open>np\<close>: it brings no packets.\<close>

definition bg_effect :: "bool \<Rightarrow> ('e, 'z) local_hcd_scheme \<Rightarrow> ('e, 'z) local_hcd_scheme \<Rightarrow> bool" where
  "bg_effect np s t \<longleftrightarrow> local_inv t \<and> steady s t \<and> h_processing t = h_processing s \<and>
     (\<exists>new. h_inbox t = h_inbox s @ new \<and> length new \<le> 1) \<and> (np \<and> plain_urbs s \<longrightarrow> plain_urbs t) \<and>
     (ranged s \<longrightarrow> ranged t)"

lemma bg_effect_refl: "local_inv s \<Longrightarrow> bg_effect np s s"
  by (auto simp: bg_effect_def steady_refl)

lemma local_inv_env:
  "local_inv (s\<lparr>env := e\<rparr>) = local_inv s" "local_inv (s\<lparr>env := e, errno := x\<rparr>) = local_inv s"
  using heap_determines(6) [of "s\<lparr>env := e\<rparr>" s] heap_determines(6) [of "s\<lparr>env := e, errno := x\<rparr>" s]
  by (simp_all add: local_inv_def hcd_inv_def hcd_owned_def heap_ok_def ports_ok_def table_ok_def)

lemma bg_effect_env:
  "bg_effect np (s\<lparr>env := e\<rparr>) t = bg_effect np s t"
  using plain_urbs_heap [of "s\<lparr>env := e\<rparr>" s] ranged_heap [of "s\<lparr>env := e\<rparr>" s]
  by (simp add: bg_effect_def steady_def hcd_owned_def)

lemma port_stat_done_steady: "port_stat_done P index nps s t \<Longrightarrow> steady s t"
proof -
  assume "port_stat_done P index nps s t"
  then obtain q r where "memory_only s r"
    and t: "t = on_work_enqueued P (set_port_entry index (port_stat_update nps (port_at index s))
              (r\<lparr>h_inbox := h_inbox s @ [q]\<rparr>))"
    unfolding port_stat_done_def got_work_def by blast
  then have "steady s r" by (intro memory_only_steady)
  then show "steady s t" by (simp add: t on_work_enqueued_def set_port_entry_def steady_def)
qed

lemma local_inv_ports:
  assumes "hcd_inv t" "steady s t" "local_inv s"
    "l_port_info t = (l_port_info s)[i := p] \<and> adr_ok p \<or> l_port_info t = l_port_info s"
    "\<And>x. x \<in> tables s \<Longrightarrow> heap t x = heap s x"
  shows "local_inv t"
proof -
  have "table_ok t"
    using assms(2,3) assms(5) [of "l_port_block s"] table_ok_tables [of s]
    by (simp add: local_inv_def table_ok_def steady_def)
  then show ?thesis
    using assms(1-4) list_all_update [of adr_ok "l_port_info s" p i]
    by (auto simp: local_inv_def ports_ok_def steady_def)
qed

lemma local_inv_frame:
  assumes "local_inv s" "hcd_inv t" "hcd_frame s t" "\<And>x. x \<in> tables s \<Longrightarrow> heap t x = heap s x"
  shows "local_inv t"
  using local_inv_ports [OF assms(2) _ assms(1) _ assms(4)] hcd_frame_local [OF assms(3)] by blast

text \<open>Works that are removed, marked or added are no arrays of ports.\<close>

lemma tables_restrict:
  assumes "works_ok s (hcd_owned s)" "set gone \<subseteq> set (hcd_owned s)" "heap t = heap s |` (- footprints s gone)" "x \<in> tables s"
  shows "heap t x = heap s x"
proof -
  have "x \<notin> footprints s gone"
    using footprints_tables [OF assms(1), of x] assms(2,4) by (auto simp: footprints_def)
  then show ?thesis by (simp add: assms(3))
qed

lemma tables_mark: "load_work p s = Some w \<Longrightarrow> x \<in> tables s \<Longrightarrow> heap (mark p s) x = heap s x"
  using mark_other [of p x s] by (cases "x = p") (auto simp: tables_def load_work_Some)

lemma tables_extend: "heap s \<subseteq>\<^sub>m heap t \<Longrightarrow> x \<in> tables s \<Longrightarrow> heap t x = heap s x"
  using tables_live [of x s] by (metis map_le_def domIff)

lemma port_ok_le: "port_ok index s \<Longrightarrow> ports_ok s \<Longrightarrow> index \<le> h_port_count s"
  by (simp add: port_ok_def ports_ok_def word_le_nat_alt)

lemma bg_port_stat_effect:
  assumes "local_inv s" "port_ok index s"
  shows "\<exists>t. bg_port_stat P index nps 0 False s = Some (Inr (), t) \<and> bg_effect True s t"
proof -
  have inv: "hcd_inv s" using assms(1) by (simp add: local_inv_def)
  then have wk: "works_ok s (hcd_owned s)" by (simp add: hcd_inv_def)
  from inv have "spare s 0" by (simp add: spare_def hcd_inv_def)
  from bg_port_stat_run [OF this assms(2), of P nps False]
  obtain t where t: "bg_port_stat P index nps 0 False s = Some (Inr (), t)"
    "(paused s t \<and> hcd_inv t \<and> h_thread_shutdown t) \<or>
     (\<exists>s'. paused s s' \<and> port_stat_done P index nps s' t)" by blast
  from t(2) have "bg_effect True s t"
  proof (elim disjE exE conjE)
    assume p: "paused s t" "hcd_inv t"
    have "local_inv t"
      using local_inv_ports [OF p(2) paused_steady [OF p(1)] assms(1)] paused_local(1) [OF p(1)] p(1) keepsD(2)
      by (auto simp: paused_def)
    moreover have "plain_urbs s \<longrightarrow> plain_urbs t"
      using plain_urbs_new [OF _ wk, of t "[]"] p(1) by (simp add: paused_def)
    moreover have "ranged s \<longrightarrow> ranged t"
      using ranged_new [OF _ wk, of t "[]"] p(1) paused_steady [OF p(1)] by (simp add: paused_def steady_def)
    ultimately show ?thesis using p(1) paused_steady [OF p(1)] by (simp add: bg_effect_def paused_def)
  next
    fix s' assume p: "paused s s'" and d: "port_stat_done P index nps s' t"
    have st: "steady s t" by (rule steady_trans [OF paused_steady [OF p] port_stat_done_steady [OF d]])
    have ad: "adr_ok (port_stat_update nps (port_at index s))"
      using adr_ok_update adr_ok_at [OF _ assms(2)] assms(1) by (simp add: local_inv_def)
    from d show ?thesis
    proof (rule port_stat_done_effect)
      fix q assume q: "hcd_inv t" "h_inbox t = h_inbox s' @ [q]" "h_processing t = h_processing s'"
        "l_port_info t = (l_port_info s')[unat (index - 1) := port_stat_update nps (port_at index s')]"
        "keeps s' t" "load_work q t = Some (port_stat_work_of P index nps (pi_stat (port_at index s')))"
      have ks: "keeps s t"
        using keeps_trans [OF wk _ paused_owned [OF p] q(5)] p by (simp add: paused_def)
      moreover have "no_packets t q" "port_upto (h_port_count s) t q"
        using q(6) port_ok_le [OF assms(2)] assms(1)
        by (simp_all add: no_packets_def port_stat_work_of_def port_upto_def local_inv_def)
      ultimately have np: "plain_urbs s \<longrightarrow> plain_urbs t" "ranged s \<longrightarrow> ranged t"
        using plain_urbs_new [OF _ wk, of t "[q]"] ranged_new [OF _ wk, of t "[q]"] q(2,3) p st
        by (simp_all add: paused_def steady_def)
      have "local_inv t"
        using local_inv_ports [OF q(1) st assms(1) _ keepsD(2) [OF ks]] q(4) ad paused_local(1,4) [OF p] by auto
      then show ?thesis using st q p np by (simp add: bg_effect_def paused_def)
    qed
  qed
  with t(1) show ?thesis by blast
qed

lemma bg_process_urb_effect:
  assumes "local_inv s" "message_ok w" "fetch_data_ok P"
  shows "\<exists>r t. bg_process_urb P res w 0 False s = Some (r, t) \<and>
    bg_effect (u_packet_count w = 0) s t \<and> (\<forall>e. r = Inl e \<longrightarrow> escapes P w e)"
proof -
  have inv: "held s 0" "ports_ok s" using assms(1) by (simp_all add: local_inv_def held_inv)
  note wk = held_works(1) [OF inv(1)]
  from bg_process_urb_run [OF inv(1) assms(2) inv(2) assms(3), of res False] obtain r t
    where run: "bg_process_urb P res w 0 False s = Some (r, t)"
    and post: "case r of
       Inl e \<Rightarrow> escapes P w e \<and> hcd_inv t \<and> idle s t
     | Inr _ \<Rightarrow>
         (hcd_inv t \<and> idle s t \<and> (h_thread_shutdown t \<or> (res \<noteq> 0 \<and> fetch_refused P s w) \<or>
            port_of (u_devadr w) (l_port_info s) = 0)) \<or>
         (\<exists>u v s'. \<not> bad_urb P w \<and> same_message w v \<and> idle s s' \<and> urb_queued P u v s' t \<and>
            (res = 0 \<longrightarrow> unwritten v t \<and> env s' = env s))"
    by blast
  consider (idle) "hcd_inv t" "idle s t" "\<forall>e. r = Inl e \<longrightarrow> escapes P w e"
    | (queued) u v s' where "r = Inr ()" "idle s s'" "urb_queued P u v s' t" "same_message w v"
    using post by (cases r) auto
  then show ?thesis
  proof cases
    case idle
    have "local_inv t"
      using local_inv_ports [OF idle(1) idle_steady [OF idle(2)] assms(1)] idle_local(1) [OF idle(2)] idle(2)
        keepsD(2) by (auto simp: idle_def)
    moreover have "plain_urbs s \<longrightarrow> plain_urbs t"
      using plain_urbs_new [OF _ wk, of t "[]"] idle(2) by (simp add: idle_def)
    moreover have "ranged s \<longrightarrow> ranged t"
      using ranged_new [OF _ wk, of t "[]"] idle(2) idle_steady [OF idle(2)] by (simp add: idle_def steady_def)
    ultimately show ?thesis using run idle idle_steady [OF idle(2)] by (auto simp: bg_effect_def idle_def)
  next
    case queued
    have st: "steady s t"
      using steady_trans [OF idle_steady [OF queued(2)]] queued(3) by (simp add: urb_queued_def)
    obtain index q where q: "index \<noteq> 0" "unat index = port_of (u_devadr v) (l_port_info s)"
      "h_inbox t = h_inbox s @ [q]" "h_processing t = h_processing s"
      "l_port_info t = (l_port_info s)[unat (index - 1) := addressed P v (port_at index s)]" "hcd_inv t"
      "load_work q t = Some (urb_work index u)" "load_urb u t = Some (answered P v)"
      using queued(2,3) idle_local(1,4) [OF queued(2)] by (auto simp: urb_queued_def idle_def)
    have port: "port_ok index s"
      using q(1,2) port_from_address_run(2) [OF inv(2)] by (simp add: port_ok_def)
    have keeps: "keeps s t"
      using keeps_trans [OF wk _ idle_owned [OF queued(2)], of t] queued(2,3)
      by (simp add: idle_def urb_queued_def)
    have "port_upto (h_port_count s) t q"
      using q(7) port_ok_le [OF port inv(2)] by (simp add: port_upto_def urb_work_def)
    then have rg: "ranged s \<longrightarrow> ranged t"
      using ranged_new [OF _ wk keeps, of "[q]"] q(3,4) st by (simp add: steady_def)
    have "u_packet_count w = 0 \<longrightarrow> no_packets t q"
      using q(7,8) same_message_fields(2) [OF queued(4)] by (simp add: no_packets_def urb_work_def)
    then have np: "u_packet_count w = 0 \<and> plain_urbs s \<longrightarrow> plain_urbs t"
      using plain_urbs_new [OF _ wk keeps, of "[q]"] q(3,4) by auto
    from port have "adr_ok (addressed P v (port_at index s))"
      using adr_ok_addressed [OF adr_ok_at [of s index], of P v] assms(1) by (simp add: local_inv_def)
    then have "local_inv t" using local_inv_ports [OF q(6) st assms(1) _ keepsD(2) [OF keeps]] q(5) by blast
    then show ?thesis using run queued(1) st q np rg by (simp add: bg_effect_def)
  qed
qed

text \<open>Every work that waits can be given back: its packets have been written, memory suffices.\<close>

definition all_ready :: "'e platform \<Rightarrow> ('e, 'z) local_hcd_scheme \<Rightarrow> bool" where
  "all_ready P s \<longleftrightarrow> (\<forall>p \<in> set (h_inbox s). local_ready P p s)"

lemma bg_cancel_effect:
  assumes "local_inv s"
  shows "(cancel_process_urb_work (local_canceling_work P) (local_finishing_work P) h s = None \<and>
      \<not> all_ready P s) \<or>
    (\<exists>r t. cancel_process_urb_work (local_canceling_work P) (local_finishing_work P) h s = Some (r, t) \<and>
      bg_effect True s t \<and> (\<forall>e. r = Inl e \<longrightarrow> e = BadAlloc))"
proof -
  have inv: "hcd_inv s" using assms(1) by (simp add: local_inv_def)
  then have wk: "works_ok s (hcd_owned s)" by (simp add: hcd_inv_def)
  note spec = local_hooks.cancel_spec [OF inv, of P h]
  have eff: "bg_effect True s t"
    if "hcd_inv t" "hcd_frame s t" "h_processing t = h_processing s" "h_inbox t = h_inbox s @ new" "length new \<le> 1" "plain_urbs s \<longrightarrow> plain_urbs t"
      "ranged s \<longrightarrow> ranged t" "\<And>x. x \<in> tables s \<Longrightarrow> heap t x = heap s x"
    for t new
    using that(3-7) local_inv_ports [OF that(1) _ assms(1) _ that(8)] hcd_frame_local [OF that(2)]
    by (auto simp: bg_effect_def)
  show ?thesis
  proof (cases "List.find (has_handle s h) (h_inbox s)")
    case (Some p)
    then have p: "p \<in> set (h_inbox s)" "p \<in> set (hcd_owned s)" "has_handle s h p"
      using find_SomeD [of "has_handle s h"] by (auto simp: hcd_owned_def)
    then obtain w where w: "load_work p s = Some w" by (auto elim: has_handle_owned)
    show ?thesis
    proof (cases "local_ready P p s")
      case False
      then show ?thesis using spec Some p(1) by (auto simp: all_ready_def)
    next
      case True
      with Some obtain t where t: "cancel_process_urb_work (local_canceling_work P) (local_finishing_work P) h s =
          Some (Inr False, t)" "hcd_inv t" "hcd_frame s t" "h_inbox t = h_inbox s"
          "h_processing t = h_processing s" "heap t = heap (mark p s)"
        using spec by auto
      have "hcd_owned t = hcd_owned (mark p s)" using t(4,5) by (simp add: hcd_owned_def)
      then have "plain_urbs s \<longrightarrow> plain_urbs t"
        using plain_urbs_mark [OF inv p(2) w] plain_urbs_heap [OF t(6)] by blast
      moreover have "ranged s \<longrightarrow> ranged t"
        using ranged_mark [OF w] ranged_heap [OF t(6) \<open>hcd_owned t = hcd_owned (mark p s)\<close>] t(3)
        by (simp add: hcd_frame_def mark_def)
      ultimately show ?thesis using t eff [of t "[]"] tables_mark [OF w] by auto
    qed
  next
    case None
    show ?thesis
    proof (cases "List.find (has_handle s h) (h_processing s)")
      case (Some p)
      then have p: "p \<in> set (h_processing s)" "has_handle s h p" using find_SomeD by fast+
      then obtain w q u where w: "load_work p s = Some w" "w_kind w = ProcessUrbWork q"
          "load_urb q s = Some u" by (auto elim: has_handle_owned)
      obtain r t new where rt: "cancel_process_urb_work (local_canceling_work P) (local_finishing_work P) h s =
            Some (r, t)" "r = Inr True \<or> isl r" "hcd_inv t" "hcd_frame s t"
          "h_processing t = h_processing s" "h_inbox t = h_inbox s @ new" "length new \<le> 1"
          "local_canceling_work P p True s = Some (case r of Inl e \<Rightarrow> Inl e | Inr _ \<Rightarrow> Inr (), t)"
        using spec None Some by auto
      from local_canceling_run [OF inv p(1) w, of P] rt(8)
      have c: "heap s \<subseteq>\<^sub>m heap t" "case (case r of Inl e \<Rightarrow> Inl e | Inr _ \<Rightarrow> Inr ()) of
          Inl e \<Rightarrow> e = BadAlloc \<and> h_inbox t = h_inbox s
        | Inr _ \<Rightarrow> \<exists>cw. h_inbox t = h_inbox s @ [cw] \<and> load_work cw t = Some (cancel_work_of w u)"
        by (auto split: sum.splits)
      have "no_packets t q" if "q \<in> set new" for q
        using c(2) rt(6) that by (cases r) (auto simp: no_packets_def cancel_work_of_def)
      then have "plain_urbs s \<longrightarrow> plain_urbs t"
        using plain_urbs_new [OF _ wk keeps_extend [OF wk c(1)] rt(6,5)] by blast
      moreover have "port_upto (h_port_count s) t q" if "q \<in> set new" "ranged s" for q
      proof -
        have "w_port w \<le> h_port_count s"
          using bspec [OF that(2) [unfolded ranged_def], of p] p(1) w(1) by (simp add: port_upto_def hcd_owned_def)
        then show ?thesis
          using c(2) rt(6) that(1) by (cases r) (auto simp: port_upto_def cancel_work_of_def)
      qed
      then have "ranged s \<longrightarrow> ranged t"
        using ranged_new [OF _ wk keeps_extend [OF wk c(1)] _ rt(6,5)] rt(4) by (simp add: hcd_frame_def)
      moreover have "e = BadAlloc" if "r = Inl e" for e using c(2) that by simp
      ultimately show ?thesis using rt eff tables_extend [OF c(1)] by blast
    next
      case None2: None
      then show ?thesis using spec None bg_effect_refl [OF assms(1)] by auto
    qed
  qed
qed

section \<open>All messages\<close>

lemma all_ready_env: "all_ready P (s\<lparr>env := e\<rparr>) = all_ready P s"
proof -
  let ?t = "s\<lparr>env := e\<rparr>"
  have "load_work p ?t = load_work p s" "load_urb p ?t = load_urb p s" "packets_set ?t u = packets_set s u"
    "giveback_oom P ?t u = giveback_oom P s u" for p u
    by (simp_all add: load_work_def load_urb_def load_def packets_set_def load_packets_def giveback_oom_def
        alloc_fails_def split: list.split)
  then have "local_ready P p ?t = local_ready P p s" for p
    unfolding local_ready_def giveback_ready_def by (simp split: option.split work_kind.split)
  then show ?thesis by (simp add: all_ready_def)
qed

text \<open>The exceptions that leave \<open>bg_work\<close>.\<close>

definition fatal :: "'y abi_scheme \<Rightarrow> exn \<Rightarrow> bool" where
  "fatal P e \<longleftrightarrow> e = BadAlloc \<or> e = InvalidArgument ''urb'' \<or> e = InvalidArgument ''address''"

lemma fetched_message_ok:
  assumes "fetched_urb_wf P u" "urb_from_kernel kw u" "0 \<le>s iu_buffer_length (iw_urb kw)"
    "0 \<le>s iu_packet_count (iw_urb kw)"
    "u_packet_count u = (if iu_type (iw_urb kw) = URB_TYPE_ISO P then iu_packet_count (iw_urb kw) else 0)"
  shows "message_ok u"
  using assms by (simp add: message_ok_def fetched_urb_wf_def urb_from_kernel_def)

text \<open>The kernel sends no isochronous packets.\<close>

definition no_iso :: "'e platform \<Rightarrow> bool" where
  "no_iso P \<longleftrightarrow> (\<forall>fd n e kw. snd (p_fetch_work P fd n e) = Inr kw \<longrightarrow>
     iu_type (iw_urb kw) = URB_TYPE_ISO P \<longrightarrow> iu_packet_count (iw_urb kw) = 0)"

lemma bg_effect_mono: "bg_effect np s t \<Longrightarrow> (np' \<longrightarrow> np) \<Longrightarrow> bg_effect np' s t"
  by (auto simp: bg_effect_def)

lemma bg_work_run:
  assumes inv: "local_inv s" and kernel: "kernel_ok P"
  shows "(bg_work P s = None \<and> \<not> all_ready P s) \<or>
    (\<exists>r t. bg_work P s = Some (r, t) \<and> bg_effect (no_iso P) s t \<and> (\<forall>e. r = Inl e \<longrightarrow> fatal P e))"
proof -
  have k: "work_types_ok P" "fetch_data_ok P"
    "\<And>fd n e kw. snd (p_fetch_work P fd n e) = Inr kw \<Longrightarrow>
        0 \<le>s iu_buffer_length (iw_urb kw) \<and> 0 \<le>s iu_packet_count (iw_urb kw)"
    using kernel abi_ok_parts(1) [of P] by (auto simp: kernel_ok_def)
  have d: "distinct [WORK_TYPE_PORT_STAT P, WORK_TYPE_PROCESS_URB P, WORK_TYPE_CANCEL_URB P]"
    using k(1) by (simp add: work_types_ok_def)
  from k(1) show ?thesis
  proof (cases rule: fetch_work_cases [where work = uninit_work and fd = "l_fd s" and s = s])
    case (none w e err)
    then have "bg_work P s = Some (Inr (), s\<lparr>env := e, errno := err\<rparr>)" by (simp add: bg_work_def)
    moreover have "bg_effect (no_iso P) s (s\<lparr>env := e, errno := err\<rparr>)"
      using inv plain_urbs_heap [of "s\<lparr>env := e, errno := err\<rparr>" s] ranged_heap [of "s\<lparr>env := e, errno := err\<rparr>" s]
      by (simp add: bg_effect_def local_inv_env steady_def hcd_owned_def)
    ultimately show ?thesis by auto
  next
    case (port ps e)
    let ?s = "s\<lparr>env := e\<rparr>" and ?nps = "port_stat_new (ps_status ps) (ps_change ps) (ps_flags ps)"
    have run: "bg_work P s =
        (if ps_index ps = 0 \<or> ps_index ps > h_port_count s then Some (Inr (), ?s)
         else bg_port_stat P (ps_index ps) ?nps 0 False ?s)"
      using port by (simp add: bg_work_def Let_def)
    have inv': "local_inv ?s" using inv by (simp add: local_inv_env)
    show ?thesis
    proof (cases "ps_index ps = 0 \<or> ps_index ps > h_port_count s")
      case True
      then show ?thesis using run bg_effect_refl [OF inv'] by (auto simp: bg_effect_env)
    next
      case False
      then have "port_ok (ps_index ps) ?s"
        using inv by (simp add: port_ok_def local_inv_def ports_ok_def word_le_nat_alt not_less)
      from bg_port_stat_effect [OF inv' this, of P ?nps] show ?thesis
        using run False bg_effect_mono [of True s _ "no_iso P"] by (auto simp: bg_effect_env)
    qed
  next
    case (urb kw u res e)
    let ?s = "s\<lparr>env := e\<rparr>"
    have run: "bg_work P s = bg_process_urb P res u 0 False ?s"
      using urb(1,2) d by (auto simp: bg_work_def)
    have "message_ok u" using fetched_message_ok [OF urb(4,5) _ _ urb(6)] k(3) [OF urb(3)] by blast
    moreover have "local_inv ?s" using inv by (simp add: local_inv_env)
    ultimately obtain r t where b: "bg_process_urb P res u 0 False ?s = Some (r, t)"
      "bg_effect (u_packet_count u = 0) s t" "\<forall>e. r = Inl e \<longrightarrow> escapes P u e"
      using bg_process_urb_effect [OF _ _ k(2), of ?s u res] by (auto simp: bg_effect_env)
    have "no_iso P \<longrightarrow> u_packet_count u = 0" using urb(3,6) by (auto simp: no_iso_def)
    then show ?thesis
      using b run bg_effect_mono [OF b(2), of "no_iso P"] by (auto simp: fatal_def escapes_def)
  next
    case (cancel h e)
    let ?s = "s\<lparr>env := e\<rparr>"
    have "local_inv ?s" using inv by (simp add: local_inv_env)
    from bg_cancel_effect [OF this, of P h] consider
      (fault) "cancel_process_urb_work (local_canceling_work P) (local_finishing_work P) h ?s = None"
        "\<not> all_ready P s"
    | (ok) r t where
        "cancel_process_urb_work (local_canceling_work P) (local_finishing_work P) h ?s = Some (r, t)"
        "bg_effect True ?s t" "\<forall>e. r = Inl e \<longrightarrow> e = BadAlloc"
      unfolding all_ready_env by (elim disjE exE conjE)
    then show ?thesis
    proof cases
      case fault
      then have "bg_work P s = None" using cancel d by (auto simp: bg_work_def)
      then show ?thesis using fault(2) by blast
    next
      case c: (ok r t)
      have "bg_work P s = Some (case r of Inl e \<Rightarrow> Inl e | Inr _ \<Rightarrow> Inr (), t)"
        using cancel d c(1) by (auto simp: bg_work_def)
      moreover have "bg_effect (no_iso P) s t"
        using c(2) bg_effect_mono [of True s t "no_iso P"] by (simp add: bg_effect_env)
      ultimately show ?thesis using c(3) by (cases r) (auto simp: fatal_def)
    qed
  qed
qed

text \<open>
  C3. One round of the background thread. From every state that satisfies the invariant
  (ownership of the queues, a table with one entry per port, addresses of seven bits or none), and for
  every answer of a kernel that announces no negative length, \<open>bg_work\<close> returns without a
  fault, whatever allocations fail, unless some work that waits cannot be given back. The
  invariant holds again, the processing list and the callbacks are as before, at most one work
  was added to the inbox, and an exception that leaves the function is one of three.
\<close>

theorem bg_work_keeps_invariant:
  assumes "local_inv s" and "kernel_ok P"
  shows "(bg_work P s = None \<and> \<not> all_ready P s) \<or>
    (\<exists>r t. bg_work P s = Some (r, t) \<and> local_inv t \<and> h_processing t = h_processing s \<and>
      h_callbacks t = h_callbacks s \<and> h_port_count t = h_port_count s \<and> l_fd t = l_fd s \<and>
      (\<exists>new. h_inbox t = h_inbox s @ new \<and> length new \<le> 1) \<and> (\<forall>e. r = Inl e \<longrightarrow> fatal P e))"
  using bg_work_run [OF assms] unfolding bg_effect_def steady_def by blast

section \<open>The thread\<close>

lemma local_inv_shutdown:
  "local_inv (s\<lparr>h_thread_shutdown := b\<rparr>) = local_inv s"
  "plain_urbs (s\<lparr>h_thread_shutdown := b\<rparr>) = plain_urbs s"
  using heap_determines(6) [of "s\<lparr>h_thread_shutdown := b\<rparr>" s]
    plain_urbs_heap [of "s\<lparr>h_thread_shutdown := b\<rparr>" s]
  by (simp_all add: local_inv_def hcd_inv_def hcd_owned_def heap_ok_def ports_ok_def table_ok_def)

lemma plain_urbs_ready:
  assumes "hcd_inv s" "plain_urbs s" shows "all_ready P s"
proof -
  have "local_ready P p s" if p: "p \<in> set (h_inbox s)" for p
  proof -
    have "no_packets s p" using assms(2) p by (simp add: plain_urbs_def hcd_owned_def)
    then show ?thesis
      by (auto simp: local_ready_def giveback_ready_def no_packets_def packets_set_def giveback_oom_def
          split: option.splits work_kind.splits)
  qed
  then show ?thesis by (simp add: all_ready_def)
qed

lemma bg_thread_run:
  assumes "local_inv s" "plain_urbs s" "kernel_ok P" "no_iso P"
  shows "\<exists>r t. bg_thread_start (bg_work P) stops s = Some (r, t) \<and> local_inv t \<and>
    (case r of Inl e \<Rightarrow> fatal P e | Inr left \<Rightarrow> True \<in> set stops \<longrightarrow> left)"
  using assms(1,2)
proof (induction stops arbitrary: s)
  case Nil
  then show ?case by simp
next
  case (Cons stop stops)
  define s1 where "s1 = s\<lparr>h_thread_shutdown := h_thread_shutdown s \<or> stop\<rparr>"
  have inv: "local_inv s1" "plain_urbs s1" using Cons.prems by (simp_all add: s1_def local_inv_shutdown)
  have unf: "bg_thread_start (bg_work P) (stop # stops) s =
      (if h_thread_shutdown s1 then Some (Inr True, s1)
       else do {
         (r, s) \<leftarrow> bg_work P s1;
         (case r of
            Inl e \<Rightarrow> Some (Inl e, s)
          | Inr _ \<Rightarrow> bg_thread_start (bg_work P) stops s) })"
    by (simp add: s1_def Let_def)
  show ?case
  proof (cases "h_thread_shutdown s1")
    case True
    then show ?thesis using unf inv(1) by simp
  next
    case False
    then have "\<not> stop" by (simp add: s1_def)
    have "hcd_inv s1" using inv(1) by (simp add: local_inv_def)
    from bg_work_run [OF inv(1) assms(3)] plain_urbs_ready [OF this inv(2), of P]
    obtain r t where r: "bg_work P s1 = Some (r, t)" "bg_effect (no_iso P) s1 t"
      "\<forall>e. r = Inl e \<longrightarrow> fatal P e" by blast
    then have t: "local_inv t" "plain_urbs t" using assms(4) inv(2) by (simp_all add: bg_effect_def)
    show ?thesis
    proof (cases r)
      case (Inl e)
      then show ?thesis using unf False r(1,3) t(1) by simp
    next
      case (Inr x)
      then have run: "bg_thread_start (bg_work P) (stop # stops) s = bg_thread_start (bg_work P) stops t"
        using unf False r(1) by (simp del: bg_thread_start.simps)
      have stops: "True \<in> set (stop # stops) \<longleftrightarrow> True \<in> set stops" using \<open>\<not> stop\<close> by simp
      show ?thesis unfolding run stops by (rule Cons.IH [OF t])
    qed
  qed
qed

text \<open>The same without a condition on the URBs: then a round may fault, in a state that says why.\<close>

lemma bg_thread_fault:
  assumes "local_inv s" "kernel_ok P"
  shows "case bg_thread_start (bg_work P) stops s of
      None \<Rightarrow> \<exists>pre post u. stops = pre @ False # post \<and>
        bg_thread_start (bg_work P) pre s = Some (Inr False, u) \<and> local_inv u \<and> \<not> all_ready P u
    | Some (r, t) \<Rightarrow> local_inv t \<and>
        (case r of Inl e \<Rightarrow> fatal P e | Inr left \<Rightarrow> True \<in> set stops \<longrightarrow> left)"
  using assms(1)
proof (induction stops arbitrary: s)
  case Nil
  then show ?case by simp
next
  case (Cons stop stops)
  define s1 where "s1 = s\<lparr>h_thread_shutdown := h_thread_shutdown s \<or> stop\<rparr>"
  have inv: "local_inv s1" using Cons.prems by (simp add: s1_def local_inv_shutdown)
  have unf: "bg_thread_start (bg_work P) (stop # xs) s =
      (if h_thread_shutdown s1 then Some (Inr True, s1)
       else do {
         (r, s) \<leftarrow> bg_work P s1;
         (case r of
            Inl e \<Rightarrow> Some (Inl e, s)
          | Inr _ \<Rightarrow> bg_thread_start (bg_work P) xs s) })" for xs
    by (simp add: s1_def Let_def)
  show ?case
  proof (cases "h_thread_shutdown s1")
    case True
    then show ?thesis using unf inv by simp
  next
    case False
    then have stop: "\<not> stop" "s1 = s" by (simp_all add: s1_def)
    from bg_work_run [OF inv assms(2)] consider (fault) "bg_work P s1 = None" "\<not> all_ready P s1"
      | (ok) r t where "bg_work P s1 = Some (r, t)" "bg_effect (no_iso P) s1 t"
          "\<forall>e. r = Inl e \<longrightarrow> fatal P e" by (elim disjE exE conjE)
    then show ?thesis
    proof cases
      case fault
      have "stop # stops = [] @ False # stops" "bg_thread_start (bg_work P) [] s = Some (Inr False, s)"
        using stop by simp_all
      then have "\<exists>pre post u. stop # stops = pre @ False # post \<and>
          bg_thread_start (bg_work P) pre s = Some (Inr False, u) \<and> local_inv u \<and> \<not> all_ready P u"
        using fault(2) stop(2) Cons.prems by blast
      moreover have "bg_thread_start (bg_work P) (stop # stops) s = None" using unf False fault(1) by simp
      ultimately show ?thesis by simp
    next
      case (ok r t)
      then have t: "local_inv t" by (simp add: bg_effect_def)
      show ?thesis
      proof (cases r)
        case (Inl e)
        then show ?thesis using unf False ok(1,3) t by simp
      next
        case (Inr x)
        then have run: "bg_thread_start (bg_work P) (stop # xs) s = bg_thread_start (bg_work P) xs t" for xs
          using unf [of xs] False ok(1) by (simp del: bg_thread_start.simps)
        have stops: "True \<in> set (stop # stops) \<longleftrightarrow> True \<in> set stops" using stop(1) by simp
        have "\<exists>pre post u. stop # stops = pre @ False # post \<and>
            bg_thread_start (bg_work P) pre s = Some (Inr False, u) \<and> local_inv u \<and> \<not> all_ready P u"
          if "stops = pre @ False # post" "bg_thread_start (bg_work P) pre t = Some (Inr False, u)"
            "local_inv u" "\<not> all_ready P u" for pre post u
          using that run [of pre] by (metis append_Cons)
        then show ?thesis
          using Cons.IH [OF t] unfolding run stops
          by (cases "bg_thread_start (bg_work P) stops t") (auto simp del: bg_thread_start.simps)
      qed
    qed
  qed
qed

text \<open>
  C17. The background thread stops when it is asked to. Whatever the kernel sends (no negative
  lengths) and whatever allocations fail, the thread does not hang: once another
  thread has called \<open>join_bg_thread\<close>, it leaves its loop, so that \<open>pthread_join\<close> returns, with the invariant
  intact, unless an exception has ended the program before, or a round has faulted. A round
  faults only in a state where a waiting URB cannot be given back; if the
  kernel sends no isochronous packets and no URB that waits has any, none does.
\<close>

theorem bg_thread_stops:
  assumes "local_inv s" and "kernel_ok P" and "True \<in> set stops"
  shows "(case bg_thread_start (bg_work P) stops s of
      None \<Rightarrow> \<exists>pre post u. stops = pre @ False # post \<and>
        bg_thread_start (bg_work P) pre s = Some (Inr False, u) \<and> local_inv u \<and> \<not> all_ready P u
    | Some (r, t) \<Rightarrow> local_inv t \<and> (r = Inr True \<or> (\<exists>e. r = Inl e \<and> fatal P e))) \<and>
    (plain_urbs s \<and> no_iso P \<longrightarrow> bg_thread_start (bg_work P) stops s \<noteq> None)"
proof -
  have "bg_thread_start (bg_work P) stops s \<noteq> None" if "plain_urbs s" "no_iso P"
    using bg_thread_run [OF assms(1) that(1) assms(2) that(2), of stops] by auto
  then show ?thesis
    using bg_thread_fault [OF assms(1,2), of stops] assms(3)
    by (cases "bg_thread_start (bg_work P) stops s") (auto split: sum.splits)
qed

section \<open>Witnesses\<close>

text \<open>A kernel that sends the request to set the address, again and again.\<close>

definition set_address_platform :: "log platform" where
  "set_address_platform = sample_platform
     (Inr \<lparr>iw_handle = 8,
           iw_port = \<lparr>ip_status = 0, ip_change = 0, ip_index = 0, ip_flags = 0\<rparr>,
           iw_urb = \<lparr>iu_setup = \<lparr>is_bmRequestType = 0, is_bRequest = 5, is_wValue = 7, is_wIndex = 0,
                        is_wLength = 0\<rparr>,
                     iu_buffer_length = 0, iu_interval = 0, iu_packet_count = 0, iu_flags = 0,
                     iu_address = 0, iu_endpoint = 0, iu_type = 2\<rparr>,
           iw_type = 1\<rparr>)
     sample_reply (Inl 0)"

lemma set_address_platform_ok: "kernel_ok set_address_platform" "no_iso set_address_platform"
  using sample_abi_ok(1) fetch_data_ok_sample
  by (simp_all add: kernel_ok_def no_iso_def set_address_platform_def)
    (simp_all add: sample_platform_simps word_sle_eq)

lemma sample_addressed_inv: "local_inv (sample_addressed fails)"
  using sample_addressed_ok [of fails] by (simp add: local_inv_def adr_ok_def table_ok_def)

definition sample_idle :: "log local_hcd" where
  "sample_idle = (sample_addressed [])\<lparr>h_processing := [], h_inbox := [6]\<rparr>"

lemma sample_idle_ok: "local_inv sample_idle" "plain_urbs sample_idle"
proof -
  have h: "heap sample_idle = sample_heap False" "brk sample_idle = 7"
    by (simp_all add: sample_idle_def sample_addressed_def sample_local_def)
  note sh = sample_heap_ok [OF h(1)]
  have "works_ok sample_idle [6]" using sh(6) by (simp add: works_ok_Cons)
  then have "hcd_inv sample_idle"
    using sh(7) h(2) by (simp add: hcd_inv_def hcd_owned_def) (simp add: sample_idle_def)
  then show "local_inv sample_idle"
    using sample_addressed_ok [of "[]"]
    by (simp add: local_inv_def adr_ok_def sample_idle_def ports_ok_def table_ok_def)
  show "plain_urbs sample_idle"
    using sh(5) by (simp add: plain_urbs_def hcd_owned_def no_packets_def) (simp add: sample_idle_def)
qed

theorem bg_work_keeps_invariant_witness:
  "\<exists>r t. bg_work set_address_platform sample_idle = Some (r, t) \<and> local_inv t \<and> h_processing t = []"
proof -
  have "hcd_inv sample_idle" using sample_idle_ok(1) by (simp add: local_inv_def)
  from bg_work_keeps_invariant [OF sample_idle_ok(1) set_address_platform_ok(1)]
    plain_urbs_ready [OF this sample_idle_ok(2), of set_address_platform]
  show ?thesis by (auto simp: sample_idle_def)
qed

theorem bg_thread_stops_witness:
  "\<exists>r t. bg_thread_start (bg_work set_address_platform) [False, False, True] sample_idle = Some (r, t) \<and>
     local_inv t \<and> (r = Inr True \<or> (\<exists>e. r = Inl e \<and> fatal set_address_platform e))"
  using bg_thread_stops [OF sample_idle_ok(1) set_address_platform_ok(1), of "[False, False, True]"]
    sample_idle_ok(2) set_address_platform_ok(2)
  by (auto simp del: bg_thread_start.simps split: option.splits)

end
