(* ===== verification/Local_Lifecycle.thy ===== *)
theory Local_Lifecycle
  imports Local_Background
begin

text \<open>
  The life of a \<open>local_hcd\<close>: what its constructor establishes or leaves behind, and what its
  destructor gives back. The background thread starts and ends in between.
\<close>

section \<open>Opening\<close>

text \<open>What the code relies on: \<open>open\<close> never succeeds with \<open>-1\<close>, \<open>close\<close> is not interrupted forever.\<close>

definition files_ok :: "'e platform \<Rightarrow> bool" where
  "files_ok P \<longleftrightarrow> (\<forall>e. snd (p_open P e) \<noteq> Inr (- 1)) \<and>
     (\<forall>fd e. \<exists>k. close_outcome P fd k e \<noteq> Inl EINTR)"

lemma open_cases:
  assumes "heap_ok s" "files_ok P"
  obtains
    (no_device) e x res t where "p_open P (env s) = (e, Inl x)"
      "usb_vhci_open P n True True True s = Some (res, t)" "or_fd res = - 1"
      "t = s\<lparr>env := e, errno := x\<rparr>"
  | (refused) e fd e' x res k y t where "p_open P (env s) = (e, Inr fd)"
      "p_register P fd n e = (e', Inl x)"
      "usb_vhci_open P n True True True s = Some (res, t)" "or_fd res = - 1"
      "t = s\<lparr>env := close_env P fd (Suc k) e', errno := y\<rparr>"
      "close_outcome P fd k e' \<noteq> Inl EINTR"
  | (registered) e fd e' reg p t where "p_open P (env s) = (e, Inr fd)" "fd \<noteq> - 1"
      "p_register P fd n e = (e', Inr reg)"
      "usb_vhci_open P n True True True s =
         Some (\<lparr>or_fd = fd, or_id = Some (ir_id reg), or_busnum = Some (ir_usb_busnum reg),
                or_bus_id = Some p\<rparr>, t)"
      "env t = e'" "heap_ok t" "machine.more t = machine.more s" "oom s = [] \<Longrightarrow> oom t = []"
      "p = 0 \<and> fst (alloc_fails s) \<and> heap t = heap s \<or>
       p \<noteq> 0 \<and> \<not> fst (alloc_fails s) \<and> p = brk s \<and> heap s p = None \<and>
         heap t = (heap s)(p \<mapsto> Chars (bus_id_of reg @ [CHR 0x00]))"
proof (cases "p_open P (env s)")
  case (Pair e r)
  show thesis
  proof (cases r)
    case (Inl x)
    then show thesis using Pair by (intro no_device) (auto simp: usb_vhci_open_def syscall_def)
  next
    case (Inr fd)
    have fd: "fd \<noteq> - 1"
      using assms(2) Pair Inr unfolding files_ok_def by (metis snd_conv)
    obtain e' r' where reg: "p_register P fd n e = (e', r')" by fastforce
    show thesis
    proof (cases r')
      case (Inl x)
      let ?s = "s\<lparr>env := e', errno := x\<rparr>"
      obtain k where "close_outcome P fd k (env ?s) \<noteq> Inl EINTR"
        using assms(2) unfolding files_ok_def by simp blast
      then obtain c t where close: "usb_vhci_close P fd ?s = Some (c, t)" using close_returns by blast
      then obtain k y where k: "close_outcome P fd k e' \<noteq> Inl EINTR"
        "t = ?s\<lparr>env := close_env P fd (Suc k) e', errno := y\<rparr>"
        using close_returned [OF close] by auto
      have "usb_vhci_open P n True True True s =
          Some (\<lparr>or_fd = - 1, or_id = None, or_busnum = None, or_bus_id = None\<rparr>,
                s\<lparr>env := close_env P fd (Suc k) e', errno := x\<rparr>)"
        using Pair Inr reg Inl close k(2) by (simp add: usb_vhci_open_def syscall_def del: close_env.simps)
      from refused [OF _ _ this _ refl k(1)] show thesis using Pair Inr reg Inl by simp
    next
      case r: (Inr rg)
      let ?s = "s\<lparr>env := e'\<rparr>"
      define arr where "arr = bus_id_of rg @ [CHR 0x00]"
      obtain p t0 where al: "alloc (Chars arr) ?s = (p, t0)" by fastforce
      let ?t = "if p = 0 then t0\<lparr>errno := ENOMEM\<rparr> else t0"
      have run: "usb_vhci_open P n True True True s =
         Some (\<lparr>or_fd = fd, or_id = Some (ir_id rg), or_busnum = Some (ir_usb_busnum rg),
                or_bus_id = Some p\<rparr>, ?t)"
        using Pair Inr reg r al by (simp add: usb_vhci_open_def syscall_def malloc_def arr_def c_string_bus_id [of rg, simplified])
      have ok: "heap_ok ?s" using assms(1) by (simp add: heap_ok_def)
      have oom: "oom s = [] \<Longrightarrow> oom t0 = []" using alloc_oom(2) [OF al ok] by simp
      have fails: "fst (alloc_fails s) \<longleftrightarrow> p = 0"
        using al assms(1) by (auto simp: alloc_def alloc_fails_def heap_ok_def split: list.splits bool.splits)
      from ok al show thesis
      proof (cases rule: alloc_cases)
        case fail
        show thesis
          by (rule registered [OF _ fd _ run]) (use Pair Inr reg r fail oom fails in \<open>auto simp: heap_ok_def\<close>)
      next
        case ok
        show thesis
        proof (rule registered [OF _ fd _ run])
          show "p = 0 \<and> fst (alloc_fails s) \<and> heap ?t = heap s \<or>
              p \<noteq> 0 \<and> \<not> fst (alloc_fails s) \<and> p = brk s \<and> heap s p = None \<and>
                heap ?t = (heap s)(p \<mapsto> Chars (bus_id_of rg @ [CHR 0x00]))"
            using ok(1-4) fails by (simp add: arr_def)
        qed (use Pair Inr reg r ok(2,6,8,9) oom in \<open>simp_all add: heap_ok_def\<close>)
      qed
    qed
  qed
qed


section \<open>Construction\<close>

text \<open>A new controller: no work, no callback, no address, the device's answers in its members.\<close>

definition fresh_hcd ::
  "u8 \<Rightarrow> i32 \<Rightarrow> ioc_register \<Rightarrow> nat \<Rightarrow> ('e, 'z) local_hcd_scheme \<Rightarrow> bool" where
  "fresh_hcd ports fd reg tid t \<longleftrightarrow>
     h_callbacks t = [] \<and> h_bg_thread t = tid \<and> \<not> h_thread_shutdown t \<and> h_port_count t = ports \<and>
     h_inbox t = [] \<and> h_processing t = [] \<and> l_fd t = fd \<and> l_id t = ir_id reg \<and>
     l_usb_bus_num t = ir_usb_busnum reg \<and>
     l_port_info t = replicate (unat ports) port_info_default"

definition blank ::
  "u8 \<Rightarrow> ('e, 'z) local_hcd_scheme \<Rightarrow> ('e, 'z) local_hcd_scheme" where
  "blank ports s = s\<lparr>h_callbacks := [], h_bg_thread := 0, h_thread_shutdown := False,
     h_port_count := ports, h_inbox := [], h_processing := [],
     l_fd := - 1, l_id := 0, l_usb_bus_num := 0, l_bus_id := [], l_port_info := [],
     l_port_block := 0\<rparr>"

lemma blank_simps [simp]:
  "env (blank ports s) = env s" "heap (blank ports s) = heap s" "brk (blank ports s) = brk s"
  "heap_ok (blank ports s) = heap_ok s" "h_port_count (blank ports s) = ports" "oom (blank ports s) = oom s"
  by (simp_all add: blank_def heap_ok_def)

lemma local_hcd_ctor_blank:
  "ports \<noteq> 0 \<Longrightarrow> local_hcd_ctor P ports s = do {
     (r, s) \<leftarrow> local_hcd_ctor_body P (blank ports s);
     (case r of Inr _ \<Rightarrow> Some (Inr (), s) | Inl e \<Rightarrow> do { s \<leftarrow> hcd_dtor s; Some (Inl e, s) }) }"
  unfolding local_hcd_ctor_def hcd_ctor_def Let_def
  by (subst if_not_P, assumption, unfold sum.case blank_def, rule refl)

lemma fresh_inv:
  assumes "fresh_hcd ports fd reg tid t" "heap_ok t"
    "heap t (l_port_block t) = Some (PortTable (unat ports))"
  shows "local_inv t"
  using assms
  by (auto simp: fresh_hcd_def local_inv_def hcd_inv_def hcd_owned_def works_ok_def ports_ok_def
      list_all_iff port_info_default_def adr_ok_def table_ok_def)

lemma alloc_fails_local:
  "alloc_fails s = (b, t) \<Longrightarrow> \<exists>bs. t = (s :: ('e, 'z) local_hcd_scheme)\<lparr>oom := bs\<rparr>"
  using alloc_fails_cases [of s] by (metis snd_conv)

lemma take_bus_id_run:
  assumes "p = 0 \<and> heap u = h \<or>
      p \<noteq> 0 \<and> h p = None \<and> heap u = h(p \<mapsto> Chars (bus_id_of reg @ [CHR 0x00]))"
  shows "(\<exists>bs. oom u \<noteq> [] \<and> take_bus_id p u = Some (Inl BadAlloc, u\<lparr>oom := bs\<rparr>)) \<or>
    (\<exists>bs. (oom u = [] \<longrightarrow> bs = []) \<and> take_bus_id p u =
        Some (Inr (), u\<lparr>oom := bs, l_bus_id := if p = 0 then l_bus_id u else bus_id_of reg, heap := h\<rparr>))"
proof (cases "p = 0")
  case True
  then have "take_bus_id p u =
      Some (Inr (), u\<lparr>oom := oom u, l_bus_id := if p = 0 then l_bus_id u else bus_id_of reg, heap := h\<rparr>)"
    using assms by (simp add: take_bus_id_def)
  then show ?thesis by blast
next
  case False
  obtain b t where a: "alloc_fails u = (b, t)" by fastforce
  then obtain bs where t: "t = u\<lparr>oom := bs\<rparr>" using alloc_fails_local by blast
  have bs: "oom u = [] \<Longrightarrow> bs = [] \<and> \<not> b" using a t by (cases u) (simp add: alloc_fails_def)
  show ?thesis
  proof (cases b)
    case True
    then show ?thesis using False a t bs by (auto simp: take_bus_id_def)
  next
    case b: False
    have h: "heap u = h(p \<mapsto> Chars (bus_id_of reg @ [CHR 0x00]))" "h(p := None) = h"
      using assms False by auto
    have "c_string (bus_id_of reg @ [CHR 0x00]) = bus_id_of reg"
      using bus_id_no_zero [of reg] by (auto simp: c_string_def takeWhile_append takeWhile_eq_all_conv)
    then have "take_bus_id p u =
        Some (Inr (), u\<lparr>oom := bs, l_bus_id := if p = 0 then l_bus_id u else bus_id_of reg, heap := h\<rparr>)"
      using False b a t h by (simp add: take_bus_id_def load_chars_def load_def dealloc_def)
    then show ?thesis using bs by blast
  qed
qed

text \<open>The end of the constructor: the table of ports, and the thread.\<close>

lemma body_registered:
  assumes o: "usb_vhci_open P (h_port_count b) True True True b =
         Some (\<lparr>or_fd = fd, or_id = Some (ir_id reg), or_busnum = Some (ir_usb_busnum reg),
                or_bus_id = Some p\<rparr>, t)"
    and fd: "fd \<noteq> - 1" and n: "h_port_count b \<noteq> 0" and t: "heap_ok t" "heap_ok b"
    and m: "machine.more t = machine.more (b :: ('e, 'z) local_hcd_scheme)"
    and h: "p = 0 \<and> heap t = heap b \<or>
      p \<noteq> 0 \<and> heap b p = None \<and> heap t = (heap b)(p \<mapsto> Chars (bus_id_of reg @ [CHR 0x00]))"
    and b: "h_callbacks b = []" "h_bg_thread b = 0" "\<not> h_thread_shutdown b" "h_inbox b = []"
      "h_processing b = []" "l_bus_id b = []"
  shows "(\<exists>v. local_hcd_ctor_body P b = Some (Inl BadAlloc, v) \<and> oom t \<noteq> [] \<and> heap_ok v \<and> env v = env t \<and>
      heap v \<in> {heap b, heap t} \<and> hcd_owned v = [] \<and> h_bg_thread v = 0) \<or>
    (\<exists>e x q v. local_hcd_ctor_body P b = Some (Inl StdException, v) \<and> heap_ok v \<and>
      p_thread_create P (env t) = (e, Inl x) \<and> env v = e \<and> heap b q = None \<and>
      heap v = (heap b)(q \<mapsto> PortTable (unat (h_port_count b))) \<and> hcd_owned v = [] \<and> h_bg_thread v = 0) \<or>
    (\<exists>e tid v. local_hcd_ctor_body P b = Some (Inr (), v) \<and> heap_ok v \<and>
      p_thread_create P (env t) = (e, Inr tid) \<and> env v = e \<and> heap b (l_port_block v) = None \<and>
      heap v = (heap b)(l_port_block v \<mapsto> PortTable (unat (h_port_count b))) \<and>
      l_bus_id v = (if p = 0 then [] else bus_id_of reg) \<and> fresh_hcd (h_port_count b) fd reg tid v)"
proof -
  note same = more_hcd [OF m] b
  let ?u = "t\<lparr>l_fd := fd, l_id := ir_id reg, l_usb_bus_num := ir_usb_busnum reg\<rparr>"
  have bus: "l_bus_id t = []" using m b(6) by (cases t; cases b) simp
  have run: "local_hcd_ctor_body P b = do {
      (r, s) \<leftarrow> take_bus_id p ?u;
      (case r of Inl e \<Rightarrow> Some (Inl e, s)
       | Inr _ \<Rightarrow> (case alloc (PortTable (unat (h_port_count b))) s of (q, s) \<Rightarrow>
            if q = 0 then Some (Inl BadAlloc, s)
            else Some (init_bg_thread P
              (s\<lparr>l_port_info := replicate (unat (h_port_count b)) port_info_default, l_port_block := q\<rparr>)))) }"
    unfolding local_hcd_ctor_body_def Let_def if_P [OF n] using o fd n
    by (simp cong del: sum.case_cong_weak prod.case_cong_weak)
  have "p = 0 \<and> heap ?u = heap b \<or>
      p \<noteq> 0 \<and> heap b p = None \<and> heap ?u = (heap b)(p \<mapsto> Chars (bus_id_of reg @ [CHR 0x00]))"
    using h by simp
  from take_bus_id_run [OF this] show ?thesis
  proof (elim disjE exE)
    fix bs assume "oom ?u \<noteq> [] \<and> take_bus_id p ?u = Some (Inl BadAlloc, ?u\<lparr>oom := bs\<rparr>)"
    then show ?thesis using run t same by (simp add: heap_ok_def hcd_owned_def)
  next
    fix bs
    define v where "v = ?u\<lparr>oom := bs, l_bus_id := if p = 0 then l_bus_id ?u else bus_id_of reg, heap := heap b\<rparr>"
    assume "(oom ?u = [] \<longrightarrow> bs = []) \<and> take_bus_id p ?u =
      Some (Inr (), ?u\<lparr>oom := bs, l_bus_id := if p = 0 then l_bus_id ?u else bus_id_of reg, heap := heap b\<rparr>)"
    then have tb: "take_bus_id p ?u = Some (Inr (), v)" "oom t = [] \<longrightarrow> bs = []" by (simp_all add: v_def)
    have ok: "heap_ok v"
      using t(1) h unfolding heap_ok_def by (auto simp: v_def split: if_splits)
    have v: "heap v = heap b" "env v = env t" "h_callbacks v = []" "h_bg_thread v = 0" "\<not> h_thread_shutdown v"
      "h_port_count v = h_port_count b" "h_inbox v = []" "h_processing v = []" "l_fd v = fd" "l_id v = ir_id reg"
      "l_usb_bus_num v = ir_usb_busnum reg" "l_bus_id v = (if p = 0 then [] else bus_id_of reg)" "oom v = bs"
      using same bus by (simp_all add: v_def)
    obtain q w where a: "alloc (PortTable (unat (h_port_count b))) v = (q, w)" by fastforce
    from ok a show ?thesis
    proof (cases rule: alloc_cases)
      case fail
      have "oom t \<noteq> []" using alloc_oom(1) [OF a ok fail(1)] tb(2) v(13) by auto
      moreover have "hcd_owned w = []" "h_bg_thread w = 0"
        using more_hcd [OF fail(6)] v by (simp_all add: hcd_owned_def)
      ultimately show ?thesis using run tb(1) a fail v by simp
    next
      case ok
      note w = more_hcd [OF ok(8)] ok(3,4,6)
      have wl: "l_fd w = l_fd v" "l_id w = l_id v" "l_usb_bus_num w = l_usb_bus_num v" "l_bus_id w = l_bus_id v"
        using ok(8) by (cases w; cases v; simp)+
      let ?w = "w\<lparr>l_port_info := replicate (unat (h_port_count b)) port_info_default, l_port_block := q\<rparr>"
      have r: "local_hcd_ctor_body P b = Some (init_bg_thread P ?w)" using run tb(1) a ok(2) by simp
      have ew: "env ?w = env t" "h_bg_thread ?w = 0" using w v by simp_all
      obtain e c where c: "p_thread_create P (env t) = (e, c)" by fastforce
      show ?thesis
      proof (cases c)
        case (Inl x)
        then have "init_bg_thread P ?w = (Inl StdException, ?w\<lparr>env := e\<rparr>)"
          using ew c by (simp add: init_bg_thread_def)
        then have "local_hcd_ctor_body P b = Some (Inl StdException, ?w\<lparr>env := e\<rparr>)" using r by simp
        then show ?thesis
          using c Inl w v ok(9) by (intro disjI2 disjI1 exI [of _ e] exI [of _ x] exI [of _ q] exI [of _ "?w\<lparr>env := e\<rparr>"])
            (simp add: heap_ok_def hcd_owned_def)
      next
        case (Inr tid)
        then have "init_bg_thread P ?w = (Inr (), ?w\<lparr>env := e, h_bg_thread := tid\<rparr>)"
          using ew c by (simp add: init_bg_thread_def)
        then have "local_hcd_ctor_body P b = Some (Inr (), ?w\<lparr>env := e, h_bg_thread := tid\<rparr>)" using r by simp
        then show ?thesis
          using c Inr w wl v ok(9)
          by (intro disjI2 exI [of _ e] exI [of _ tid] exI [of _ "?w\<lparr>env := e, h_bg_thread := tid\<rparr>"])
            (simp add: heap_ok_def fresh_hcd_def)
      qed
    qed
  qed
qed

lemma hcd_dtor_empty: "h_bg_thread s = 0 \<Longrightarrow> hcd_owned s = [] \<Longrightarrow> hcd_dtor s = Some s"
  by (simp add: hcd_dtor_def join_bg_thread_def hcd_owned_def)

text \<open>The device was not opened, or it was closed again.\<close>

lemma ctor_failed:
  assumes "ports \<noteq> 0" "usb_vhci_open P ports True True True (blank ports s) = Some (res, t)"
    "or_fd res = - 1" "t = (blank ports s)\<lparr>env := e, errno := x\<rparr>" "heap_ok s"
  shows "\<exists>t. local_hcd_ctor P ports s = Some (Inl StdException, t) \<and> heap_ok t \<and> env t = e \<and> heap t = heap s"
proof -
  obtain i n where "local_hcd_ctor_body P (blank ports s) =
      Some (Inl StdException, t\<lparr>l_fd := - 1, l_id := i, l_usb_bus_num := n\<rparr>)"
    using assms(2,3) by (simp add: local_hcd_ctor_body_def)
  moreover have "hcd_dtor (t\<lparr>l_fd := - 1, l_id := i, l_usb_bus_num := n\<rparr>) =
      Some (t\<lparr>l_fd := - 1, l_id := i, l_usb_bus_num := n\<rparr>)"
    by (rule hcd_dtor_empty) (simp_all add: assms(4) blank_def hcd_owned_def)
  ultimately show ?thesis
    using assms(4,5) local_hcd_ctor_blank [OF assms(1), of P s] by (simp add: heap_ok_def)
qed

lemma local_hcd_ctor_run:
  assumes "heap_ok s" and "files_ok P"
  shows "\<exists>r t. local_hcd_ctor P ports s = Some (r, t) \<and> heap_ok t \<and>
    (if ports = 0 then r = Inl (InvalidArgument ''ports'') \<and> t = s
     else case p_open P (env s) of
       (e, Inl _) \<Rightarrow> r = Inl StdException \<and> env t = e \<and> heap t = heap s
     | (e, Inr fd) \<Rightarrow>
         (case p_register P fd ports e of
            (e', Inl _) \<Rightarrow> r = Inl StdException \<and> heap t = heap s \<and>
              (\<exists>k. env t = close_env P fd (Suc k) e' \<and> close_outcome P fd k e' \<noteq> Inl EINTR)
          | (e', Inr reg) \<Rightarrow>
              (r = Inl BadAlloc \<and> oom s \<noteq> [] \<and> env t = e' \<and>
                (heap t = heap s \<or>
                 heap t = (heap s)(brk s \<mapsto> Chars (bus_id_of reg @ [CHR 0x00])))) \<or>
              (r = Inl StdException \<and>
                (\<exists>x q. p_thread_create P e' = (env t, Inl x) \<and> heap s q = None \<and>
                   heap t = (heap s)(q \<mapsto> PortTable (unat ports)))) \<or>
              (r = Inr () \<and> heap s (l_port_block t) = None \<and>
                heap t = (heap s)(l_port_block t \<mapsto> PortTable (unat ports)) \<and>
                l_bus_id t = (if fst (alloc_fails s) then [] else bus_id_of reg) \<and> local_inv t \<and>
                (\<exists>tid. p_thread_create P e' = (env t, Inr tid) \<and> fresh_hcd ports fd reg tid t))))"
proof (cases "ports = 0")
  case True
  then show ?thesis using assms(1) by (simp add: local_hcd_ctor_def hcd_ctor_def)
next
  case False
  let ?b = "blank ports s"
  note run = local_hcd_ctor_blank [OF False, of P s]
  have ok: "heap_ok ?b" using assms(1) by simp
  have bl: "h_callbacks ?b = []" "h_bg_thread ?b = 0" "\<not> h_thread_shutdown ?b" "h_inbox ?b = []"
    "h_processing ?b = []" "l_bus_id ?b = []" "hcd_owned ?b = []" by (simp_all add: blank_def hcd_owned_def)
  from ok assms(2) show ?thesis
  proof (cases rule: open_cases [where n = ports])
    case (no_device e x res t)
    from ctor_failed [OF False no_device(2-4) assms(1)] show ?thesis using False no_device(1) by auto
  next
    case (refused e fd e' x res k y t)
    from ctor_failed [OF False refused(3-5) assms(1)] show ?thesis
      using False refused(1,2,6) by (auto simp del: close_env.simps)
  next
    case (registered e fd e' reg p t)
    have n: "h_port_count ?b \<noteq> 0" using False by simp
    have h: "p = 0 \<and> heap t = heap ?b \<or>
        p \<noteq> 0 \<and> heap ?b p = None \<and> heap t = (heap ?b)(p \<mapsto> Chars (bus_id_of reg @ [CHR 0x00]))"
      "heap t = heap s \<or> heap t = (heap s)(brk s \<mapsto> Chars (bus_id_of reg @ [CHR 0x00]))"
      using registered(9) by auto
    have "fst (alloc_fails ?b) = fst (alloc_fails s)" by (simp add: alloc_fails_def split: list.split)
    then have fails: "p = 0 \<longleftrightarrow> fst (alloc_fails s)" using registered(9) by auto
    have inl: "\<exists>t. local_hcd_ctor P ports s = Some (Inl x, t) \<and> t = v"
      if "local_hcd_ctor_body P ?b = Some (Inl x, v)" "hcd_owned v = []" "h_bg_thread v = 0" for x v
      using that run hcd_dtor_empty [of v] by simp
    have "usb_vhci_open P (h_port_count ?b) True True True ?b =
         Some (\<lparr>or_fd = fd, or_id = Some (ir_id reg), or_busnum = Some (ir_usb_busnum reg),
                or_bus_id = Some p\<rparr>, t)" using registered(4) by simp
    from body_registered [OF this registered(2) n registered(6) ok registered(7) h(1) bl(1-6)]
    show ?thesis
    proof (elim disjE exE conjE)
      fix v assume v: "local_hcd_ctor_body P ?b = Some (Inl BadAlloc, v)" "heap_ok v" "env v = env t"
        "heap v \<in> {heap ?b, heap t}" "hcd_owned v = []" "h_bg_thread v = 0"
        "oom t \<noteq> []"
      have "local_hcd_ctor P ports s = Some (Inl BadAlloc, v)" using inl [OF v(1,5,6)] by simp
      then show ?thesis
        using False registered(1,3,5) v h(2) registered(8)
        by (intro exI [of _ "Inl BadAlloc"] exI [of _ v]) auto
    next
      fix e2 x q v assume v: "local_hcd_ctor_body P ?b = Some (Inl StdException, v)" "heap_ok v"
        "p_thread_create P (env t) = (e2, Inl x)" "env v = e2" "heap ?b q = None"
        "heap v = (heap ?b)(q \<mapsto> PortTable (unat (h_port_count ?b)))" "hcd_owned v = []" "h_bg_thread v = 0"
      have "local_hcd_ctor P ports s = Some (Inl StdException, v)" using inl [OF v(1,7,8)] by simp
      then show ?thesis using False registered(1,3,5) v(2-6)
        by (intro exI [of _ "Inl StdException"] exI [of _ v]) auto
    next
      fix e2 tid v assume v: "local_hcd_ctor_body P ?b = Some (Inr (), v)" "heap_ok v"
        "p_thread_create P (env t) = (e2, Inr tid)" "env v = e2" "heap ?b (l_port_block v) = None"
        "heap v = (heap ?b)(l_port_block v \<mapsto> PortTable (unat (h_port_count ?b)))"
        "l_bus_id v = (if p = 0 then [] else bus_id_of reg)" "fresh_hcd (h_port_count ?b) fd reg tid v"
      have "local_hcd_ctor P ports s = Some (Inr (), v)" using run v(1) by simp
      moreover have "local_inv v" using fresh_inv [OF v(8,2)] v(6) by simp
      ultimately show ?thesis using False registered(1,3,5) v(2-8) fails by simp
    qed
  qed
qed

lemma local_hcd_ctor_success:
  assumes "heap_ok s" "files_ok P" "local_hcd_ctor P ports s = Some (Inr (), t)"
  shows "ports \<noteq> 0 \<and> local_inv t \<and> (\<exists>fd reg tid. fresh_hcd ports fd reg tid t)"
proof -
  note run = local_hcd_ctor_run [OF assms(1,2), of ports, unfolded assms(3)]
  have nz: "ports \<noteq> 0" using run by (auto split: if_splits)
  obtain e r where e: "p_open P (env s) = (e, r)" by fastforce
  then obtain fd where fd: "r = Inr fd" using run nz by (cases r) auto
  obtain e' r' where e': "p_register P fd ports e = (e', r')" by fastforce
  then obtain reg where "r' = Inr reg" using run nz e fd by (cases r') auto
  then show ?thesis using run nz e fd e' by auto
qed

text \<open>
  C20. What the constructor of a \<open>local_hcd\<close> does, for every kernel and whatever allocations fail: it
  never faults. When it returns, the device is open, the bus is registered with the wanted number of
  ports, the members hold the kernel's answers (the bus id as opening delivers it, empty when there was
  no memory for the string), the thread runs, the heap has the array of ports and
  nothing else in addition (the string has been copied and freed), and the invariant holds. When it
  throws, the reason is the first step that failed; a device that refuses the registration is closed
  again. After the registration, however, an exception leaves the descriptor open; if the copy of the
  bus id fails its string is left behind, and if the thread cannot be created the array of ports: the
  destructor does not run, and nobody else frees them.
\<close>

theorem local_hcd_ctor_result:
  assumes "heap_ok s" and "files_ok P"
  shows "\<exists>r t. local_hcd_ctor P ports s = Some (r, t) \<and> heap_ok t \<and>
    (if ports = 0 then r = Inl (InvalidArgument ''ports'') \<and> t = s
     else case p_open P (env s) of
       (e, Inl _) \<Rightarrow> r = Inl StdException \<and> env t = e \<and> heap t = heap s
     | (e, Inr fd) \<Rightarrow>
         (case p_register P fd ports e of
            (e', Inl _) \<Rightarrow> r = Inl StdException \<and> heap t = heap s \<and>
              (\<exists>k. env t = close_env P fd (Suc k) e' \<and> close_outcome P fd k e' \<noteq> Inl EINTR)
          | (e', Inr reg) \<Rightarrow>
              (r = Inl BadAlloc \<and> oom s \<noteq> [] \<and> env t = e' \<and>
                (heap t = heap s \<or>
                 heap t = (heap s)(brk s \<mapsto> Chars (bus_id_of reg @ [CHR 0x00])))) \<or>
              (r = Inl StdException \<and>
                (\<exists>x q. p_thread_create P e' = (env t, Inl x) \<and> heap s q = None \<and>
                   heap t = (heap s)(q \<mapsto> PortTable (unat ports)))) \<or>
              (r = Inr () \<and> heap s (l_port_block t) = None \<and>
                heap t = (heap s)(l_port_block t \<mapsto> PortTable (unat ports)) \<and>
                l_bus_id t = (if fst (alloc_fails s) then [] else bus_id_of reg) \<and> local_inv t \<and>
                (\<exists>tid. p_thread_create P e' = (env t, Inr tid) \<and> fresh_hcd ports fd reg tid t))))"
  using local_hcd_ctor_run [OF assms] .

section \<open>Destruction\<close>

lemma delete_all_spec:
  assumes "heap_ok s" "works_ok s (ws @ others)"
  shows "delete_all ws s = Some (s\<lparr>heap := heap s |` (- footprints s ws)\<rparr>)"
  using assms
proof (induction ws arbitrary: s)
  case (Cons w ws)
  note del = delete_owned [OF Cons.prems(1) Cons.prems(2) [unfolded append_Cons]]
  let ?t = "s\<lparr>heap := heap s |` (- work_footprint s w)\<rparr>"
  have "footprints ?t ws = footprints s ws" by (rule footprints_cong) (simp add: del(5))
  then show ?case
    using Cons.IH [OF heap_ok_restrict [OF Cons.prems(1)] del(2)] del(1) by (simp add: Compl_Un)
qed (simp add: restrict_map_def)

lemma local_hcd_dtor_run:
  assumes "local_inv s" and "close_outcome P (l_fd s) n (env s) \<noteq> Inl EINTR"
  shows "\<exists>t k. local_hcd_dtor P s = Some t \<and>
    heap t = heap s |` (- local_blocks s) \<and>
    h_bg_thread t = 0 \<and> l_port_info t = [] \<and> env t = close_env P (l_fd s) (Suc k) (env s) \<and>
    (\<forall>i<k. close_outcome P (l_fd s) i (env s) = Inl EINTR) \<and> close_outcome P (l_fd s) k (env s) \<noteq> Inl EINTR"
proof -
  let ?j = "join_bg_thread s"
  have j: "env ?j = env s" "heap ?j = heap s" "l_fd ?j = l_fd s" "h_bg_thread ?j = 0" "brk ?j = brk s"
    "h_inbox ?j = h_inbox s" "h_processing ?j = h_processing s" "l_port_block ?j = l_port_block s"
    by (simp_all add: join_bg_thread_def)
  obtain k where k: "close_outcome P (l_fd s) k (env s) \<noteq> Inl EINTR"
    "\<forall>i<k. close_outcome P (l_fd s) i (env s) = Inl EINTR" using assms(2) by (rule first_outcome)
  then obtain c t y where close: "usb_vhci_close P (l_fd s) ?j = Some (c, t)"
    and t: "t = ?j\<lparr>env := close_env P (l_fd s) (Suc k) (env s), errno := y\<rparr>"
    using close_after_interrupts [of k P "l_fd s" ?j] j(1) by auto
  let ?b = "l_port_block s"
  define u where "u = t\<lparr>heap := (heap s)(?b := None), l_port_info := []\<rparr>"
  have inv: "heap_ok s" "works_ok s (hcd_owned s)" and table: "?b \<in> tables s" "heap s ?b \<noteq> None"
    using assms(1) tables_live by (auto simp: local_inv_def hcd_inv_def intro: table_ok_tables)
  have tb: "l_port_block t = ?b" using j(8) by (simp add: t)
  have free: "dealloc ?b t = Some (t\<lparr>heap := (heap s)(?b := None)\<rparr>)"
    using inv(1) table(2) j(2) by (auto simp: dealloc_def t heap_ok_def)
  have h: "h_bg_thread u = 0" "h_inbox u = h_inbox s" "h_processing u = h_processing s"
    "heap u = (heap s)(?b := None)" "brk u = brk s" "l_port_info u = []" "env u = close_env P (l_fd s) (Suc k) (env s)"
    using j by (simp_all add: u_def t del: close_env.simps)
  have out: "?b \<notin> footprints s (hcd_owned s)" using footprints_tables [OF inv(2)] table(1) by blast
  have same: "heap u x = heap s x" if "x \<in> footprints s (hcd_owned s)" for x
    using that out h(4) by auto
  have ok: "heap_ok u" "works_ok u (h_inbox s @ h_processing s)"
    and fp: "footprints u (hcd_owned s) = footprints s (hcd_owned s)"
    using inv(1) h(4,5) works_ok_frame [OF inv(2) same] by (auto simp: heap_ok_def hcd_owned_def)
  let ?i = "u\<lparr>heap := heap u |` (- footprints u (h_inbox s))\<rparr>"
  have w: "works_ok ?i (h_processing s @ [])" using works_ok_restrict [OF ok(2)] by simp
  have "footprints ?i (h_processing s) = footprints u (h_processing s)"
    by (rule works_ok_frame(2))
      (use ok(2) works_ok_disjnt [OF ok(2)] in \<open>auto simp: works_ok_def restrict_map_def disjnt_def pairwise_def\<close>)
  then have "hcd_dtor u = Some (u\<lparr>heap := heap u |` (- footprints u (hcd_owned s))\<rparr>)"
    using delete_all_spec [OF ok] delete_all_spec [OF heap_ok_restrict [OF ok(1)] w] h(1-3)
    by (simp add: hcd_dtor_def join_bg_thread_def hcd_owned_def Compl_Un)
  then have "local_hcd_dtor P s = Some (u\<lparr>heap := heap u |` (- footprints s (hcd_owned s))\<rparr>)"
    using close j(3,8) free fp tb by (simp add: local_hcd_dtor_def flip: u_def)
  moreover have "heap u |` (- footprints s (hcd_owned s)) =
      heap s |` (- local_blocks s)"
    using h(4) by (auto simp: local_blocks_def restrict_map_def fun_eq_iff)
  ultimately show ?thesis using h(1,6,7) k
    by (intro exI [of _ "u\<lparr>heap := heap u |` (- footprints s (hcd_owned s))\<rparr>"] exI [of _ k])
      (simp del: close_env.simps)
qed

text \<open>
  C21. The destructor of a \<open>local_hcd\<close>, from every state that satisfies the invariant: it never faults,
  whatever the user left in the queues. The thread is joined first, the descriptor is closed once
  (again only while \<open>close\<close> is interrupted), exactly the array of ports and the blocks that the two
  queues own are freed, each once; no work is given back to the kernel on this way.
\<close>

theorem local_hcd_dtor_frees:
  assumes "local_inv s" and "close_outcome P (l_fd s) n (env s) \<noteq> Inl EINTR"
  shows "\<exists>t k. local_hcd_dtor P s = Some t \<and>
    heap t = heap s |` (- local_blocks s) \<and>
    h_bg_thread t = 0 \<and> l_port_info t = [] \<and> env t = close_env P (l_fd s) (Suc k) (env s) \<and>
    (\<forall>i<k. close_outcome P (l_fd s) i (env s) = Inl EINTR) \<and> close_outcome P (l_fd s) k (env s) \<noteq> Inl EINTR"
  using local_hcd_dtor_run [OF assms] .

section \<open>Witnesses\<close>

lemma sample_close: "\<exists>k. close_outcome (sample_platform w d r) fd k e \<noteq> Inl EINTR"
proof (induction e)
  case Nil
  then show ?case by (intro exI [of _ 0]) (simp add: close_outcome_def sample_platform_simps)
next
  case (Cons a e)
  then obtain k where k: "close_outcome (sample_platform w d r) fd k e \<noteq> Inl EINTR" by blast
  show ?case
  proof (cases "a = Interrupt")
    case True
    then show ?thesis
      using k by (intro exI [of _ "Suc k"]) (simp add: close_outcome_Suc, simp add: sample_platform_simps)
  qed (intro exI [of _ 0], simp add: close_outcome_def sample_platform_simps split: sys_event.split)
qed

lemma sample_files_ok: "files_ok (sample_platform w d r)" "files_ok plain_platform"
proof -
  have "snd (p_open (sample_platform w d r) e) \<noteq> Inr (- 1)" for w d r e by (simp add: sample_platform_simps)
  then show "files_ok (sample_platform w d r)" for w d r using sample_close by (simp add: files_ok_def)
  then show "files_ok plain_platform" by (simp add: plain_platform_def)
qed

text \<open>The memory before a controller is constructed.\<close>

definition sample_raw :: "log local_hcd" where
  "sample_raw = \<lparr>env = [], errno = 0, heap = Map.empty, brk = 1, oom = [], naps = [],
     h_callbacks = [], h_bg_thread = 0, h_thread_shutdown = False, h_port_count = 0,
     h_inbox = [], h_processing = [],
     l_fd = 0, l_id = 0, l_usb_bus_num = 0, l_bus_id = [], l_port_info = [],
     l_port_block = 0\<rparr>"

lemma sample_raw_ok: "heap_ok sample_raw" "env sample_raw = []"
  by (simp_all add: sample_raw_def heap_ok_def)

theorem local_hcd_ctor_result_witness:
  "\<exists>r t. local_hcd_ctor plain_platform 2 sample_raw = Some (r, t) \<and> heap_ok t \<and>
     env t = [Registered 2, Opened] \<and> r = Inr () \<and> local_inv t \<and> l_bus_id t = ''vhci_hcd.'' \<and>
     heap t = [l_port_block t \<mapsto> PortTable 2]"
proof -
  have s: "oom sample_raw = []" "fst (alloc_fails sample_raw) = False" "heap sample_raw = Map.empty"
    by (simp_all add: sample_raw_def alloc_fails_def)
  have P: "p_open plain_platform [] = ([Opened], Inr 3)"
    "p_register plain_platform 3 2 [Opened] = ([Registered 2, Opened],
       Inr \<lparr>ir_id = 0, ir_usb_busnum = 1, ir_bus_id = ''vhci_hcd.0''\<rparr>)"
    "p_thread_create plain_platform e = (e, Inr 1)" for e
    by (simp_all add: sample_platform_simps)
  show ?thesis
    using local_hcd_ctor_result [OF sample_raw_ok(1) sample_files_ok(2), of 2] sample_raw_ok(2)
    by (auto simp: P s bus_id_of_def)
qed

theorem local_hcd_dtor_frees_witness:
  "\<exists>t. local_hcd_dtor plain_platform sample_idle = Some t \<and> h_bg_thread t = 0 \<and>
     heap t = heap sample_idle |` (- insert 4 (footprints sample_idle [6]))"
proof -
  obtain k where "close_outcome plain_platform (l_fd sample_idle) k (env sample_idle) \<noteq> Inl EINTR"
    using sample_files_ok(2) unfolding files_ok_def by blast
  moreover have "l_port_block sample_idle = 4" "hcd_owned sample_idle = [6]"
    using sample_addressed_ok [of "[]"] by (simp_all add: sample_idle_def hcd_owned_def)
  ultimately show ?thesis
    using local_hcd_dtor_frees [OF sample_idle_ok(1)] by (fastforce simp: local_blocks_def)
qed

end
