(* ===== verification/Local_Ports.thy ===== *)
theory Local_Ports
  imports Local_Background
begin

text \<open>
  The tables of a \<open>local_hcd\<close> as its user and the background thread see them: the lookup of a
  port by address and back, the recorded status, and the notifications with their checks.
\<close>

section \<open>Addresses and ports\<close>

lemma address_from_port_run:
  assumes "ports_ok s"
  shows "address_from_port p s =
    Some (if p = 0 then Inl (InvalidArgument ''port'')
          else if p > h_port_count s then Inl (OutOfRange ''port'')
          else Inr (pi_adr (port_at p s)))"
proof -
  have "port_ok p s" if "p \<noteq> 0" "\<not> p > h_port_count s"
    using that assms by (simp add: port_ok_def ports_ok_def word_le_nat_alt not_less)
  then show ?thesis by (simp add: address_from_port_def port_entry_at)
qed

text \<open>The port that \<open>port_of\<close> finds is the first with the address.\<close>

lemma port_of_found:
  "port_of a ps = Suc i \<longleftrightarrow> i < length ps \<and> pi_adr (ps ! i) = a \<and> (\<forall>j < i. pi_adr (ps ! j) \<noteq> a)"
  "port_of a ps = 0 \<longleftrightarrow> (\<forall>i < length ps. pi_adr (ps ! i) \<noteq> a)"
proof -
  let ?f = "List.find (\<lambda>i. pi_adr (ps ! i) = a) [0..<length ps]"
  have none: "?f = None \<longleftrightarrow> (\<forall>i < length ps. pi_adr (ps ! i) \<noteq> a)"
    by (auto simp: find_None_iff)
  show "port_of a ps = 0 \<longleftrightarrow> (\<forall>i < length ps. pi_adr (ps ! i) \<noteq> a)"
    unfolding none [symmetric] by (simp add: port_of_def split: option.split)
  have "?f = Some i \<longleftrightarrow> i < length ps \<and> pi_adr (ps ! i) = a \<and> (\<forall>j < i. pi_adr (ps ! j) \<noteq> a)"
    by (auto simp: find_Some_iff)
  then show "port_of a ps = Suc i \<longleftrightarrow>
      i < length ps \<and> pi_adr (ps ! i) = a \<and> (\<forall>j < i. pi_adr (ps ! j) \<noteq> a)"
    by (auto simp: port_of_def split: option.split)
qed

lemma port_of_first:
  assumes "ports_ok s" "address_from_port q s = Some (Inr a)"
  shows "q \<noteq> 0" "port_of a (l_port_info s) \<noteq> 0" "port_of a (l_port_info s) \<le> unat q"
proof -
  have q: "q \<noteq> 0" "unat q - 1 < length (l_port_info s)" "pi_adr (l_port_info s ! (unat q - 1)) = a"
    using assms unat_pos [of q]
    by (auto simp: address_from_port_run ports_ok_def port_at_def word_le_nat_alt not_less
        split: if_splits)
  show "q \<noteq> 0" by fact
  show nz: "port_of a (l_port_info s) \<noteq> 0" using q by (auto simp: port_of_found)
  then obtain i where i: "port_of a (l_port_info s) = Suc i" by (auto simp: gr0_conv_Suc)
  then have "\<not> unat q - 1 < i" using q by (auto simp: port_of_found)
  then show "port_of a (l_port_info s) \<le> unat q" using i q(1) unat_pos [of q] by linarith
qed

text \<open>
  C37. \<open>port_from_address\<close> and \<open>address_from_port\<close> are inverse where they can be: looking up a
  seven-bit address gives the lowest port behind which it is, whose address is that one again,
  or 0 exactly when no port has it; anything larger is refused, so that the marker \<open>0xff\<close> of
  a port without a device is never found. Neither lookup reads outside the table.
\<close>

theorem port_address_inverse:
  assumes "ports_ok s"
  shows "case port_from_address a s of
      None \<Rightarrow> False
    | Some (Inl e) \<Rightarrow> a > 0x7f \<and> e = InvalidArgument ''address''
    | Some (Inr p) \<Rightarrow> a \<le> 0x7f \<and>
        (if p = 0 then \<forall>q. address_from_port q s \<noteq> Some (Inr a)
         else address_from_port p s = Some (Inr a) \<and>
           (\<forall>q. address_from_port q s = Some (Inr a) \<longrightarrow> p \<le> q))"
proof (cases "a > 0x7f")
  case True
  then show ?thesis by (simp add: port_from_address_def)
next
  case False
  define p :: u8 where "p = of_nat (port_of a (l_port_info s))"
  have p: "port_from_address a s = Some (Inr p)" "unat p = port_of a (l_port_info s)"
    using port_from_address_run [OF assms, of a] False by (simp_all add: p_def)
  have none: "address_from_port q s \<noteq> Some (Inr a)" if "p = 0" for q
    using port_of_first(2) [OF assms, of q a] p(2) that by auto
  have first: "p \<le> q" if "address_from_port q s = Some (Inr a)" for q
    using port_of_first(3) [OF assms that] p(2) by (simp add: word_le_nat_alt)
  have again: "address_from_port p s = Some (Inr a)" if nz: "p \<noteq> 0"
  proof -
    obtain i where i: "port_of a (l_port_info s) = Suc i"
      using p(2) unat_pos [OF nz] by (cases "port_of a (l_port_info s)") simp_all
    then have l: "i < length (l_port_info s)" "pi_adr (l_port_info s ! i) = a"
      by (simp_all add: port_of_found)
    then have "\<not> p > h_port_count s"
      using p(2) i assms by (simp add: ports_ok_def word_less_nat_alt)
    then show ?thesis
      using nz l p(2) i address_from_port_run [OF assms, of p] by (simp add: port_at_def)
  qed
  show ?thesis using p(1) False none first again by (simp add: not_less)
qed

theorem port_address_inverse_witness:
  "\<exists>p. port_from_address 0 (sample_addressed []) = Some (Inr p) \<and> p \<noteq> 0 \<and>
     address_from_port p (sample_addressed []) = Some (Inr 0)"
proof -
  have ok: "ports_ok (sample_addressed [])" using sample_addressed_ok [of "[]"] by simp
  have "address_from_port 1 (sample_addressed []) = Some (Inr 0)"
    using address_from_port_run [OF ok, of 1]
    by (simp add: sample_addressed_def sample_local_def port_at_def)
  with port_address_inverse [OF ok, of 0] show ?thesis
    by (auto split: option.splits sum.splits if_splits)
qed

section \<open>System calls that move no data\<close>

definition env_only :: "('e, 'z) machine_scheme \<Rightarrow> ('e, 'z) machine_scheme \<Rightarrow> bool" where
  "env_only s t \<longleftrightarrow> (\<exists>e n. t = s\<lparr>env := e, errno := n\<rparr>)"

lemma env_only_intros [simp]:
  "env_only s s" "env_only s (s\<lparr>env := e\<rparr>)" "env_only s (s\<lparr>errno := n\<rparr>)" "env_only s (s\<lparr>env := e, errno := n\<rparr>)"
  unfolding env_only_def
  by (metis machine.surjective machine.update_convs(1,2))+

lemma env_only_trans:
  assumes "env_only s t" "env_only t r" shows "env_only s r"
proof -
  obtain e n e' n' where "t = s\<lparr>env := e, errno := n\<rparr>" "r = t\<lparr>env := e', errno := n'\<rparr>"
    using assms by (auto simp: env_only_def)
  then have "r = s\<lparr>env := e', errno := n'\<rparr>" by simp
  then show ?thesis by simp
qed

lemma port_call_frame: "port_call P fd port ev s = (r, t) \<Longrightarrow> env_only s t"
  by (cases ev) (auto simp: port_request_defs send_port_stat_syscall Let_def
      split: if_splits prod.splits sum.splits)

lemma local_frame:
  assumes "env_only (s :: ('e, 'z) local_hcd_scheme) t"
  shows "l_fd t = l_fd s" "port_ok i t = port_ok i s" "ports_ok t = ports_ok s" "port_at i t = port_at i s"
  using assms by (auto simp: env_only_def port_ok_def ports_ok_def port_at_def)

section \<open>The recorded status\<close>

lemma get_port_stat_run:
  assumes "port_ok index s" "ports_ok s"
  shows "get_port_stat index s = Some (Inr (pi_stat (port_at index s)))"
proof -
  have "\<not> index > h_port_count s" "index \<noteq> 0"
    using assms by (simp_all add: port_ok_def ports_ok_def word_less_nat_alt)
  then show ?thesis using assms(1) by (simp add: get_port_stat_def check_port_def port_entry_at)
qed

section \<open>Notifications\<close>

text \<open>The member function for each event.\<close>

fun local_port_call ::
  "'e platform \<Rightarrow> u8 \<Rightarrow> port_event \<Rightarrow> ('e, 'z) local_hcd_scheme \<Rightarrow>
   (exn + unit) \<times> ('e, 'z) local_hcd_scheme" where
  "local_port_call P port (Connect r) s = port_connect P port r s"
| "local_port_call P port Disconnect s = port_disconnect P port s"
| "local_port_call P port Disable s = port_disable P port s"
| "local_port_call P port Resumed s = port_resumed P port s"
| "local_port_call P port (Overcurrent b) s = port_overcurrent P port b s"
| "local_port_call P port (ResetDone b) s = port_reset_done P port b s"

lemma local_port_call_notify:
  "local_port_call P port ev s = port_notify (port_call P (l_fd s) port ev) port s"
  by (cases ev) (simp_all add: port_connect_def port_disconnect_def port_disable_def
      port_resumed_def port_overcurrent_def port_reset_done_def)

text \<open>
  C36. Each notification of the class checks the port before it talks to the kernel: port 0 is
  an \<open>invalid_argument\<close> and a port beyond the last one is \<open>out_of_range\<close>, and then nothing
  happens; otherwise exactly one message is sent that decodes to the port and the event asked
  for, and the exception is thrown exactly when the kernel refuses it. Queues, tables and
  memory are never touched.
\<close>

theorem local_port_call_result:
  assumes "port_bits_ok P"
  shows "local_port_call P port ev s =
      (if port = 0 then (Inl (InvalidArgument ''port''), s)
       else if port > h_port_count s then (Inl (OutOfRange ''port''), s)
       else case p_port_stat P (l_fd s) (event_msg port ev) (env s) of
              (e, Inl err) \<Rightarrow> (Inl StdException, s\<lparr>env := e, errno := err\<rparr>)
            | (e, Inr _) \<Rightarrow> (Inr (), s\<lparr>env := e\<rparr>)) \<and>
    decode_port_stat (event_msg port ev) = Some (port, ev)"
  using port_call_send [OF assms, of port "l_fd s" ev s]
  by (auto simp: local_port_call_notify port_notify_def check_port_def send_port_stat_syscall
      decode_event_msg split: prod.split sum.split)

theorem local_port_call_result_witness:
  "local_port_call plain_platform 1 (Connect High) sample_local =
     (Inr (), sample_local\<lparr>env := [SentPortStat (event_msg 1 (Connect High))]\<rparr>) \<and>
   local_port_call plain_platform 2 Disconnect sample_local = (Inl (OutOfRange ''port''), sample_local)"
proof -
  have ok: "port_bits_ok plain_platform" using sample_abi_ok(2) abi_ok_parts(3) by blast
  show ?thesis
    using local_port_call_result [OF ok, of 1 "Connect High" sample_local]
      local_port_call_result [OF ok, of 2 Disconnect sample_local]
    by (simp add: plain_platform_def sample_platform_def abi.extend_def sample_local_def)
qed

end
