(* ===== verification/Hcd_Edit.thy ===== *)
theory Hcd_Edit
  imports Hcd_Queue
begin

text \<open>
  What a user does with a URB it has fetched: it sets fields of the URB object and writes into the
  URB's data and packets, but leaves the pointers and lengths alone. Ownership is not affected.
\<close>

definition edited ::
  "('e, 'z) machine_scheme \<Rightarrow> nat \<Rightarrow> nat \<Rightarrow> ('e, 'y) machine_scheme \<Rightarrow> bool" where
  "edited s p q t \<longleftrightarrow>
     (\<exists>w u v. load_work p s = Some w \<and> w_kind w = ProcessUrbWork q \<and> load_urb q s = Some u \<and>
        load_urb q t = Some v \<and> urb_blocks v = urb_blocks u \<and> u_handle v = u_handle u \<and>
        urb_mem t v \<and> (\<forall>x. x \<noteq> q \<and> x \<notin> urb_blocks u \<longrightarrow> heap t x = heap s x))"

lemma edited_work:
  assumes "edited s p q t" "work_object s p"
  shows "work_object t p" "work_footprint t p = work_footprint s p" "load_work p t = load_work p s"
    "\<And>x. x \<notin> work_footprint s p \<Longrightarrow> heap t x = heap s x" "urb_object t q"
proof -
  obtain w u v where e: "load_work p s = Some w" "w_kind w = ProcessUrbWork q" "load_urb q s = Some u"
    "load_urb q t = Some v" "urb_blocks v = urb_blocks u" "urb_mem t v"
    "\<And>x. x \<noteq> q \<and> x \<notin> urb_blocks u \<Longrightarrow> heap t x = heap s x"
    using assms(1) by (auto simp: edited_def)
  have uo: "urb_object s q" "w_port w \<noteq> 0" using assms(2) e(1,2) by (simp_all add: work_object_def)
  have p: "heap s p = Some (WorkObj w)" using e(1) by (simp add: load_work_Some)
  have "p \<notin> insert q (urb_blocks u)"
    using urb_footprint_not_work [OF uo(1) p] e(3) by (simp add: urb_footprint_def)
  then have l: "load_work p t = Some w" using e(1,7) load_cong(2) [of t p s] by simp
  then show "load_work p t = load_work p s" using e(1) by simp
  show q: "urb_object t q" using e(4,6) by (simp add: urb_object_def)
  then show "work_object t p" using l e(2) uo(2) by (simp add: work_object_def)
  show "work_footprint t p = work_footprint s p"
    using l e(1-5) by (simp add: work_footprint_def urb_footprint_def)
  show "\<And>x. x \<notin> work_footprint s p \<Longrightarrow> heap t x = heap s x"
    using e(1-3,7) by (simp add: work_footprint_def urb_footprint_def)
qed

lemma edited_works_ok:
  assumes "edited s p q t" "works_ok s ps" "p \<in> set ps"
  shows "works_ok t ps" "footprints t ps = footprints s ps"
    "\<And>x. x \<notin> work_footprint s p \<Longrightarrow> heap t x = heap s x"
    "\<And>r. r \<in> set ps \<Longrightarrow> load_work r t = load_work r s"
proof -
  note ed = edited_work [OF assms(1) works_ok_object [OF assms(2,3)]]
  have each: "work_object t r \<and> work_footprint t r = work_footprint s r \<and> load_work r t = load_work r s"
    if "r \<in> set ps" for r
  proof (cases "r = p")
    case False
    then have "disjnt (work_footprint s r) (work_footprint s p)"
      using assms(2,3) that by (auto simp: works_ok_def pairwise_def)
    then have "heap t x = heap s x" if "x \<in> work_footprint s r" for x
      using that ed(4) by (auto simp: disjnt_def)
    then show ?thesis
      using work_object_cong [of s r t] works_ok_object [OF assms(2) \<open>r \<in> set ps\<close>] by blast
  qed (use ed in simp)
  then show "works_ok t ps" "footprints t ps = footprints s ps"
    using assms(2) by (simp_all add: works_ok_def footprints_def pairwise_def)
  show "\<And>x. x \<notin> work_footprint s p \<Longrightarrow> heap t x = heap s x" by (rule ed(4))
  show "\<And>r. r \<in> set ps \<Longrightarrow> load_work r t = load_work r s" using each by blast
qed

lemma edited_inv:
  assumes "edited s p q t" "hcd_inv s" "p \<in> set (hcd_owned s)" "hcd_owned t = hcd_owned s" "brk t = brk s"
  shows "hcd_inv t"
proof -
  have ws: "works_ok s (hcd_owned s)" and ok: "heap_ok s" using assms(2) by (simp_all add: hcd_inv_def)
  note ed = edited_works_ok [OF assms(1) ws assms(3)]
  have "heap s x \<noteq> None" if "heap t x \<noteq> None" for x
  proof (cases "x \<in> work_footprint s p")
    case True
    then show ?thesis using work_footprint_live works_ok_object [OF ws assms(3)] by blast
  qed (use that ed(3) in simp)
  then have "heap_ok t" using ok assms(5) by (simp add: heap_ok_def)
  then show ?thesis using ed(1) assms(4) by (simp add: hcd_inv_def)
qed

end
