(* ===== verification/Local_System.thy ===== *)
theory Local_System
  imports Local_Lifecycle Local_Ports Hcd_Edit
begin

text \<open>
  A program that uses a \<open>local_hcd\<close>: the background thread, the calls of the user's threads, the
  user's work on the URBs it has fetched and the rest of the program, in any order. Each call is one
  step; the class holds its mutex for all of it, or, in \<open>bg_work\<close> and \<open>finish_work\<close>, for
  the part in which it touches what it shares.
\<close>

section \<open>Calls\<close>

datatype call =
    Background
  | NextWork
  | FinishWork nat
  | CancelUrb u64
  | Notify u8 port_event
  | AddCallback callback
  | RemoveCallback callback

definition no_value :: "((exn + 'a) \<times> 's) option \<Rightarrow> ((exn + unit) \<times> 's) option" where
  "no_value x = map_option (\<lambda>(r, t). (case r of Inl e \<Rightarrow> Inl e | Inr _ \<Rightarrow> Inr (), t)) x"

fun perform ::
  "'e platform \<Rightarrow> call \<Rightarrow> ('e, 'z) local_hcd_scheme \<Rightarrow>
   ((exn + unit) \<times> ('e, 'z) local_hcd_scheme) option" where
  "perform P Background s = bg_work P s"
| "perform P NextWork s = no_value (next_work s)"
| "perform P (FinishWork w) s = finish_work (local_finishing_work P) w s"
| "perform P (CancelUrb h) s =
     no_value (cancel_process_urb_work (local_canceling_work P) (local_finishing_work P) h s)"
| "perform P (Notify port ev) s = Some (local_port_call P port ev s)"
| "perform P (AddCallback c) s = Some (add_work_enqueued_callback c s)"
| "perform P (RemoveCallback c) s = Some (Inr (), remove_work_enqueued_callback c s)"

text \<open>The user finishes only what it has fetched, and each work once.\<close>

fun permitted :: "call \<Rightarrow> ('e, 'z) hcd_scheme \<Rightarrow> bool" where
  "permitted (FinishWork w) s \<longleftrightarrow> w \<in> set (h_processing s)"
| "permitted _ s \<longleftrightarrow> True"

text \<open>An exception that leaves \<open>bg_work\<close> ends the program.\<close>

definition survives :: "call \<Rightarrow> exn + unit \<Rightarrow> bool" where
  "survives c r \<longleftrightarrow> (c = Background \<longrightarrow> r = Inr ())"

section \<open>Executions\<close>

inductive sys_step ::
  "'e platform \<Rightarrow> ('e, 'z) local_hcd_scheme \<Rightarrow> ('e, 'z) local_hcd_scheme \<Rightarrow> bool"
  for P :: "'e platform" where
  call: "permitted c s \<Longrightarrow> perform P c s = Some (r, t) \<Longrightarrow> survives c r \<Longrightarrow> sys_step P s t"
| edit: "p \<in> set (h_processing s) \<Longrightarrow> edited s p q (s\<lparr>heap := h\<rparr>) \<Longrightarrow> sys_step P s (s\<lparr>heap := h\<rparr>)"
| other_memory: "\<forall>x \<in> local_blocks s. h x = heap s x \<Longrightarrow> heap_ok (s\<lparr>heap := h, brk := n\<rparr>) \<Longrightarrow>
    sys_step P s (s\<lparr>heap := h, brk := n\<rparr>)"
| world: "sys_step P s (s\<lparr>env := e, errno := x, oom := bs, naps := ns\<rparr>)"
| stop: "sys_step P s (s\<lparr>h_thread_shutdown := True\<rparr>)"

inductive_cases sys_stepE: "sys_step P s t"

inductive runs :: "'e platform \<Rightarrow> u8 \<Rightarrow> ('e, 'z) local_hcd_scheme \<Rightarrow> bool"
  for P :: "'e platform" and ports :: u8 where
  start: "heap_ok s \<Longrightarrow> local_hcd_ctor P ports s = Some (Inr (), t) \<Longrightarrow> runs P ports t"
| step: "runs P ports s \<Longrightarrow> sys_step P s t \<Longrightarrow> runs P ports t"

section \<open>Each step keeps the invariant\<close>

definition sys_inv :: "u8 \<Rightarrow> ('e, 'z) local_hcd_scheme \<Rightarrow> bool" where
  "sys_inv ports s \<longleftrightarrow> local_inv s \<and> ranged s \<and> h_port_count s = ports"

lemma bg_effect_sys: "bg_effect np s t \<Longrightarrow> sys_inv ports s \<Longrightarrow> sys_inv ports t"
  by (simp add: bg_effect_def sys_inv_def steady_def)

lemma no_value_Some: "no_value x = Some (r, t) \<Longrightarrow> \<exists>r'. x = Some (r', t)"
  by (auto simp: no_value_def)

text \<open>Removing works and freeing what they own.\<close>

lemma removed_sys:
  assumes inv: "sys_inv ports s" and t: "hcd_inv t" "hcd_frame s t"
    and h: "heap t = heap s |` (- footprints s gone)"
    and own: "set (gone @ hcd_owned t) \<subseteq> set (hcd_owned s)" "distinct (gone @ hcd_owned t)"
  shows "sys_inv ports t"
proof -
  have s: "local_inv s" "ranged s" "works_ok s (hcd_owned s)"
    using inv by (simp_all add: sys_inv_def local_inv_def hcd_inv_def)
  have w: "works_ok s (gone @ hcd_owned t)" by (rule works_ok_perm [OF own(2,1) s(3)])
  then have w': "works_ok s (hcd_owned t)" by (rule works_ok_perm [rotated 2]) (use own(2) in auto)
  have "heap t x = heap s x" if "x \<in> footprints s (hcd_owned t)" for x
    using works_ok_disjnt [OF w] h that by (auto simp: disjnt_def restrict_map_def)
  then have l: "load_work p t = load_work p s" if "p \<in> set (hcd_owned t)" for p
    using works_ok_frame(3) [OF w'] that by blast
  have n: "h_port_count t = h_port_count s" using t(2) by (simp add: hcd_frame_def)
  have "ranged t" using ranged_subset [OF s(2) _ n l] own(1) by auto
  moreover have "local_inv t"
    using local_inv_frame [OF s(1) t tables_restrict [OF s(3) _ h]] own(1) by simp
  ultimately show ?thesis using n inv by (simp add: sys_inv_def)
qed

text \<open>Steps that leave the memory and the queues alone.\<close>

lemma quiet_sys:
  assumes "sys_inv ports s" "heap t = heap s" "brk t = brk s" "hcd_owned t = hcd_owned s"
    "h_port_count t = h_port_count s" "l_port_info t = l_port_info s" "l_port_block t = l_port_block s"
  shows "sys_inv ports t"
proof -
  have "hcd_inv t"
    using assms(1-4) heap_determines(6) [OF assms(2)]
    by (simp add: sys_inv_def local_inv_def hcd_inv_def heap_ok_def)
  then show ?thesis
    using assms ranged_heap [OF assms(2,4,5)]
    by (simp add: sys_inv_def local_inv_def ports_ok_def table_ok_def)
qed

lemma next_work_sys:
  assumes "sys_inv ports s"
  shows "\<exists>r t. next_work s = Some (r, t) \<and> sys_inv ports t"
proof -
  have inv: "hcd_inv s" using assms by (simp add: sys_inv_def local_inv_def)
  from next_work_spec [OF inv refl refl] obtain r t where t: "next_work s = Some (r, t)" "hcd_inv t" by blast
  note own = next_work_owned [OF inv t(1) refl]
  show ?thesis using removed_sys [OF assms t(2) next_work_frame(1) [OF inv t(1)] own(3,1,2)] t(1) by blast
qed

lemma finish_work_sys:
  assumes "sys_inv ports s" "w \<in> set (h_processing s)" "local_ready P w s"
  shows "\<exists>t. finish_work (local_finishing_work P) w s = Some (Inr (), t) \<and> sys_inv ports t"
proof -
  have inv: "hcd_inv s" using assms by (simp add: sys_inv_def local_inv_def)
  from local_hooks.finish_work_spec [OF inv assms(2,3)] obtain t where
    t: "finish_work (local_finishing_work P) w s = Some (Inr (), t)" "hcd_inv t"
    "heap t = heap s |` (- footprints s [w])" "hcd_frame s t"
    "h_inbox t = h_inbox s" "h_processing t = removeAll w (h_processing s)" by auto
  have "distinct (hcd_owned s)" using inv by (simp add: hcd_inv_def works_ok_def)
  then have "set ([w] @ hcd_owned t) \<subseteq> set (hcd_owned s)" "distinct ([w] @ hcd_owned t)"
    using assms(2) t(5,6) by (auto simp: hcd_owned_def distinct_removeAll)
  from removed_sys [OF assms(1) t(2,4,3) this] t(1) show ?thesis by blast
qed

text \<open>The calls that may fault, and when: a URB whose packets were never set is given back, or there
  is no memory for the reports of its packets.\<close>

fun may_fault :: "'e platform \<Rightarrow> call \<Rightarrow> ('e, 'z) local_hcd_scheme \<Rightarrow> bool" where
  "may_fault P Background s \<longleftrightarrow> \<not> all_ready P s"
| "may_fault P (FinishWork w) s \<longleftrightarrow> \<not> local_ready P w s"
| "may_fault P (CancelUrb h) s \<longleftrightarrow> \<not> all_ready P s"
| "may_fault P _ s \<longleftrightarrow> False"

lemma perform_sys:
  assumes "sys_inv ports s" "kernel_ok P" "permitted c s"
  shows "perform P c s = None \<and> may_fault P c s \<or>
    (\<exists>r t. perform P c s = Some (r, t) \<and> sys_inv ports t)"
proof (cases c)
  case Background
  have inv: "local_inv s" using assms(1) by (simp add: sys_inv_def)
  from bg_work_run [OF inv assms(2)] show ?thesis
    using Background bg_effect_sys [OF _ assms(1)] by auto
next
  case NextWork
  from next_work_sys [OF assms(1)] show ?thesis using NextWork by (auto simp: no_value_def)
next
  case (FinishWork w)
  have inv: "hcd_inv s" using assms(1) by (simp add: sys_inv_def local_inv_def)
  show ?thesis
    using finish_work_sys [OF assms(1), of w P] local_hooks.finish_work_fault [OF inv, of w P] assms(3) FinishWork
    by auto
next
  case (CancelUrb h)
  have inv: "local_inv s" using assms(1) by (simp add: sys_inv_def)
  from bg_cancel_effect [OF inv, of P h] show ?thesis
    using CancelUrb bg_effect_sys [OF _ assms(1)] by (auto simp: no_value_def)
next
  case (Notify port ev)
  obtain r t where t: "local_port_call P port ev s = (r, t)" by fastforce
  then have "env_only s t"
    using port_call_frame [of P "l_fd s" port ev s]
    by (auto simp: local_port_call_notify port_notify_def split: sum.splits prod.splits if_splits)
  then have "sys_inv ports t"
    by (intro quiet_sys [OF assms(1)]) (auto simp: env_only_def hcd_owned_def)
  then show ?thesis using Notify t by simp
next
  case (AddCallback cb)
  have "sys_inv ports (snd (add_work_enqueued_callback cb s))"
    by (rule quiet_sys [OF assms(1)])
      (auto simp: add_work_enqueued_callback_def alloc_fails_def hcd_owned_def split: list.split bool.split)
  then show ?thesis using AddCallback by (cases "add_work_enqueued_callback cb s") simp
next
  case (RemoveCallback cb)
  have "sys_inv ports (remove_work_enqueued_callback cb s)"
    by (rule quiet_sys [OF assms(1)]) (auto simp: remove_work_enqueued_callback_def hcd_owned_def)
  then show ?thesis using RemoveCallback by simp
qed

lemma edit_sys:
  assumes "sys_inv ports s" "p \<in> set (h_processing s)" "edited s p q (s\<lparr>heap := h\<rparr>)"
  shows "sys_inv ports (s\<lparr>heap := h\<rparr>)"
proof -
  let ?t = "s\<lparr>heap := h\<rparr>"
  have inv: "hcd_inv s" "works_ok s (hcd_owned s)" and p: "p \<in> set (hcd_owned s)"
    using assms(1,2) by (simp_all add: sys_inv_def local_inv_def hcd_inv_def hcd_owned_def)
  have own: "hcd_owned ?t = hcd_owned s" by (simp add: hcd_owned_def)
  have "hcd_inv ?t" using edited_inv [OF assms(3) inv(1) p own] by simp
  moreover have "ranged ?t"
  proof (rule ranged_subset)
    show "ranged s" using assms(1) by (simp add: sys_inv_def)
    show "load_work r ?t = load_work r s" if "r \<in> set (hcd_owned ?t)" for r
      using edited_works_ok(4) [OF assms(3) inv(2) p] that own by simp
  qed (use own in simp_all)
  moreover have "h (l_port_block s) = heap s (l_port_block s)"
  proof -
    have "l_port_block s \<in> tables s"
      using assms(1) by (simp add: sys_inv_def local_inv_def table_ok_tables)
    then have "l_port_block s \<notin> work_footprint s p"
      using footprint_tables [OF works_ok_object [OF inv(2) p]] by blast
    then show ?thesis using edited_works_ok(3) [OF assms(3) inv(2) p] by simp
  qed
  ultimately show ?thesis using assms(1) by (simp add: sys_inv_def local_inv_def ports_ok_def table_ok_def)
qed

lemma other_sys:
  assumes "sys_inv ports s" "\<forall>x \<in> local_blocks s. h x = heap s x"
    "heap_ok (s\<lparr>heap := h, brk := n\<rparr>)"
  shows "sys_inv ports (s\<lparr>heap := h, brk := n\<rparr>)"
proof -
  let ?t = "s\<lparr>heap := h, brk := n\<rparr>"
  have w: "works_ok s (hcd_owned s)" using assms(1) by (simp add: sys_inv_def local_inv_def hcd_inv_def)
  have own: "hcd_owned ?t = hcd_owned s" by (simp add: hcd_owned_def)
  have fr: "heap ?t x = heap s x" if "x \<in> footprints s (hcd_owned s)" for x
    using assms(2) that by (simp add: local_blocks_def)
  note same = works_ok_frame(1,3) [OF w fr]
  have "hcd_inv ?t" using same(1) assms(3) own by (simp add: hcd_inv_def)
  moreover have "ranged ?t"
  proof (rule ranged_subset)
    show "ranged s" using assms(1) by (simp add: sys_inv_def)
    show "load_work r ?t = load_work r s" if "r \<in> set (hcd_owned ?t)" for r
      using same(2) that own by metis
  qed (use own in simp_all)
  ultimately show ?thesis
    using assms(1,2) by (simp add: sys_inv_def local_inv_def ports_ok_def table_ok_def local_blocks_def)
qed

lemma sys_step_inv:
  assumes "sys_step P s t" "sys_inv ports s" "kernel_ok P"
  shows "sys_inv ports t"
  using assms(1)
proof cases
  case (call c r)
  then show ?thesis using perform_sys [OF assms(2,3) call(1)] by auto
next
  case (edit p q h)
  then show ?thesis using edit_sys [OF assms(2)] by blast
next
  case (other_memory h n)
  then show ?thesis using other_sys [OF assms(2)] by blast
next
  case world
  show ?thesis unfolding world by (rule quiet_sys [OF assms(2)]) (simp_all add: hcd_owned_def)
next
  case stop
  show ?thesis unfolding stop by (rule quiet_sys [OF assms(2)]) (simp_all add: hcd_owned_def)
qed

lemma runs_inv:
  assumes "runs P ports s" "kernel_ok P" "files_ok P"
  shows "sys_inv ports s \<and> ports \<noteq> 0"
  using assms(1)
proof induction
  case (start s t)
  from local_hcd_ctor_success [OF start(1) assms(3) start(2)] show ?case by (auto simp: sys_inv_def fresh_hcd_def ranged_def hcd_owned_def)
next
  case (step s t)
  then show ?case using sys_step_inv [OF step(2) _ assms(2)] by blast
qed

section \<open>Properties\<close>

text \<open>
  C2. Memory and types are safe in every program that uses the controller, whatever the
  interleaving of the background thread, the user's calls, its work on fetched URBs and the rest of the
  program, whatever the kernel sends and whichever allocations fail. Every pointer in the two queues
  is a live work object of its own, for one of the ports; a work for a URB owns a live URB object
  whose data and packets are live blocks of the type and the length its fields say; no block is
  reached from two works; the table has one entry for each port, with an address of seven bits or none,
  and its array is a live block of its own.
\<close>

theorem program_well_typed:
  assumes "runs P ports s" and "kernel_ok P" and "files_ok P"
  shows "heap_ok s \<and> ports \<noteq> 0 \<and> h_port_count s = ports \<and> length (l_port_info s) = unat ports \<and>
    (\<forall>i \<in> set (l_port_info s). pi_adr i \<le> 0x7f \<or> pi_adr i = 0xff) \<and>
    heap s (l_port_block s) = Some (PortTable (unat ports)) \<and>
    distinct (h_inbox s @ h_processing s) \<and>
    (\<forall>p \<in> set (h_inbox s @ h_processing s).
       \<exists>w. load_work p s = Some w \<and> 1 \<le> w_port w \<and> w_port w \<le> ports \<and>
         (case w_kind w of
            ProcessUrbWork q \<Rightarrow> (\<exists>u. load_urb q s = Some u \<and> urb_mem s u)
          | _ \<Rightarrow> True)) \<and>
    pairwise (\<lambda>p q. disjnt (work_footprint s p) (work_footprint s q)) (set (h_inbox s @ h_processing s))"
proof -
  have inv: "sys_inv ports s" "ports \<noteq> 0" using runs_inv [OF assms] by simp_all
  then have h: "heap_ok s" "works_ok s (hcd_owned s)" "ports_ok s" "list_all adr_ok (l_port_info s)"
    "ranged s" "h_port_count s = ports" "table_ok s"
    by (simp_all add: sys_inv_def local_inv_def hcd_inv_def)
  have "\<exists>w. load_work p s = Some w \<and> 1 \<le> w_port w \<and> w_port w \<le> ports \<and>
      (case w_kind w of ProcessUrbWork q \<Rightarrow> (\<exists>u. load_urb q s = Some u \<and> urb_mem s u) | _ \<Rightarrow> True)"
    if p: "p \<in> set (hcd_owned s)" for p
  proof -
    obtain w where w: "load_work p s = Some w" "w_port w \<noteq> 0" "\<And>q. w_kind w = ProcessUrbWork q \<Longrightarrow> urb_object s q"
      using works_ok_object [OF h(2) p] by (rule work_objectE) blast
    have "\<exists>u. load_urb q s = Some u \<and> urb_mem s u" if "w_kind w = ProcessUrbWork q" for q
      using w(3) [OF that] urb_object_blocks(3) [of s q] by (auto simp: urb_object_def split: option.splits)
    moreover have "1 \<le> w_port w"
      using w(2) unat_pos [of "w_port w"] by (simp add: word_le_nat_alt)
    ultimately show ?thesis
      using w(1) bspec [OF h(5) [unfolded ranged_def] p] h(6) by (auto simp: port_upto_def split: work_kind.split)
  qed
  then show ?thesis
    using h inv(2) by (simp add: works_ok_def hcd_owned_def ports_ok_def list_all_iff adr_ok_def table_ok_def)
qed

text \<open>
  C1. No fault ever happens in such a program, with one exception. Wherever the program is, every call
  the user is permitted to make and every round of the background thread returns, except
  where a URB is given back that has packets nobody has set, or while there is no memory for their
  reports; the lookups in the table of ports return for every argument; and the
  controller can be destroyed, which frees exactly what the queues own and the array of ports.
\<close>

theorem program_never_faults:
  assumes "runs P ports s" and "kernel_ok P" and "files_ok P" and "permitted c s"
  shows "(perform P c s \<noteq> None \<or> may_fault P c s) \<and>
    get_port_stat i s \<noteq> None \<and> address_from_port i s \<noteq> None \<and> port_from_address i s \<noteq> None \<and>
    (\<exists>t. local_hcd_dtor P s = Some t \<and> heap t = heap s |` (- local_blocks s))"
proof -
  have inv: "sys_inv ports s" using runs_inv [OF assms(1-3)] by simp
  then have l: "local_inv s" "ports_ok s" by (simp_all add: sys_inv_def local_inv_def)
  obtain n where "close_outcome P (l_fd s) n (env s) \<noteq> Inl EINTR"
    using assms(3) unfolding files_ok_def by blast
  from local_hcd_dtor_run [OF l(1) this]
  have "\<exists>t. local_hcd_dtor P s = Some t \<and> heap t = heap s |` (- local_blocks s)" by blast
  moreover have "get_port_stat i s \<noteq> None"
    using get_port_stat_run [of i s, OF _ l(2)] l(2)
    by (cases "port_ok i s") (simp, simp add: get_port_stat_def check_port_def port_ok_def ports_ok_def
        word_less_nat_alt not_le, blast)
  moreover have "address_from_port i s \<noteq> None" using address_from_port_run [OF l(2)] by simp
  moreover have "port_from_address i s \<noteq> None" using port_from_address_run(1) [OF l(2)] by simp
  ultimately show ?thesis using perform_sys [OF inv assms(2,4)] by auto
qed

section \<open>Witnesses\<close>

lemma plain_kernel_ok: "kernel_ok plain_platform"
  using sample_abi_ok(2) plain_platform_ok by (simp add: kernel_ok_def) (simp add: sample_platform_simps)

text \<open>A controller with two ports is constructed, and time passes.\<close>

lemma sample_run: "\<exists>s :: log local_hcd. runs plain_platform 2 s \<and> env s = [FetchedWork, Registered 2, Opened]"
proof -
  obtain r t where rt: "local_hcd_ctor plain_platform 2 sample_raw = Some (r, t)"
    "r = Inr () \<and> env t = [Registered 2, Opened]"
    using local_hcd_ctor_run [OF sample_raw_ok(1) sample_files_ok(2), of 2]
    by (auto simp: sample_platform_simps) (simp_all add: sample_raw_def)
  then have r: "runs plain_platform 2 t" using runs.start [OF sample_raw_ok(1)] by simp
  have "sys_step plain_platform t (t\<lparr>env := FetchedWork # env t, errno := 0, oom := [], naps := []\<rparr>)"
    by (rule sys_step.world)
  from runs.step [OF r this] show ?thesis using rt(2)
    by (intro exI [of _ "t\<lparr>env := FetchedWork # env t, errno := 0, oom := [], naps := []\<rparr>"]) simp
qed

theorem program_well_typed_witness:
  "\<exists>s :: log local_hcd. runs plain_platform 2 s \<and> heap_ok s \<and> length (l_port_info s) = 2"
proof -
  obtain s :: "log local_hcd" where s: "runs plain_platform 2 s" using sample_run by blast
  from program_well_typed [OF s plain_kernel_ok sample_files_ok(2)] s show ?thesis by auto
qed

theorem program_never_faults_witness:
  "\<exists>s :: log local_hcd. runs plain_platform 2 s \<and> perform plain_platform NextWork s \<noteq> None \<and> get_port_stat 1 s \<noteq> None"
proof -
  obtain s :: "log local_hcd" where s: "runs plain_platform 2 s" using sample_run by blast
  from program_never_faults [OF s plain_kernel_ok sample_files_ok(2), of NextWork 1]
  have "perform plain_platform NextWork s \<noteq> None" "get_port_stat 1 s \<noteq> None" by simp_all
  with s show ?thesis by blast
qed

end
