(* ===== verification/Hcd_Spec.thy ===== *)
theory Hcd_Spec
  imports Hcd_Client
begin

text \<open>
  An abstract controller: a queue of works that wait and a list of works in progress, each a
  name with the handle of its URB, if it has one. Cancelled works do not exist in it. The class
  \<open>hcd\<close>, with its lazy deletion of cancelled works, refines it.
\<close>

section \<open>The abstract controller\<close>

record queues =
  waiting :: "(nat \<times> u64 option) list"
  active :: "(nat \<times> u64 option) list"

datatype queue_op = Next | Finish nat | Cancel u64

datatype queue_out = Got "nat option" | Finished | InProgress bool

text \<open>An operation that its client may not call now has no result.\<close>

fun spec_op :: "queue_op \<Rightarrow> queues \<Rightarrow> (queue_out \<times> queues) option" where
  "spec_op Next q =
     (case waiting q of
        [] \<Rightarrow> Some (Got None, q)
      | x # xs \<Rightarrow> Some (Got (Some (fst x)), \<lparr>waiting = xs, active = active q @ [x]\<rparr>))"
| "spec_op (Finish p) q =
     (if p \<in> fst ` set (active q)
      then Some (Finished, q\<lparr>active := filter (\<lambda>x. fst x \<noteq> p) (active q)\<rparr>) else None)"
| "spec_op (Cancel h) q =
     Some (InProgress (Some h \<in> snd ` set (active q)),
           q\<lparr>waiting := filter (\<lambda>x. snd x \<noteq> Some h) (waiting q)\<rparr>)"

fun spec_run :: "queue_op list \<Rightarrow> queues \<Rightarrow> (queue_out list \<times> queues) option" where
  "spec_run [] q = Some ([], q)"
| "spec_run (x # xs) q = do {
     (a, q) \<leftarrow> spec_op x q;
     (as, q) \<leftarrow> spec_run xs q;
     Some (a # as, q) }"

section \<open>The class\<close>

fun hcd_op :: "queue_op \<Rightarrow> ('e, 'z) hcd_scheme \<Rightarrow> (queue_out \<times> ('e, 'z) hcd_scheme) option" where
  "hcd_op Next s = do {
     (r, s) \<leftarrow> next_work s;
     (case r of
        Inl e \<Rightarrow> None
      | Inr (p, rest) \<Rightarrow> Some (Got (if p = 0 then None else Some p), s)) }"
| "hcd_op (Finish p) s = do {
     (r, s) \<leftarrow> finish_work hcd_finishing_work p s;
     (case r of Inl e \<Rightarrow> None | Inr _ \<Rightarrow> Some (Finished, s)) }"
| "hcd_op (Cancel h) s = do {
     (r, s) \<leftarrow> cancel_process_urb_work hcd_canceling_work hcd_finishing_work h s;
     (case r of Inl e \<Rightarrow> None | Inr b \<Rightarrow> Some (InProgress b, s)) }"

fun hcd_run ::
  "queue_op list \<Rightarrow> ('e, 'z) hcd_scheme \<Rightarrow> (queue_out list \<times> ('e, 'z) hcd_scheme) option" where
  "hcd_run [] s = Some ([], s)"
| "hcd_run (x # xs) s = do {
     (a, s) \<leftarrow> hcd_op x s;
     (as, s) \<leftarrow> hcd_run xs s;
     Some (a # as, s) }"

section \<open>The abstraction\<close>

definition handle_of :: "('e, 'z) machine_scheme \<Rightarrow> nat \<Rightarrow> u64 option" where
  "handle_of s p =
     (case load_work p s of
        None \<Rightarrow> None
      | Some w \<Rightarrow>
          (case w_kind w of ProcessUrbWork q \<Rightarrow> map_option u_handle (load_urb q s) | _ \<Rightarrow> None))"

definition named :: "('e, 'z) machine_scheme \<Rightarrow> nat list \<Rightarrow> (nat \<times> u64 option) list" where
  "named s = map (\<lambda>p. (p, handle_of s p))"

definition abs_queues :: "('e, 'z) hcd_scheme \<Rightarrow> queues" where
  "abs_queues s = \<lparr>waiting = named s (filter (\<lambda>p. \<not> is_canceled s p) (h_inbox s)),
                   active = named s (h_processing s)\<rparr>"

text \<open>No two works carry the same handle (the kernel hands out each once).\<close>

definition handles_unique :: "('e, 'z) hcd_scheme \<Rightarrow> bool" where
  "handles_unique s \<longleftrightarrow>
     (\<forall>p \<in> set (hcd_owned s). \<forall>q \<in> set (hcd_owned s).
        handle_of s p \<noteq> None \<and> handle_of s p = handle_of s q \<longrightarrow> p = q)"

lemma has_handle_of: "has_handle s h p \<longleftrightarrow> handle_of s p = Some h"
  by (auto simp: has_handle_def handle_of_def split: option.split work_kind.split)

lemma handle_of_frame:
  assumes "work_object s p" "\<And>x. x \<in> work_footprint s p \<Longrightarrow> heap t x = heap s x"
  shows "handle_of t p = handle_of s p" "is_canceled t p = is_canceled s p"
proof -
  obtain w where w: "load_work p s = Some w" using assms(1) by (rule work_objectE)
  then have l: "load_work p t = Some w"
    using assms(2) load_cong(2) [of t p s] by (simp add: work_footprint_def)
  then show "is_canceled t p = is_canceled s p" using w by (simp add: is_canceled_def)
  show "handle_of t p = handle_of s p"
  proof (cases "w_kind w")
    case (ProcessUrbWork q)
    then obtain u where u: "load_urb q s = Some u"
      using assms(1) w by (auto simp: work_object_def urb_object_def split: option.splits)
    then have "q \<in> work_footprint s p"
      using w ProcessUrbWork by (simp add: work_footprint_def urb_footprint_def)
    then have "load_urb q t = Some u" using assms(2) u load_cong(1) [of t q s] by simp
    then show ?thesis using w l u ProcessUrbWork by (simp add: handle_of_def)
  qed (use w l in \<open>simp_all add: handle_of_def\<close>)
qed

text \<open>Works whose blocks were left alone look as before.\<close>

definition kept :: "('e, 'z) hcd_scheme \<Rightarrow> nat list \<Rightarrow> ('e, 'z) hcd_scheme \<Rightarrow> bool" where
  "kept s ps t \<longleftrightarrow> set ps \<subseteq> set (hcd_owned s) \<and> (\<forall>x \<in> footprints s ps. heap t x = heap s x)"

lemma kept_works:
  assumes "hcd_inv s" "kept s ps t" "p \<in> set ps"
  shows "handle_of t p = handle_of s p" "is_canceled t p = is_canceled s p"
proof -
  have "work_object s p" using assms works_ok_object by (auto simp: kept_def hcd_inv_def)
  moreover have "heap t x = heap s x" if "x \<in> work_footprint s p" for x
    using assms(2,3) that work_footprint_subset [of p ps s] by (auto simp: kept_def)
  ultimately show "handle_of t p = handle_of s p" "is_canceled t p = is_canceled s p"
    using handle_of_frame by blast+
qed

text \<open>The queues of a state that kept all its works, read off in the earlier state.\<close>

lemma kept_queues:
  assumes "hcd_inv s" "kept s (hcd_owned t) t"
  shows "abs_queues t = \<lparr>waiting = named s (filter (\<lambda>p. \<not> is_canceled s p) (h_inbox t)),
    active = named s (h_processing t)\<rparr>"
proof -
  note k = kept_works [OF assms]
  have "filter (\<lambda>p. \<not> is_canceled t p) (h_inbox t) = filter (\<lambda>p. \<not> is_canceled s p) (h_inbox t)"
    using k(2) by (intro filter_cong) (simp_all add: hcd_owned_def)
  then show ?thesis using k(1) by (simp add: abs_queues_def named_def hcd_owned_def)
qed

lemma kept_unique:
  assumes "hcd_inv s" "handles_unique s" "kept s (hcd_owned t) t" shows "handles_unique t"
  using assms kept_works(1) [OF assms(1,3)] unfolding handles_unique_def kept_def by (metis subsetD)

text \<open>After footprints have been freed, the other works are kept.\<close>

lemma kept_restrict:
  assumes "hcd_inv s" "set (gone @ ps) \<subseteq> set (hcd_owned s)" "distinct (gone @ ps)"
    "heap t = heap s |` (- footprints s gone)"
  shows "kept s ps t"
proof -
  have "works_ok s (gone @ ps)"
    using assms(1-3) works_ok_perm [of "gone @ ps" "hcd_owned s" s] by (simp add: hcd_inv_def)
  then have "disjnt (footprints s gone) (footprints s ps)" by (rule works_ok_disjnt)
  then show ?thesis using assms(2,4) by (auto simp: kept_def disjnt_def restrict_map_def)
qed

section \<open>Each operation refines its abstract counterpart\<close>

text \<open>When no allocation fails, none will fail after an operation.\<close>

lemma hcd_ops_oom:
  assumes "hcd_inv s" "oom s = []"
  shows "next_work s = Some (r, t) \<Longrightarrow> oom t = []"
    "p \<in> set (h_processing s) \<Longrightarrow> finish_work hcd_finishing_work p s = Some (r', t) \<Longrightarrow> oom t = []"
    "cancel_process_urb_work hcd_canceling_work hcd_finishing_work h s = Some (r'', t) \<Longrightarrow> oom t = []"
proof -
  have ok: "heap_ok s" "works_ok s (h_inbox s @ h_processing s)"
    using assms(1) by (simp_all add: hcd_inv_def hcd_owned_def)
  show "oom t = []" if "next_work s = Some (r, t)"
    using that assms(2) next_work_loop_spec [OF ok refl]
    by (auto simp: next_work_def deliver_def alloc_fails_def split: list.splits)
  show "oom t = []"
    if p: "p \<in> set (h_processing s)" and f: "finish_work hcd_finishing_work p s = Some (r', t)"
  proof -
    let ?s = "s\<lparr>h_processing := removeAll p (h_processing s)\<rparr>"
    have "work_object s p" using ok(2) p works_ok_object by fastforce
    then have "heap_ok ?s" "work_object ?s p"
      using ok(1) heap_determines(5) [of ?s s p] by (simp_all add: heap_ok_def)
    then show ?thesis
      using f assms(2) delete_work_spec [of ?s p] by (auto simp: finish_work_def hcd_finishing_work_def)
  qed
  show "oom t = []"
    if "cancel_process_urb_work hcd_canceling_work hcd_finishing_work h s = Some (r'', t)"
    using that assms(2)
    by (auto simp: cancel_process_urb_work_def hcd_canceling_work_def hcd_finishing_work_def
        split: bind_splits if_splits dest: store_oom)
qed

definition refines ::
  "('e, 'z) hcd_scheme \<Rightarrow> (queue_out \<times> queues) \<Rightarrow> (queue_out \<times> ('e, 'z) hcd_scheme) option \<Rightarrow> bool" where
  "refines s out res \<longleftrightarrow>
     (\<exists>t. res = Some (fst out, t) \<and> hcd_inv t \<and> handles_unique t \<and> oom t = [] \<and> abs_queues t = snd out)"

lemma next_refines:
  assumes "hcd_inv s" "handles_unique s" "oom s = []" "spec_op Next (abs_queues s) = Some out"
  shows "refines s out (hcd_op Next s)"
proof -
  let ?gone = "takeWhile (is_canceled s) (h_inbox s)" and ?live = "dropWhile (is_canceled s) (h_inbox s)"
  have split: "h_inbox s = ?gone @ ?live" by simp
  have fails: "\<not> fst (alloc_fails s)" using assms(3) by (simp add: alloc_fails_def)
  obtain r t where t: "next_work s = Some (r, t)" "hcd_inv t"
    "heap t = heap s |` (- footprints s ?gone)"
    "case ?live of [] \<Rightarrow> r = Inr (0, False) \<and> h_inbox t = [] \<and> h_processing t = h_processing s
     | w # rest \<Rightarrow> h_inbox t = rest \<and>
         (if fst (alloc_fails s) then r = Inl BadAlloc \<and> h_processing t = h_processing s
          else r = Inr (w, rest \<noteq> []) \<and> h_processing t = h_processing s @ [w])"
    using next_work_spec [OF assms(1) refl refl] by blast
  have o: "oom t = []" by (rule hcd_ops_oom(1) [OF assms(1,3) t(1)])
  have waiting: "filter (\<lambda>p. \<not> is_canceled s p) (h_inbox s) = filter (\<lambda>p. \<not> is_canceled s p) ?live"
    by (subst split, subst filter_append) (auto simp: filter_empty_conv dest: set_takeWhileD)
  have "kept s (hcd_owned t) t"
    using next_work_owned [OF assms(1) t(1) refl] by (rule kept_restrict [OF assms(1)])
  note k = kept_unique [OF assms(1,2) this] kept_queues [OF assms(1) this]
  show ?thesis
  proof (cases ?live)
    case Nil
    have "r = Inr (0, False)" "h_inbox t = []" "h_processing t = h_processing s"
      "filter (\<lambda>p. \<not> is_canceled s p) (h_inbox s) = []"
      using t(4) waiting unfolding Nil by simp_all
    then show ?thesis
      using t(1,2) o k assms(4) by (auto simp: refines_def abs_queues_def named_def)
  next
    case (Cons w rest)
    then have "\<not> is_canceled s w" by (metis hd_dropWhile list.distinct(1) list.sel(1))
    moreover have "w \<noteq> 0"
      using Cons set_dropWhileD [of w "is_canceled s" "h_inbox s"] assms(1) works_ok_object
      by (fastforce simp: hcd_inv_def hcd_owned_def elim: work_objectE)
    moreover have "r = Inr (w, rest \<noteq> [])" "h_inbox t = rest" "h_processing t = h_processing s @ [w]"
      "filter (\<lambda>p. \<not> is_canceled s p) (h_inbox s) = filter (\<lambda>p. \<not> is_canceled s p) (w # rest)"
      using t(4) fails waiting unfolding Cons by simp_all
    ultimately show ?thesis
      using t(1,2) o k assms(4) by (auto simp: refines_def abs_queues_def named_def)
  qed
qed

lemma finish_refines:
  assumes "hcd_inv s" "handles_unique s" "oom s = []" "spec_op (Finish p) (abs_queues s) = Some out"
  shows "refines s out (hcd_op (Finish p) s)"
proof -
  have p: "p \<in> set (h_processing s)" and out: "out = (Finished, (abs_queues s)
      \<lparr>active := filter (\<lambda>x. fst x \<noteq> p) (active (abs_queues s))\<rparr>)"
    using assms(4) by (auto simp: abs_queues_def named_def split: if_splits)
  obtain t where t: "finish_work hcd_finishing_work p s = Some (Inr (), t)" "hcd_inv t"
    "heap t = heap s |` (- work_footprint s p)"
    "h_inbox t = h_inbox s" "h_processing t = removeAll p (h_processing s)"
    using base_hooks.finish_work_spec [OF assms(1) p] by blast
  have dist: "distinct (hcd_owned s)" using assms(1) by (simp add: hcd_inv_def works_ok_def)
  have "kept s (hcd_owned t) t"
    by (rule kept_restrict [OF assms(1), of "[p]"])
      (use t dist p in \<open>auto simp: hcd_owned_def distinct_removeAll\<close>)
  note k = kept_unique [OF assms(1,2) this] kept_queues [OF assms(1) this]
  have "named s (removeAll p ps) = filter (\<lambda>x. fst x \<noteq> p) (named s ps)" for ps
    by (induction ps) (auto simp: named_def)
  then show ?thesis
    using t k out hcd_ops_oom(2) [OF assms(1,3) p t(1)]
    by (simp add: refines_def) (simp add: abs_queues_def)
qed

text \<open>A work that is marked keeps its handle; it alone is cancelled now.\<close>

lemma mark_handle:
  assumes "hcd_inv s" "load_work p s = Some w" "heap t = heap (mark p s)" "q \<in> set (hcd_owned s)"
  shows "handle_of t q = handle_of s q" "is_canceled t q \<longleftrightarrow> q = p \<or> is_canceled s q"
proof -
  have lt: "load_work q t = (if q = p then Some (work_cancel w) else load_work q s)"
    using heap_determines(1) [OF assms(3)] load_work_mark [OF assms(2)] by simp
  then show "is_canceled t q \<longleftrightarrow> q = p \<or> is_canceled s q"
    by (simp add: is_canceled_def work_cancel_def)
  have p: "heap s p = Some (WorkObj w)" using assms(2) by (simp add: load_work_Some)
  have lu: "load_urb x t = load_urb x s" for x
    using assms(3) p by (simp add: load_urb_def load_def)
  show "handle_of t q = handle_of s q"
    using lt lu assms(2) by (simp add: handle_of_def work_cancel_def split: option.split work_kind.split)
qed

lemma cancel_refines:
  assumes "hcd_inv s" "handles_unique s" "oom s = []" "spec_op (Cancel h) (abs_queues s) = Some out"
  shows "refines s out (hcd_op (Cancel h) s)"
proof -
  let ?active = "Some h \<in> snd ` set (active (abs_queues s))"
  have out: "out = (InProgress ?active, (abs_queues s)
      \<lparr>waiting := filter (\<lambda>x. snd x \<noteq> Some h) (waiting (abs_queues s))\<rparr>)"
    using assms(4) by simp
  have act: "?active \<longleftrightarrow> (\<exists>p \<in> set (h_processing s). has_handle s h p)"
    by (simp add: abs_queues_def named_def has_handle_of image_iff eq_commute)
  have dist: "distinct (hcd_owned s)" using assms(1) by (simp add: hcd_inv_def works_ok_def)
  note spec = base_hooks.cancel_spec [OF assms(1), of h, simplified]
  show ?thesis
  proof (cases "List.find (has_handle s h) (h_inbox s)")
    case (Some p)
    then have p: "p \<in> set (h_inbox s)" "handle_of s p = Some h"
      using find_SomeD has_handle_of by fast+
    then obtain w where w: "load_work p s = Some w"
      by (auto simp: handle_of_def split: option.splits)
    obtain t where t: "cancel_process_urb_work hcd_canceling_work hcd_finishing_work h s = Some (Inr False, t)"
      "hcd_inv t" "heap t = heap (mark p s)" "h_inbox t = h_inbox s" "h_processing t = h_processing s"
      using spec Some by auto
    note m = mark_handle [OF assms(1) w t(3)]
    have o: "hcd_owned t = hcd_owned s" using t by (simp add: hcd_owned_def)
    have only: "handle_of s q = Some h \<longleftrightarrow> q = p" if "q \<in> set (hcd_owned s)" for q
      using that p assms(2) by (auto simp: handles_unique_def hcd_owned_def)
    have "\<not> ?active" using act only dist p(1) by (auto simp: has_handle_of hcd_owned_def)
    moreover have "handles_unique t" using assms(2) m(1) o by (simp add: handles_unique_def)
    moreover have "abs_queues t = snd out"
    proof -
      have "filter (\<lambda>q. \<not> is_canceled t q) (h_inbox s) =
          filter (\<lambda>q. handle_of s q \<noteq> Some h) (filter (\<lambda>q. \<not> is_canceled s q) (h_inbox s))"
        unfolding filter_filter using m(2) only by (intro filter_cong) (auto simp: hcd_owned_def)
      then have "named s (filter (\<lambda>q. \<not> is_canceled t q) (h_inbox s)) =
          filter (\<lambda>x. snd x \<noteq> Some h) (waiting (abs_queues s))"
        by (simp add: named_def abs_queues_def filter_map o_def)
      moreover have "named t qs = named s qs" if "set qs \<subseteq> set (hcd_owned s)" for qs
        using that m(1) by (auto simp: named_def)
      ultimately show ?thesis
        using t out by (simp add: abs_queues_def hcd_owned_def subset_iff)
    qed
    ultimately show ?thesis
      using t out hcd_ops_oom(3) [OF assms(1,3) t(1)] by (simp add: refines_def)
  next
    case None
    then have "handle_of s q \<noteq> Some h" if "q \<in> set (h_inbox s)" for q
      using that by (simp add: find_None_iff has_handle_of)
    then have "filter (\<lambda>x. snd x \<noteq> Some h) (waiting (abs_queues s)) = waiting (abs_queues s)"
      by (auto simp: abs_queues_def named_def filter_id_conv)
    then have q: "snd out = abs_queues s" using out by simp
    have run: "cancel_process_urb_work hcd_canceling_work hcd_finishing_work h s = Some (Inr ?active, s)"
    proof (cases "List.find (has_handle s h) (h_processing s)")
      case None2: None
      then have "\<not> ?active" unfolding act by (simp add: find_None_iff)
      then show ?thesis using spec None None2 by simp
    next
      case (Some p)
      then have ?active unfolding act using find_SomeD by fast
      moreover obtain r t where "cancel_process_urb_work hcd_canceling_work hcd_finishing_work h s = Some (r, t)"
        "Some (Inr (), s) = Some (case r of Inl e \<Rightarrow> Inl e | Inr _ \<Rightarrow> Inr (), t)" "r = Inr True \<or> isl r"
        using spec None Some by (auto simp: hcd_canceling_work_def)
      ultimately show ?thesis by (cases r) auto
    qed
    then show ?thesis using assms(1-3) q out by (simp add: refines_def)
  qed
qed

lemma run_refines:
  assumes "hcd_inv s" "handles_unique s" "oom s = []" "spec_run ops (abs_queues s) = Some (outs, q)"
  shows "\<exists>t. hcd_run ops s = Some (outs, t) \<and> hcd_inv t \<and> handles_unique t \<and> abs_queues t = q"
  using assms
proof (induction ops arbitrary: s outs)
  case (Cons x ops)
  from Cons.prems(4) obtain a q' as where spec: "spec_op x (abs_queues s) = Some (a, q')"
    "spec_run ops q' = Some (as, q)" "outs = a # as"
    by (auto split: bind_splits)
  have "refines s (a, q') (hcd_op x s)"
    using next_refines finish_refines cancel_refines Cons.prems(1-3) spec(1) by (cases x) blast+
  then obtain t where "hcd_op x s = Some (a, t)" "hcd_inv t" "handles_unique t" "oom t = []"
    "abs_queues t = q'"
    by (auto simp: refines_def)
  then show ?case using Cons.IH [of t as] spec by auto
qed simp

text \<open>
  C4. The class \<open>hcd\<close> refines the abstract controller: in a state that owns its works, where no
  two of them carry the same handle and memory does not run out, every sequence of \<open>next_work\<close>,
  \<open>finish_work\<close> and \<open>cancel_process_urb_work\<close> that the abstract controller allows runs without
  a fault, gives the same results, and ends in a state that shows the abstract queues: although
  cancelled works stay in the inbox until \<open>next_work\<close> meets them, a cancelled URB is never handed
  out again, a cancellation touches no other URB, and a finished work is gone.
\<close>

theorem hcd_refines_queues:
  assumes "hcd_inv s" "handles_unique s" "oom s = []" "spec_run ops (abs_queues s) = Some (outs, q)"
  shows "\<exists>t. hcd_run ops s = Some (outs, t) \<and> hcd_inv t \<and> handles_unique t \<and> abs_queues t = q"
  by (rule run_refines [OF assms])

text \<open>Cancel the URB of work 5, fetch what is left, finish it.\<close>

definition sample_queue :: "log hcd" where
  "sample_queue = sample_hcd\<lparr>heap := sample_heap False\<rparr>"

theorem hcd_refines_queues_witness:
  "\<exists>t. hcd_run [Cancel (u_handle sample_iso_urb), Next, Finish 6, Next] sample_queue =
     Some ([InProgress False, Got (Some 6), Finished, Got None], t) \<and>
     hcd_inv t \<and> h_processing t = []"
proof -
  let ?s = sample_queue
  note h = sample_heap_ok [of ?s False]
  have s: "heap ?s = sample_heap False" "brk ?s = 7" "oom ?s = []" "h_inbox ?s = [5, 6]"
    "h_processing ?s = []"
    by (simp_all add: sample_queue_def sample_hcd_def)
  have inv: "hcd_inv ?s" using h(6,7) s by (simp add: hcd_inv_def hcd_owned_def)
  have ho: "handle_of ?s 5 = Some (u_handle sample_iso_urb)" "handle_of ?s 6 = None"
    "\<not> is_canceled ?s 5" "\<not> is_canceled ?s 6"
    using h(3-5) s by (simp_all add: handle_of_def is_canceled_def)
  then have u: "handles_unique ?s" and a: "abs_queues ?s =
      \<lparr>waiting = [(5, Some (u_handle sample_iso_urb)), (6, None)], active = []\<rparr>"
    using s by (auto simp: handles_unique_def hcd_owned_def abs_queues_def named_def)
  have "spec_run [Cancel (u_handle sample_iso_urb), Next, Finish 6, Next] (abs_queues ?s) =
      Some ([InProgress False, Got (Some 6), Finished, Got None], \<lparr>waiting = [], active = []\<rparr>)"
    unfolding a by simp
  from hcd_refines_queues [OF inv u s(3) this] show ?thesis
    by (auto simp: abs_queues_def named_def)
qed

end
