(* ===== verification/Local_Ledger.thy ===== *)
theory Local_Ledger
  imports Local_Observed Local_System Hcd_Spec "HOL-Library.Multiset"
begin

text \<open>
  The account of the URBs: those the kernel has handed out, those that wait or are in progress, and
  those that have been given back. No URB is given back that was not handed out, and none twice.
\<close>

section \<open>The books\<close>

text \<open>
  \<open>taken\<close> reads off the environment which URBs the kernel has handed out and \<open>given\<close> which have been
  given back to it, each with its handle, as often as it happened.
\<close>

definition books :: "'e platform \<Rightarrow> ('e \<Rightarrow> u64 multiset) \<Rightarrow> ('e \<Rightarrow> u64 multiset) \<Rightarrow> bool" where
  "books P taken given \<longleftrightarrow> overlooks P taken \<and> overlooks P given \<and>
     (\<forall>fd m e. taken (fst (p_port_stat P fd m e)) = taken e \<and> given (fst (p_port_stat P fd m e)) = given e) \<and>
     (\<forall>fd q e. taken (fst (p_giveback P fd q e)) = taken e \<and>
        given (fst (p_giveback P fd q e)) = add_mset (ig_handle q) (given e)) \<and>
     (\<forall>fd n e. given (fst (p_fetch_work P fd n e)) = given e \<and>
        taken (fst (p_fetch_work P fd n e)) =
          (case snd (p_fetch_work P fd n e) of
             Inl _ \<Rightarrow> taken e
           | Inr w \<Rightarrow> if iw_type w = WORK_TYPE_PROCESS_URB P then add_mset (iw_handle w) (taken e) else taken e))"

lemma booksD:
  assumes "books P taken given"
  shows "overlooks P taken" "overlooks P given"
    "taken (fst (p_port_stat P fd m e)) = taken e" "given (fst (p_port_stat P fd m e)) = given e"
    "taken (fst (p_giveback P fd q e)) = taken e"
    "given (fst (p_giveback P fd q e)) = add_mset (ig_handle q) (given e)"
    "given (fst (p_fetch_work P fd n e)) = given e"
    "taken (fst (p_fetch_work P fd n e)) =
          (case snd (p_fetch_work P fd n e) of
             Inl _ \<Rightarrow> taken e
           | Inr w \<Rightarrow> if iw_type w = WORK_TYPE_PROCESS_URB P then add_mset (iw_handle w) (taken e) else taken e)"
  using assms by (simp_all add: books_def)

text \<open>The URBs that are still to be given back: the waiting ones that are not cancelled, and those in progress.\<close>

definition owed_of :: "('e, 'z) machine_scheme \<Rightarrow> nat list \<Rightarrow> u64 multiset" where
  "owed_of s ps = mset (List.map_filter (handle_of s) ps)"

definition live :: "('e, 'z) hcd_scheme \<Rightarrow> nat list \<Rightarrow> nat list" where
  "live s = filter (\<lambda>p. \<not> is_canceled s p)"

definition owed :: "('e, 'z) hcd_scheme \<Rightarrow> u64 multiset" where
  "owed s = owed_of s (live s (h_inbox s)) + owed_of s (h_processing s)"

lemma owed_of_simps [simp]:
  "owed_of s [] = {#}"
  "owed_of s (p # ps) = (case handle_of s p of None \<Rightarrow> {#} | Some h \<Rightarrow> {#h#}) + owed_of s ps"
  "owed_of s (ps @ qs) = owed_of s ps + owed_of s qs"
  by (simp_all add: owed_of_def map_filter_simps map_filter_def split: option.split)

lemma owed_of_cong: "(\<And>p. p \<in> set ps \<Longrightarrow> handle_of t p = handle_of s p) \<Longrightarrow> owed_of t ps = owed_of s ps"
  by (induction ps) simp_all

lemma live_simps [simp]:
  "live s [] = []" "live s (p # ps) = (if is_canceled s p then live s ps else p # live s ps)"
  "live s (ps @ qs) = live s ps @ live s qs" "set (live s ps) \<subseteq> set ps"
  by (auto simp: live_def)

lemma live_cong: "(\<And>p. p \<in> set ps \<Longrightarrow> is_canceled t p = is_canceled s p) \<Longrightarrow> live t ps = live s ps"
  unfolding live_def by (rule filter_cong) simp_all

lemma owed_cong:
  assumes "\<And>p. p \<in> set (hcd_owned s) \<Longrightarrow> handle_of t p = handle_of s p"
    "\<And>p. p \<in> set (hcd_owned s) \<Longrightarrow> is_canceled t p = is_canceled s p"
    "h_inbox t = h_inbox s" "h_processing t = h_processing s"
  shows "owed t = owed s"
proof -
  have "live t (h_inbox s) = live s (h_inbox s)" by (rule live_cong) (simp add: assms(2) hcd_owned_def)
  moreover have "owed_of t (live s (h_inbox s)) = owed_of s (live s (h_inbox s))"
    by (rule owed_of_cong, rule assms(1)) (simp add: hcd_owned_def live_def)
  moreover have "owed_of t (h_processing s) = owed_of s (h_processing s)"
    by (rule owed_of_cong) (simp add: assms(1) hcd_owned_def)
  ultimately show ?thesis using assms(3,4) by (simp add: owed_def)
qed

text \<open>Works that were kept count as before.\<close>

lemma owed_kept:
  assumes "hcd_inv s" "kept s (hcd_owned t) t"
  shows "owed t = owed_of s (live s (h_inbox t)) + owed_of s (h_processing t)"
proof -
  note k = kept_works [OF assms]
  have "live t (h_inbox t) = live s (h_inbox t)" by (rule live_cong) (simp add: k(2) hcd_owned_def)
  moreover have "owed_of t (live s (h_inbox t)) = owed_of s (live s (h_inbox t))"
    by (rule owed_of_cong, rule k(1)) (simp add: hcd_owned_def live_def)
  moreover have "owed_of t (h_processing t) = owed_of s (h_processing t)"
    by (rule owed_of_cong) (simp add: k(1) hcd_owned_def)
  ultimately show ?thesis by (simp add: owed_def)
qed

lemma kept_same_owned:
  "hcd_owned t = hcd_owned s \<Longrightarrow> keeps s t \<Longrightarrow> kept s (hcd_owned t) t"
  by (simp add: kept_def keeps_def)

lemma owed_frame:
  fixes s t :: "('e, 'z) hcd_scheme"
  assumes "hcd_inv s" "\<And>x. x \<in> footprints s (hcd_owned s) \<Longrightarrow> heap t x = heap s x"
    "h_inbox t = h_inbox s" "h_processing t = h_processing s"
  shows "owed t = owed s"
  using owed_kept [OF assms(1), of t] assms(2-4) by (simp add: kept_def hcd_owned_def owed_def [of s])

lemma owed_idle:
  fixes s t :: "('e, 'z) hcd_scheme"
  assumes "hcd_inv s" "keeps s t" "h_inbox t = h_inbox s" "h_processing t = h_processing s"
  shows "owed t = owed s"
  using assms keepsD(1) by (intro owed_frame) auto

text \<open>A new work at the end of the inbox.\<close>

lemma owed_enqueued:
  fixes s t :: "('e, 'z) hcd_scheme"
  assumes "hcd_inv s" "keeps s t" "h_inbox t = h_inbox s @ [q]" "h_processing t = h_processing s"
    "\<not> is_canceled t q"
  shows "owed t = owed s + (case handle_of t q of None \<Rightarrow> {#} | Some h \<Rightarrow> {#h#})"
proof -
  let ?t = "t\<lparr>h_inbox := h_inbox s\<rparr>"
  have e: "handle_of ?t p = handle_of t p" "is_canceled ?t p = is_canceled t p" for p
    using load_cong [of ?t _ t] by (simp_all add: handle_of_def is_canceled_def split: option.split work_kind.split)
  have "owed ?t = owed s" by (rule owed_idle [OF assms(1)]) (use assms(2,4) in \<open>simp_all add: keeps_def\<close>)
  then have "owed_of t (live t (h_inbox s)) + owed_of t (h_processing t) = owed s"
    using owed_of_cong [of _ ?t t, OF e(1)] live_cong [of _ ?t t, OF e(2)] by (simp add: owed_def)
  then show ?thesis using assms(3,5) by (simp add: owed_def ac_simps)
qed

section \<open>Every call keeps the account\<close>

lemma owed_next:
  assumes "hcd_inv s" "next_work s = Some (r, t)"
  shows "\<exists>lost. owed t + lost = owed s \<and>
      ((fst (alloc_fails s) \<longrightarrow> list_all (is_canceled s) (h_inbox s)) \<longrightarrow> lost = {#})" "env t = env s"
proof -
  let ?gone = "takeWhile (is_canceled s) (h_inbox s)" and ?live = "dropWhile (is_canceled s) (h_inbox s)"
  note own = next_work_owned [OF assms refl]
  note o = owed_kept [OF assms(1) kept_restrict [OF assms(1) own]]
  have "live s ?gone = []" by (auto simp: live_def filter_empty_conv dest: set_takeWhileD)
  then have i: "live s (h_inbox s) = live s ?live"
    using live_simps(3) [of s ?gone ?live] by simp
  show "\<exists>lost. owed t + lost = owed s \<and>
      ((fst (alloc_fails s) \<longrightarrow> list_all (is_canceled s) (h_inbox s)) \<longrightarrow> lost = {#})"
  proof (cases ?live)
    case Nil
    then show ?thesis using next_work_spec [OF assms(1) refl refl] assms(2) o i unfolding Nil by (auto simp: owed_def)
  next
    case (Cons w rest)
    then have w: "\<not> is_canceled s w" by (metis hd_dropWhile list.distinct(1) list.sel(1))
    have "w \<in> set (h_inbox s)" using Cons by (metis list.set_intros(1) set_dropWhileD)
    with w have "\<not> list_all (is_canceled s) (h_inbox s)" by (auto simp: list_all_iff)
    then show ?thesis
      using next_work_spec [OF assms(1) refl refl] assms(2) o i w unfolding Cons
      by (intro exI [of _ "owed s - owed t"]) (auto simp: owed_def split: if_splits)
  qed
  show "env t = env s" by (rule next_work_frame(2) [OF assms])
qed

lemma given_books:
  assumes "books P taken given"
  shows "given (local_given P p s) = (case handle_of s p of None \<Rightarrow> {#} | Some h \<Rightarrow> {#h#}) + given (env s)"
    "taken (local_given P p s) = taken (env s)"
  using booksD(5,6) [OF assms]
  by (simp_all add: local_given_def handle_of_def giveback_request_def Let_def split: option.split work_kind.split)

lemma owed_finish:
  assumes "books P taken given" "hcd_inv s" "p \<in> set (h_processing s)"
    "finish_work (local_finishing_work P) p s = Some (r, t)"
  shows "given (env t) + owed t = given (env s) + owed s" "taken (env t) = taken (env s)"
proof -
  have "local_ready P p s" using local_hooks.finish_work_fault [OF assms(2,3)] assms(4) by fastforce
  from local_hooks.finish_work_spec [OF assms(2,3) this] assms(4) have
    t: "heap t = heap s |` (- footprints s [p])" "env t = local_given P p s"
      "h_inbox t = h_inbox s" "h_processing t = removeAll p (h_processing s)" by auto
  have dist: "distinct (hcd_owned s)" using assms(2) by (simp add: hcd_inv_def works_ok_def)
  have "kept s (hcd_owned t) t"
    by (rule kept_restrict [OF assms(2) _ _ t(1)])
      (use t dist assms(3) in \<open>auto simp: hcd_owned_def distinct_removeAll\<close>)
  from owed_kept [OF assms(2) this] have
    o: "owed t = owed_of s (live s (h_inbox s)) + owed_of s (removeAll p (h_processing s))"
    using t(3,4) by simp
  have "owed_of s ps = (case handle_of s p of None \<Rightarrow> {#} | Some h \<Rightarrow> {#h#}) + owed_of s (removeAll p ps)"
    if "p \<in> set ps" "distinct ps" for ps
    using that by (induction ps) (auto simp: ac_simps)
  then show "given (env t) + owed t = given (env s) + owed s"
    using assms(3) dist o t(2) given_books(1) [OF assms(1)] by (simp add: owed_def hcd_owned_def ac_simps)
  show "taken (env t) = taken (env s)" using t(2) given_books(2) [OF assms(1)] by simp
qed

text \<open>
  Cancelling gives a waiting URB back. When it had been cancelled before, it is given back once more.
\<close>

definition fresh_cancel :: "u64 \<Rightarrow> ('e, 'z) hcd_scheme \<Rightarrow> bool" where
  "fresh_cancel h s \<longleftrightarrow>
     (case List.find (has_handle s h) (h_inbox s) of None \<Rightarrow> True | Some p \<Rightarrow> \<not> is_canceled s p)"

lemma owed_of_mark:
  assumes "p \<in> set ps" "distinct ps" "handle_of s p = Some h" "\<not> is_canceled s p"
    "\<And>q. q \<in> set ps \<Longrightarrow> handle_of t q = handle_of s q \<and> (is_canceled t q \<longleftrightarrow> q = p \<or> is_canceled s q)"
  shows "add_mset h (owed_of t (live t ps)) = owed_of s (live s ps)"
  using assms
proof (induction ps)
  case (Cons q ps)
  have *: "owed_of t (live t ps) = owed_of s (live s ps)" if "p \<notin> set ps"
  proof -
    have "live t ps = live s ps" using Cons.prems(5) that by (intro live_cong) auto
    moreover have "owed_of t (live s ps) = owed_of s (live s ps)"
      using Cons.prems(5) by (intro owed_of_cong) (auto simp: live_def)
    ultimately show ?thesis by simp
  qed
  show ?case using Cons * by (cases "q = p") auto
qed simp

lemma owed_of_marked:
  assumes "is_canceled s p"
    "\<And>q. q \<in> set ps \<Longrightarrow> handle_of t q = handle_of s q \<and> (is_canceled t q \<longleftrightarrow> q = p \<or> is_canceled s q)"
  shows "owed_of t (live t ps) = owed_of s (live s ps)"
proof -
  have "live t ps = live s ps" using assms by (intro live_cong) auto
  moreover have "owed_of t (live s ps) = owed_of s (live s ps)" using assms by (intro owed_of_cong) (auto simp: live_def)
  ultimately show ?thesis by simp
qed

lemma cancel_waiting_books:
  fixes s t :: "('e, 'z) local_hcd_scheme"
  assumes b: "books P taken given" and inv: "hcd_inv s" and p: "List.find (has_handle s h) (h_inbox s) = Some p"
    and run: "cancel_process_urb_work (local_canceling_work P) (local_finishing_work P) h s = Some (r, t)"
  shows "r = Inr False" "given (env t) = add_mset h (given (env s))" "taken (env t) = taken (env s)"
    "is_canceled s p \<Longrightarrow> owed t = owed s" "\<not> is_canceled s p \<Longrightarrow> add_mset h (owed t) = owed s"
proof -
  have own: "p \<in> set (h_inbox s)" "handle_of s p = Some h" using p find_SomeD has_handle_of by fast+
  then obtain w where w: "load_work p s = Some w" by (auto simp: handle_of_def split: option.splits)
  have t: "r = Inr False" "heap t = heap (mark p s)" "env t = local_given P p (mark p s)"
    "h_inbox t = h_inbox s" "h_processing t = h_processing s"
    using local_hooks.cancel_spec [OF inv, of P h] p run by (auto split: if_splits)
  note m = mark_handle [OF inv w t(2)]
  have dist: "distinct (hcd_owned s)" using inv by (simp add: hcd_inv_def works_ok_def)
  have o: "owed_of t (h_processing s) = owed_of s (h_processing s)"
    by (rule owed_of_cong) (simp add: m(1) hcd_owned_def)
  show "r = Inr False" by (rule t(1))
  show "given (env t) = add_mset h (given (env s))" "taken (env t) = taken (env s)"
    using t(3) local_given_mark [OF inv, of p P] given_books [OF b, of p s] own by (simp_all add: hcd_owned_def)
  show "owed t = owed s" if "is_canceled s p"
  proof -
    have "owed_of t (live t (h_inbox s)) = owed_of s (live s (h_inbox s))"
      by (rule owed_of_marked [OF that]) (simp add: m hcd_owned_def)
    then show ?thesis using o t(4,5) by (simp add: owed_def)
  qed
  show "add_mset h (owed t) = owed s" if "\<not> is_canceled s p"
  proof -
    have "add_mset h (owed_of t (live t (h_inbox s))) = owed_of s (live s (h_inbox s))"
      by (rule owed_of_mark [OF own(1) _ own(2) that]) (use m dist in \<open>auto simp: hcd_owned_def\<close>)
    then show ?thesis using o t(4,5) by (auto simp: owed_def)
  qed
qed

lemma owed_cancel:
  fixes s t :: "('e, 'z) local_hcd_scheme"
  assumes b: "books P taken given" and inv: "hcd_inv s"
    and run: "cancel_process_urb_work (local_canceling_work P) (local_finishing_work P) h s = Some (r, t)"
  shows "given (env t) + owed t = given (env s) + owed s + (if fresh_cancel h s then {#} else {#h#})"
    "taken (env t) = taken (env s)"
proof -
  note spec = local_hooks.cancel_spec [OF inv, of P h]
  have "given (env t) + owed t = given (env s) + owed s + (if fresh_cancel h s then {#} else {#h#}) \<and>
    taken (env t) = taken (env s)"
  proof (cases "List.find (has_handle s h) (h_inbox s)")
    case (Some p)
    note c = cancel_waiting_books [OF b inv Some run]
    have "fresh_cancel h s \<longleftrightarrow> \<not> is_canceled s p" using Some by (simp add: fresh_cancel_def)
    then show ?thesis
      using c(2-4) c(5) [symmetric] by (cases "is_canceled s p") simp_all
  next
    case None
    show ?thesis
    proof (cases "List.find (has_handle s h) (h_processing s)")
      case None2: None
      then show ?thesis using spec None run by (simp add: fresh_cancel_def)
    next
      case (Some p)
      then have p: "p \<in> set (h_processing s)" "has_handle s h p" using find_SomeD by fast+
      then obtain w q u where w: "load_work p s = Some w" "w_kind w = ProcessUrbWork q"
          "load_urb q s = Some u" by (auto elim: has_handle_owned)
      obtain new where rt: "heap s \<subseteq>\<^sub>m heap t" "h_processing t = h_processing s"
          "local_canceling_work P p True s = Some (case r of Inl e \<Rightarrow> Inl e | Inr _ \<Rightarrow> Inr (), t)"
        using spec None Some run by auto
      have k: "keeps s t" by (rule keeps_extend [OF _ rt(1)]) (use inv in \<open>simp add: hcd_inv_def\<close>)
      from local_canceling_run [OF inv p(1) w, of P] rt(3)
      have c: "case (case r of Inl e \<Rightarrow> Inl e | Inr _ \<Rightarrow> Inr ()) of
          Inl e \<Rightarrow> h_inbox t = h_inbox s \<and> env t = env s
        | Inr _ \<Rightarrow> \<exists>cw. h_inbox t = h_inbox s @ [cw] \<and> load_work cw t = Some (cancel_work_of w u) \<and>
            env t = fold (p_callback P) (h_callbacks s) (env s)"
        by (auto split: sum.splits)
      show ?thesis
      proof (cases r)
        case (Inl e)
        then show ?thesis using c owed_idle [OF inv k _ rt(2)] None by (simp add: fresh_cancel_def)
      next
        case (Inr x)
        then obtain cw where cw: "h_inbox t = h_inbox s @ [cw]" "load_work cw t = Some (cancel_work_of w u)"
          "env t = fold (p_callback P) (h_callbacks s) (env s)" using c by auto
        then have "\<not> is_canceled t cw" "handle_of t cw = None"
          by (simp_all add: is_canceled_def handle_of_def cancel_work_of_def)
        then show ?thesis
          using owed_enqueued [OF inv k cw(1) rt(2)] cw(3) None
            overlooks_callbacks [OF booksD(1) [OF b]] overlooks_callbacks [OF booksD(2) [OF b]]
          by (simp add: fresh_cancel_def)
      qed
    qed
  qed
  then show "given (env t) + owed t = given (env s) + owed s + (if fresh_cancel h s then {#} else {#h#})"
    "taken (env t) = taken (env s)" by simp_all
qed

text \<open>A message of the kernel.\<close>

lemma fetch_work_books:
  assumes "books P taken given" "usb_vhci_fetch_work P fd work s = (r, w, t)"
  shows "given (env t) = given (env s)"
    "\<exists>new. taken (env t) = taken (env s) + new \<and> (work_types_ok P \<and> (\<forall>u. wk_work w \<noteq> WorkUrb u) \<longrightarrow> new = {#})"
    "\<lbrakk>r \<noteq> - 1; wk_type w = WORK_TYPE_PROCESS_URB P; work_types_ok P; wk_work w = WorkUrb u\<rbrakk> \<Longrightarrow>
      taken (env t) = add_mset (u_handle u) (taken (env s))"
    "\<lbrakk>r \<noteq> - 1; wk_type w = WORK_TYPE_CANCEL_URB P; work_types_ok P; wk_work w = WorkHandle h\<rbrakk> \<Longrightarrow>
      \<exists>kw. snd (p_fetch_work P fd 100 (env s)) = Inr kw \<and> iw_type kw = WORK_TYPE_CANCEL_URB P \<and> iw_handle kw = h"
proof -
  obtain e a where k: "p_fetch_work P fd 100 (env s) = (e, a)" by fastforce
  then have e: "env t = e"
    using assms(2)
    by (auto simp: usb_vhci_fetch_work_def usb_vhci_fetch_work_timeout_def syscall_def Let_def
        split: sum.splits option.splits if_splits)
  show "given (env t) = given (env s)"
    using booksD(7) [OF assms(1), of fd 100 "env s"] k e by simp
  have "taken e = taken (env s)" if "work_types_ok P" "\<forall>u. wk_work w \<noteq> WorkUrb u"
    using that assms(2) booksD(8) [OF assms(1), of fd 100 "env s"] k
    by (auto simp: usb_vhci_fetch_work_def usb_vhci_fetch_work_timeout_def syscall_def Let_def work_types_ok_def
        split: sum.splits option.splits if_splits)
  moreover have "\<exists>new. taken e = taken (env s) + new"
    using booksD(8) [OF assms(1), of fd 100 "env s"] k by (auto split: sum.splits if_splits)
  ultimately show "\<exists>new. taken (env t) = taken (env s) + new \<and> (work_types_ok P \<and> (\<forall>u. wk_work w \<noteq> WorkUrb u) \<longrightarrow> new = {#})"
    using e by fastforce
  show "taken (env t) = add_mset (u_handle u) (taken (env s))"
    if "r \<noteq> - 1" "wk_type w = WORK_TYPE_PROCESS_URB P" "work_types_ok P" "wk_work w = WorkUrb u"
    using that assms(2) booksD(8) [OF assms(1), of fd 100 "env s"] k e
    by (auto simp: usb_vhci_fetch_work_def usb_vhci_fetch_work_timeout_def syscall_def Let_def work_types_ok_def
        split: sum.splits option.splits if_splits)
  show "\<exists>kw. snd (p_fetch_work P fd 100 (env s)) = Inr kw \<and> iw_type kw = WORK_TYPE_CANCEL_URB P \<and> iw_handle kw = h"
    if "r \<noteq> - 1" "wk_type w = WORK_TYPE_CANCEL_URB P" "work_types_ok P" "wk_work w = WorkHandle h"
    using that assms(2) k
    by (auto simp: usb_vhci_fetch_work_def usb_vhci_fetch_work_timeout_def syscall_def Let_def work_types_ok_def
        split: sum.splits option.splits if_splits)
qed

lemma owed_port_stat:
  fixes s t :: "('e, 'z) local_hcd_scheme"
  assumes b: "books P taken given" and inv: "local_inv s" "port_ok index s"
    and run: "bg_port_stat P index nps 0 False s = Some (r, t)"
  shows "owed t = owed s" "given (env t) = given (env s)" "taken (env t) = taken (env s)"
proof -
  have hi: "hcd_inv s" using inv(1) by (simp add: local_inv_def)
  then have "spare s 0" by (simp add: spare_def hcd_inv_def)
  from bg_port_stat_run [OF this inv(2), of P nps False] run consider
    (stopped) "paused s t" | (queued) s' where "paused s s'" "port_stat_done P index nps s' t"
    by auto
  then have "owed t = owed s \<and> given (env t) = given (env s) \<and> taken (env t) = taken (env s)"
  proof cases
    case stopped
    then show ?thesis using owed_idle [OF hi, of t] by (simp add: paused_def)
  next
    case d: queued
    from d(2) obtain q where q: "h_inbox t = h_inbox s' @ [q]" "h_processing t = h_processing s'"
      "load_work q t = Some (port_stat_work_of P index nps (pi_stat (port_at index s')))" "keeps s' t"
      "env t = fold (p_callback P) (h_callbacks s') (env s')"
      by (rule port_stat_done_effect)
    have "keeps s t"
      using keeps_trans [OF _ _ paused_owned [OF d(1)] q(4)] d(1) hi by (simp add: paused_def hcd_inv_def)
    moreover have "\<not> is_canceled t q" "handle_of t q = None"
      using q(3) by (simp_all add: is_canceled_def handle_of_def port_stat_work_of_def)
    ultimately show ?thesis
      using owed_enqueued [OF hi, of t q] q d(1)
        overlooks_callbacks [OF booksD(1) [OF b]] overlooks_callbacks [OF booksD(2) [OF b]]
      by (simp add: paused_def)
  qed
  then show "owed t = owed s" "given (env t) = given (env s)" "taken (env t) = taken (env s)" by simp_all
qed

text \<open>
  The URBs that \<open>bg_work\<close> drops: it throws an exception, the kernel keeps the data back, no port has the address,
  or the thread is asked to stop.
\<close>

definition mislaid :: "'e platform \<Rightarrow> i32 \<Rightarrow> usb_vhci_urb \<Rightarrow> ('e, 'z) local_hcd_scheme \<Rightarrow> bool" where
  "mislaid P res w s \<longleftrightarrow> bad_urb P w \<or> u_devadr w > 0x7f \<or> port_of (u_devadr w) (l_port_info s) = 0 \<or>
     (res \<noteq> 0 \<and> fetch_refused P s w) \<or> h_thread_shutdown s \<or> True \<in> set (naps s)"

lemma owed_process_urb:
  fixes s t :: "('e, 'z) local_hcd_scheme"
  assumes b: "books P taken given" and inv: "local_inv s" and k: "message_ok w" "fetch_data_ok P"
    and run: "bg_process_urb P res w 0 False s = Some (r, t)"
  shows "owed t = add_mset (u_handle w) (owed s) \<or> (owed t = owed s \<and> mislaid P res w s)"
    "given (env t) = given (env s)" "taken (env t) = taken (env s)"
proof -
  show "given (env t) = given (env s)" "taken (env t) = taken (env s)"
    using bg_process_urb_observed [OF _ run] booksD(1,2) [OF b] by simp_all
  have held: "held s 0" "ports_ok s" and hi: "hcd_inv s" using inv by (simp_all add: local_inv_def held_inv)
  from bg_process_urb_run [OF held(1) k(1) held(2) k(2), of res False] run consider
    (idle) "idle s t" "mislaid P res w s" | (queued) u v s' where "idle s s'" "urb_queued P u v s' t" "same_message w v"
    by (cases r) (auto simp: mislaid_def escapes_def idle_def)
  then show "owed t = add_mset (u_handle w) (owed s) \<or> (owed t = owed s \<and> mislaid P res w s)"
  proof cases
    case idle
    then show ?thesis using owed_idle [OF hi, of t] by (simp add: idle_def)
  next
    case queued
    then obtain index q where q: "h_inbox t = h_inbox s @ [q]" "h_processing t = h_processing s" "keeps s' t"
      "load_work q t = Some (urb_work index u)" "load_urb u t = Some (answered P v)"
      by (auto simp: urb_queued_def idle_def)
    have "keeps s t"
      using keeps_trans [OF _ _ idle_owned [OF queued(1)] q(3)] queued(1) hi by (simp add: idle_def hcd_inv_def)
    moreover have "\<not> is_canceled t q" using q(4) by (simp add: is_canceled_def urb_work_def)
    moreover have "u_handle (answered P v) = u_handle w"
      using same_message_fields(5) [OF queued(3)]
      by (simp add: answered_def stall_def ack_def set_status_def)
    then have "handle_of t q = Some (u_handle w)"
      using q(4,5) by (simp add: handle_of_def urb_work_def)
    ultimately show ?thesis using owed_enqueued [OF hi _ q(1,2)] by simp
  qed
qed

text \<open>A cancellation that \<open>bg_work\<close> receives concerns no URB that has been cancelled before.\<close>

definition fresh_message :: "'e platform \<Rightarrow> ('e, 'z) local_hcd_scheme \<Rightarrow> bool" where
  "fresh_message P s \<longleftrightarrow>
     (case snd (p_fetch_work P (l_fd s) 100 (env s)) of
        Inl _ \<Rightarrow> True
      | Inr w \<Rightarrow> iw_type w = WORK_TYPE_CANCEL_URB P \<longrightarrow> fresh_cancel (iw_handle w) s)"

text \<open>Nothing goes wrong with the message that \<open>bg_work\<close> is about to receive.\<close>

definition orderly_message :: "'e platform \<Rightarrow> ('e, 'z) local_hcd_scheme \<Rightarrow> bool" where
  "orderly_message P s \<longleftrightarrow>
     (case usb_vhci_fetch_work P (l_fd s) uninit_work s of
        (res, w, t) \<Rightarrow> (case wk_work w of WorkUrb u \<Rightarrow> res \<noteq> - 1 \<and> \<not> mislaid P res u t | _ \<Rightarrow> True))"

text \<open>
  What a call may do to the account. \<open>new\<close> are the URBs it takes from the kernel; each URB that was owed or
  is new has been given back or is owed afterwards, those in \<open>lost\<close> apart.
\<close>

definition account_step ::
  "('e \<Rightarrow> u64 multiset) \<Rightarrow> ('e \<Rightarrow> u64 multiset) \<Rightarrow> bool \<Rightarrow> ('e, 'z) hcd_scheme \<Rightarrow> ('e, 'z) hcd_scheme \<Rightarrow> bool" where
  "account_step taken given orderly s t \<longleftrightarrow>
     (\<exists>new lost. taken (env t) = taken (env s) + new \<and>
        given (env t) + owed t + lost = given (env s) + owed s + new \<and> (orderly \<longrightarrow> lost = {#}))"

lemma account_stepI:
  assumes "taken (env t) = taken (env s) + new" "given (env t) + owed t + lost = given (env s) + owed s + new"
    "orderly \<Longrightarrow> lost = {#}"
  shows "account_step taken given orderly s t"
  using assms unfolding account_step_def by blast

lemma account_heap:
  fixes s t :: "('e, 'z) hcd_scheme"
  assumes "heap t = heap s" "h_inbox t = h_inbox s" "h_processing t = h_processing s"
  shows "owed t = owed s" "fresh_cancel h t = fresh_cancel h s"
proof -
  have h: "handle_of t = handle_of s"
    using load_cong [of t _ s] assms(1) by (intro ext) (simp add: handle_of_def split: option.split work_kind.split)
  have c: "is_canceled t = is_canceled s"
    using load_cong(2) [of t _ s] assms(1) by (intro ext) (simp add: is_canceled_def)
  have "has_handle t h = has_handle s h" using h by (intro ext) (simp add: has_handle_of)
  then show "owed t = owed s" "fresh_cancel h t = fresh_cancel h s"
    using h c assms(2,3) by (simp_all add: owed_def owed_of_def live_def fresh_cancel_def split: option.split)
qed

lemma account_quiet:
  fixes s t :: "('e, 'z) hcd_scheme"
  assumes "heap t = heap s" "h_inbox t = h_inbox s" "h_processing t = h_processing s"
    "taken (env t) = taken (env s)" "given (env t) = given (env s)"
  shows "account_step taken given orderly s t"
  by (rule account_stepI [where new = "{#}" and lost = "{#}"]) (use assms(4,5) account_heap(1) [OF assms(1-3)] in simp_all)

lemma account_bg_work:
  fixes s t :: "('e, 'z) local_hcd_scheme"
  assumes b: "books P taken given" and kernel: "kernel_ok P" and inv: "local_inv s"
    and fresh: "fresh_message P s" and run: "bg_work P s = Some (r, t)"
  shows "account_step taken given (orderly_message P s) s t"
proof -
  have k: "work_types_ok P" "fetch_data_ok P"
    "\<And>fd n e kw. snd (p_fetch_work P fd n e) = Inr kw \<Longrightarrow>
        0 \<le>s iu_buffer_length (iw_urb kw) \<and> 0 \<le>s iu_packet_count (iw_urb kw)"
    using kernel abi_ok_parts(1) [of P] by (auto simp: kernel_ok_def)
  have d: "distinct [WORK_TYPE_PORT_STAT P, WORK_TYPE_PROCESS_URB P, WORK_TYPE_CANCEL_URB P]"
    using k(1) by (simp add: work_types_ok_def)
  from k(1) show ?thesis
  proof (cases rule: fetch_work_cases [where work = uninit_work and fd = "l_fd s" and s = s])
    case (none w e err)
    note f = fetch_work_books [OF b none]
    have t: "t = s\<lparr>env := e, errno := err\<rparr>" using none run by (simp add: bg_work_def)
    obtain new where new: "taken (env t) = taken (env s) + new" "(\<forall>u. wk_work w \<noteq> WorkUrb u) \<longrightarrow> new = {#}"
      using f(2) k(1) t by auto
    have "new = {#}" if "orderly_message P s"
      using that none new(2) by (auto simp: orderly_message_def split: work_union.splits)
    with new(1) show ?thesis
      using f(1) t account_heap(1) [of t s] by (intro account_stepI [of _ _ _ new _ new]) simp_all
  next
    case (port ps e)
    note f = fetch_work_books [OF b port]
    let ?s = "s\<lparr>env := e\<rparr>"
    have inv': "local_inv ?s" using inv by (simp add: local_inv_env)
    have "owed t = owed ?s \<and> given (env t) = given e \<and> taken (env t) = taken e"
    proof (cases "ps_index ps = 0 \<or> ps_index ps > h_port_count s")
      case True
      then have "t = ?s" using run port by (auto simp: bg_work_def Let_def)
      then show ?thesis by simp
    next
      case False
      then have "port_ok (ps_index ps) ?s"
        using inv by (simp add: port_ok_def local_inv_def ports_ok_def word_le_nat_alt not_less)
      from owed_port_stat [OF b inv' this] show ?thesis
        using False run port by (auto simp: bg_work_def Let_def)
    qed
    moreover have "taken e = taken (env s)" "given e = given (env s)" using f(1,2) k(1) by auto
    ultimately show ?thesis
      using account_heap(1) [of ?s s] by (intro account_stepI [of _ _ _ "{#}" _ "{#}"]) simp_all
  next
    case (urb kw u res e)
    let ?s = "s\<lparr>env := e\<rparr>"
    note f = fetch_work_books [OF b urb(1)]
    have "message_ok u" using fetched_message_ok [OF urb(4,5) _ _ urb(6)] k(3) [OF urb(3)] by blast
    moreover have "local_inv ?s" using inv by (simp add: local_inv_env)
    moreover have "bg_process_urb P res u 0 False ?s = Some (r, t)" using urb(1,2) d run by (auto simp: bg_work_def)
    ultimately have o: "owed t = add_mset (u_handle u) (owed s) \<or> (owed t = owed s \<and> mislaid P res u ?s)"
      "given (env t) = given (env s)" "taken (env t) = add_mset (u_handle u) (taken (env s))"
      using owed_process_urb [OF b, of ?s] f(1) f(3) [OF urb(2) _ k(1)] account_heap(1) [of ?s s] k(2) by auto
    have "\<not> mislaid P res u ?s" if "orderly_message P s" using that urb(1) by (simp add: orderly_message_def)
    with o show ?thesis
      by (intro account_stepI [of _ _ _ "{#u_handle u#}" _ "if owed t = owed s then {#u_handle u#} else {#}"]) auto
  next
    case (cancel h e)
    let ?s = "s\<lparr>env := e\<rparr>"
    note f = fetch_work_books [OF b cancel]
    have "\<exists>kw. snd (p_fetch_work P (l_fd s) 100 (env s)) = Inr kw \<and> iw_type kw = WORK_TYPE_CANCEL_URB P \<and> iw_handle kw = h"
      by (rule f(4) [OF _ _ k(1)]) simp_all
    then have "fresh_cancel h s" using fresh by (auto simp: fresh_message_def)
    then have "fresh_cancel h ?s" using account_heap(2) [of ?s s h] by simp
    moreover have "local_inv ?s" using inv by (simp add: local_inv_env)
    then have "hcd_inv ?s" by (simp add: local_inv_def)
    moreover obtain r' where "cancel_process_urb_work (local_canceling_work P) (local_finishing_work P) h ?s = Some (r', t)"
      using run cancel d by (auto simp: bg_work_def split: bind_splits)
    ultimately show ?thesis
      using owed_cancel [OF b, of ?s h r' t] f(1,2) k(1) account_heap(1) [of ?s s]
      by (intro account_stepI [of _ _ _ "{#}" _ "{#}"]) auto
  qed
qed

section \<open>Calls\<close>

text \<open>
  Nobody cancels a waiting URB twice, neither the kernel nor the user; and, for an orderly call, no message of the
  kernel is dropped and \<open>next_work\<close> has the memory it needs.
\<close>

fun fresh_call :: "'e platform \<Rightarrow> call \<Rightarrow> ('e, 'z) local_hcd_scheme \<Rightarrow> bool" where
  "fresh_call P Background s \<longleftrightarrow> fresh_message P s"
| "fresh_call P (CancelUrb h) s \<longleftrightarrow> fresh_cancel h s"
| "fresh_call P _ s \<longleftrightarrow> True"

fun orderly_call :: "'e platform \<Rightarrow> call \<Rightarrow> ('e, 'z) local_hcd_scheme \<Rightarrow> bool" where
  "orderly_call P Background s \<longleftrightarrow> orderly_message P s"
| "orderly_call P NextWork s \<longleftrightarrow> (fst (alloc_fails s) \<longrightarrow> list_all (is_canceled s) (h_inbox s))"
| "orderly_call P _ s \<longleftrightarrow> True"

lemma notify_books:
  assumes "books P taken given" "abi_ok P" "local_port_call P port ev s = (r, t)"
  shows "taken (env t) = taken (env s)" "given (env t) = given (env s)"
proof -
  have "env t = env s \<or> (\<exists>m. env t = fst (p_port_stat P (l_fd s) m (env s)))"
    using assms(3) port_call_send [OF abi_ok_parts(3) [OF assms(2)], of port "l_fd s" ev s]
    by (auto simp: local_port_call_notify port_notify_def check_port_def send_port_stat_syscall
        simp del: port_call.simps split: sum.splits prod.splits if_splits) (metis fst_conv)+
  then show "taken (env t) = taken (env s)" "given (env t) = given (env s)"
    using booksD(3,4) [OF assms(1)] by auto
qed

lemma account_call:
  fixes s t :: "('e, 'z) local_hcd_scheme"
  assumes b: "books P taken given" and kernel: "kernel_ok P" and inv: "local_inv s"
    and c: "permitted c s" "fresh_call P c s" "perform P c s = Some (r, t)"
  shows "account_step taken given (orderly_call P c s) s t"
proof (cases c)
  case Background
  then show ?thesis using account_bg_work [OF b kernel inv] c by simp
next
  case NextWork
  have hi: "hcd_inv s" using inv by (simp add: local_inv_def)
  obtain r' where "next_work s = Some (r', t)" using c(3) NextWork no_value_Some by fastforce
  from owed_next [OF hi this] obtain lost where l: "owed t + lost = owed s" "orderly_call P c s \<Longrightarrow> lost = {#}" "env t = env s"
    using NextWork by auto
  show ?thesis by (rule account_stepI [of _ _ _ "{#}" _ lost]) (use l in \<open>auto simp: ac_simps\<close>)
next
  case (FinishWork p)
  have hi: "hcd_inv s" using inv by (simp add: local_inv_def)
  from owed_finish [OF b hi, of p r t] c FinishWork show ?thesis
    by (intro account_stepI [of _ _ _ "{#}" _ "{#}"]) simp_all
next
  case (CancelUrb h)
  have hi: "hcd_inv s" using inv by (simp add: local_inv_def)
  obtain r' where "cancel_process_urb_work (local_canceling_work P) (local_finishing_work P) h s = Some (r', t)"
    using c(3) CancelUrb no_value_Some by fastforce
  from owed_cancel [OF b hi this] c(2) CancelUrb show ?thesis
    by (intro account_stepI [of _ _ _ "{#}" _ "{#}"]) simp_all
next
  case (Notify port ev)
  then obtain t' where t: "local_port_call P port ev s = (r, t)" using c(3) by simp
  then have "env_only s t"
    using port_call_frame [of P "l_fd s" port ev s]
    by (auto simp: local_port_call_notify port_notify_def split: sum.splits prod.splits if_splits)
  moreover have "abi_ok P" using kernel by (simp add: kernel_ok_def)
  ultimately show ?thesis
    using account_quiet [of t s] notify_books [OF b _ t] by (auto simp: env_only_def)
next
  case (AddCallback cb)
  then show ?thesis
    using c(3) by (intro account_quiet)
      (auto simp: add_work_enqueued_callback_def alloc_fails_def split: list.splits bool.splits)
next
  case (RemoveCallback cb)
  then show ?thesis
    using c(3) by (intro account_quiet) (auto simp: remove_work_enqueued_callback_def)
qed

lemma edited_handle:
  assumes "edited s p q t" "hcd_inv s" "p \<in> set (hcd_owned s)" "r \<in> set (hcd_owned s)"
  shows "handle_of t r = handle_of s r" "is_canceled t r = is_canceled s r"
proof -
  have ws: "works_ok s (hcd_owned s)" using assms(2) by (simp add: hcd_inv_def)
  note ed = edited_works_ok [OF assms(1) ws assms(3)]
  show "is_canceled t r = is_canceled s r" using ed(4) [OF assms(4)] by (simp add: is_canceled_def)
  show "handle_of t r = handle_of s r"
  proof (cases "r = p")
    case True
    then show ?thesis using assms(1) ed(4) [OF assms(4)] by (auto simp: edited_def handle_of_def)
  next
    case False
    then have "disjnt (work_footprint s r) (work_footprint s p)"
      using ws assms(3,4) by (auto simp: works_ok_def pairwise_def)
    then have "heap t x = heap s x" if "x \<in> work_footprint s r" for x
      using that ed(3) by (auto simp: disjnt_def)
    then show ?thesis using handle_of_frame(1) works_ok_object [OF ws assms(4)] by blast
  qed
qed

end
