(* ===== verification/Local_Account.thy ===== *)
theory Local_Account
  imports Local_Ledger
begin

text \<open>
  The account of the URBs over whole programs: no URB is given back that was not handed out, none twice, and,
  as long as nothing goes wrong, none is lost.
\<close>

section \<open>Programs\<close>

text \<open>
  The programs of \<open>Local_System\<close>, with two conditions: nobody cancels a waiting URB twice, and the rest of the
  world leaves the books alone. In an \<open>exact\<close> program every call is orderly as well.
\<close>

inductive accounted ::
  "bool \<Rightarrow> 'e platform \<Rightarrow> ('e \<Rightarrow> u64 multiset) \<Rightarrow> ('e \<Rightarrow> u64 multiset) \<Rightarrow> u8 \<Rightarrow> ('e, 'z) local_hcd_scheme \<Rightarrow> bool"
  for exact :: bool and P :: "'e platform" and taken given :: "'e \<Rightarrow> u64 multiset" and ports :: u8 where
  start: "runs P ports s \<Longrightarrow> hcd_owned s = [] \<Longrightarrow> given (env s) \<subseteq># taken (env s) \<Longrightarrow>
    (exact \<Longrightarrow> given (env s) = taken (env s)) \<Longrightarrow>
    accounted exact P taken given ports s"
| call: "accounted exact P taken given ports s \<Longrightarrow> permitted c s \<Longrightarrow> fresh_call P c s \<Longrightarrow>
    (exact \<Longrightarrow> orderly_call P c s) \<Longrightarrow>
    perform P c s = Some (r, t) \<Longrightarrow> survives c r \<Longrightarrow> accounted exact P taken given ports t"
| edit: "accounted exact P taken given ports s \<Longrightarrow> p \<in> set (h_processing s) \<Longrightarrow> edited s p q (s\<lparr>heap := h\<rparr>) \<Longrightarrow>
    accounted exact P taken given ports (s\<lparr>heap := h\<rparr>)"
| other_memory: "accounted exact P taken given ports s \<Longrightarrow> \<forall>x \<in> local_blocks s. h x = heap s x \<Longrightarrow>
    heap_ok (s\<lparr>heap := h, brk := n\<rparr>) \<Longrightarrow> accounted exact P taken given ports (s\<lparr>heap := h, brk := n\<rparr>)"
| world: "accounted exact P taken given ports s \<Longrightarrow> taken e = taken (env s) \<Longrightarrow> given e = given (env s) \<Longrightarrow>
    accounted exact P taken given ports (s\<lparr>env := e, errno := x, oom := bs, naps := ns\<rparr>)"
| stop: "accounted exact P taken given ports s \<Longrightarrow> accounted exact P taken given ports (s\<lparr>h_thread_shutdown := True\<rparr>)"

lemma accounted_runs: "accounted exact P taken given ports s \<Longrightarrow> runs P ports s"
proof (induction rule: accounted.induct)
  case (call s c r t)
  show ?case by (rule runs.step [OF call.IH sys_step.call [OF call(2,5,6)]])
next
  case (edit s p q h)
  show ?case by (rule runs.step [OF edit.IH sys_step.edit [OF edit(2,3)]])
next
  case (other_memory s h n)
  show ?case by (rule runs.step [OF other_memory.IH sys_step.other_memory [OF other_memory(2,3)]])
next
  case (world s e x bs ns)
  show ?case by (rule runs.step [OF world.IH sys_step.world])
next
  case (stop s)
  show ?case by (rule runs.step [OF stop.IH sys_step.stop])
qed

definition balanced ::
  "bool \<Rightarrow> ('e \<Rightarrow> u64 multiset) \<Rightarrow> ('e \<Rightarrow> u64 multiset) \<Rightarrow> ('e, 'z) hcd_scheme \<Rightarrow> bool" where
  "balanced exact taken given s \<longleftrightarrow> given (env s) + owed s \<subseteq># taken (env s) \<and>
     (exact \<longrightarrow> given (env s) + owed s = taken (env s))"

lemma balanced_step:
  assumes "balanced exact taken given s" "account_step taken given orderly s t" "exact \<Longrightarrow> orderly"
  shows "balanced exact taken given t"
proof -
  obtain new lost where a: "taken (env t) = taken (env s) + new"
    "given (env t) + owed t + lost = given (env s) + owed s + new" "orderly \<Longrightarrow> lost = {#}"
    using assms(2) unfolding account_step_def by blast
  have "given (env t) + owed t \<subseteq># given (env t) + owed t + lost" by simp
  also have "\<dots> \<subseteq># taken (env t)" using assms(1) a(1,2) by (simp add: balanced_def)
  finally have "given (env t) + owed t \<subseteq># taken (env t)" .
  moreover have "given (env t) + owed t = taken (env t)" if exact
    using that assms(1,3) a by (simp add: balanced_def)
  ultimately show ?thesis by (simp add: balanced_def)
qed

lemma balanced_quiet:
  fixes s t :: "('e, 'z) hcd_scheme"
  assumes "balanced exact taken given s" "heap t = heap s" "h_inbox t = h_inbox s" "h_processing t = h_processing s"
    "taken (env t) = taken (env s)" "given (env t) = given (env s)"
  shows "balanced exact taken given t"
  by (rule balanced_step [OF assms(1) account_quiet [where orderly = True, OF assms(2-6)]]) simp

lemma balanced_accounted:
  assumes "accounted exact P taken given ports s" "books P taken given" "kernel_ok P" "files_ok P"
  shows "balanced exact taken given s"
  using assms(1)
proof induction
  case (start s)
  then show ?case by (simp add: balanced_def owed_def hcd_owned_def)
next
  case (call s c r t)
  have "sys_inv ports s" using runs_inv [OF accounted_runs [OF call(1)] assms(3,4)] by simp
  then show ?case
    using balanced_step [OF _ account_call [OF assms(2,3) _ call(2,3,5)]] call by (simp add: sys_inv_def)
next
  case (edit s p q h)
  have inv: "hcd_inv s"
    using runs_inv [OF accounted_runs [OF edit(1)] assms(3,4)] by (simp add: sys_inv_def local_inv_def)
  have "owed (s\<lparr>heap := h\<rparr>) = owed s"
    by (rule owed_cong) (use edited_handle [OF edit(3) inv] edit(2) in \<open>simp_all add: hcd_owned_def\<close>)
  then show ?case using edit by (simp add: balanced_def)
next
  case (other_memory s h n)
  have inv: "hcd_inv s"
    using runs_inv [OF accounted_runs [OF other_memory(1)] assms(3,4)] by (simp add: sys_inv_def local_inv_def)
  have "owed (s\<lparr>heap := h, brk := n\<rparr>) = owed s"
    by (rule owed_frame [OF inv]) (use other_memory(2) in \<open>simp_all add: local_blocks_def\<close>)
  then show ?case using other_memory by (simp add: balanced_def)
next
  case (world s e x bs ns)
  show ?case by (rule balanced_quiet [OF world.IH]) (simp_all add: world)
next
  case (stop s)
  show ?case by (rule balanced_quiet [OF stop.IH]) simp_all
qed

section \<open>Properties\<close>

text \<open>
  C7. No URB is given back twice, none that the kernel did not hand out, and none that is given back is
  handed to the user any more. In every program that uses the controller, whatever the threads do
  and whatever allocations fail, the URBs that have been given back together with those that wait
  without being cancelled or are in progress are among those the kernel has handed out, each as
  often as it was handed out; provided that nobody cancels a waiting URB a second time.
\<close>

theorem urbs_given_back_at_most_once:
  assumes "accounted exact P taken given ports s" "books P taken given" "kernel_ok P" "files_ok P"
  shows "given (env s) + owed s \<subseteq># taken (env s)"
  using balanced_accounted [OF assms] by (simp add: balanced_def)

text \<open>
  C8. No URB is lost. As long as no message of the kernel is malformed, addressed to nobody or kept back, the
  background thread is not asked to stop and \<open>next_work\<close> has memory for its list, every
  URB the kernel has handed out either has been given back, once, or still waits or is in progress, whatever other
  allocations fail and however the threads interleave.
\<close>

theorem no_urb_lost:
  assumes "accounted True P taken given ports s" "books P taken given" "kernel_ok P" "files_ok P"
  shows "given (env s) + owed s = taken (env s)"
  using balanced_accounted [OF assms] by (simp add: balanced_def)

text \<open>
  C32. The condition is needed: a cancelled URB stays in the inbox until \<open>next_work\<close> meets it, and \<open>cancel_process_urb_work\<close>
  does not look at the mark. Cancelling a waiting URB that is cancelled already gives it back once
  more, although it is owed to nobody.
\<close>

theorem cancel_again_gives_back_again:
  fixes s :: "('e, 'z) local_hcd_scheme"
  assumes "books P taken given" "hcd_inv s" "List.find (has_handle s h) (h_inbox s) = Some p"
    and "is_canceled s p" "local_ready P p s"
  shows "\<exists>t. cancel_process_urb_work (local_canceling_work P) (local_finishing_work P) h s = Some (Inr False, t) \<and>
    given (env t) = add_mset h (given (env s)) \<and> taken (env t) = taken (env s) \<and> owed t = owed s"
proof -
  obtain t where "cancel_process_urb_work (local_canceling_work P) (local_finishing_work P) h s = Some (Inr False, t)"
    using local_hooks.cancel_spec [OF assms(2), of P h] assms(3,5) by auto
  with cancel_waiting_books [OF assms(1-3) this] assms(4) show ?thesis by blast
qed

section \<open>Witnesses\<close>

text \<open>The books of the sample platform.\<close>

definition log_taken :: "(i32 + ioc_work) \<Rightarrow> log \<Rightarrow> u64 multiset" where
  "log_taken w e =
     (case w of
        Inl _ \<Rightarrow> {#}
      | Inr w \<Rightarrow> if iw_type w = 1 then replicate_mset (count_list e FetchedWork) (iw_handle w) else {#})"

fun log_given :: "log \<Rightarrow> u64 multiset" where
  "log_given [] = {#}"
| "log_given (GaveBack q # e) = add_mset (ig_handle q) (log_given e)"
| "log_given (_ # e) = log_given e"

lemma sample_books: "books (sample_platform w d r) (log_taken w) log_given"
  by (auto simp: books_def overlooks_def log_taken_def sample_platform_simps split: sum.split)

definition booked_work :: ioc_work where
  "booked_work = \<lparr>iw_handle = 8,
     iw_port = \<lparr>ip_status = 0, ip_change = 0, ip_index = 0, ip_flags = 0\<rparr>,
     iw_urb = \<lparr>iu_setup = \<lparr>is_bmRequestType = 0, is_bRequest = 5, is_wValue = 7, is_wIndex = 0, is_wLength = 0\<rparr>,
               iu_buffer_length = 0, iu_interval = 0, iu_packet_count = 0, iu_flags = 0,
               iu_address = 0, iu_endpoint = 0, iu_type = 2\<rparr>,
     iw_type = 1\<rparr>"

definition booked_platform :: "log platform" where
  "booked_platform = sample_platform (Inr booked_work) sample_reply
     (Inr \<lparr>ir_id = 0, ir_usb_busnum = 1, ir_bus_id = ''vhci_hcd.0''\<rparr>)"

lemma booked_platform_ok:
  "kernel_ok booked_platform" "files_ok booked_platform"
  "books booked_platform (log_taken (Inr booked_work)) log_given"
  unfolding booked_platform_def
  using sample_abi_ok(1) fetch_data_ok_sample sample_files_ok(1) sample_books
  by (simp_all add: kernel_ok_def) (simp add: sample_platform_simps booked_work_def word_sle_eq)

definition booked_urb :: usb_vhci_urb where
  "booked_urb = zero_urb\<lparr>u_handle := 8, u_status := USB_VHCI_STATUS_PENDING, u_wValue := 7, u_bRequest := 5, u_type := 2\<rparr>"

lemma booked_urb_ok:
  "message_ok booked_urb" "\<not> bad_urb booked_platform booked_urb" "u_devadr booked_urb = 0" "u_handle booked_urb = 8"
  by (simp_all add: booked_urb_def message_ok_def bad_urb_def zero_urb_def word_sle_eq booked_platform_def
      sample_platform_simps usb_vhci_is_iso_def usb_vhci_is_control_def)

lemmas fetch_booked = usb_vhci_fetch_work_def usb_vhci_fetch_work_timeout_def syscall_def fetch_urb_by_type_def
  booked_work_def booked_urb_def sample_platform_simps zero_urb_def usb_vhci_is_iso_def usb_vhci_is_out_def has_mask_def

lemma booked_bg_work:
  assumes "local_inv (s :: log local_hcd)"
  shows "\<exists>t. bg_work booked_platform s = Some (Inr (), t) \<and>
    log_taken (Inr booked_work) (env t) = add_mset 8 (log_taken (Inr booked_work) (env s))"
proof -
  let ?u = booked_urb and ?s = "s\<lparr>env := FetchedWork # env s\<rparr>"
  have w: "usb_vhci_fetch_work booked_platform fd work s =
      (0, \<lparr>wk_work = WorkUrb ?u, wk_type = WORK_TYPE_PROCESS_URB booked_platform\<rparr>, ?s)" for fd work
    by (simp add: fetch_booked booked_platform_def)
  have run: "bg_work booked_platform s = bg_process_urb booked_platform 0 ?u 0 False ?s"
    using w by (simp add: bg_work_def) (simp add: booked_platform_def sample_platform_simps)
  have inv: "local_inv ?s" using assms by (simp add: local_inv_env)
  note msg = booked_urb_ok(1)
  have k: "fetch_data_ok booked_platform" using booked_platform_ok(1) by (simp add: kernel_ok_def)
  have "\<not> escapes booked_platform ?u e" for e using booked_urb_ok(2,3) by (simp add: escapes_def)
  with bg_process_urb_effect [OF inv msg k, of 0] obtain r t
    where rt: "bg_process_urb booked_platform 0 ?u 0 False ?s = Some (r, t)" "\<forall>e. r \<noteq> Inl e" by blast
  have "log_taken (Inr booked_work) (env t) = log_taken (Inr booked_work) (FetchedWork # env s)"
    using bg_process_urb_observed [OF booksD(1) [OF booked_platform_ok(3)] rt(1)] by simp
  then show ?thesis unfolding run using rt by (cases r) (simp_all add: log_taken_def booked_work_def)
qed

text \<open>
  A kernel that reports a finished reset of the first port and then hands out a URB for address 0 for ever.
\<close>

definition started_work :: ioc_work where
  "started_work = booked_work
     \<lparr>iw_port := \<lparr>ip_status = 0x0103, ip_change = 0x0010, ip_index = 1, ip_flags = 0\<rparr>, iw_type := 0\<rparr>"

definition started_platform :: "log platform" where
  "started_platform = booked_platform
     \<lparr>p_fetch_work := (\<lambda>fd n e. (FetchedWork # e, Inr (if FetchedWork \<in> set e then booked_work else started_work)))\<rparr>"

definition started_taken :: "log \<Rightarrow> u64 multiset" where
  "started_taken e = replicate_mset (count_list e FetchedWork - 1) 8"

lemmas started_simps = started_platform_def booked_platform_def started_work_def booked_work_def sample_platform_simps

lemma started_platform_ok:
  "kernel_ok started_platform" "files_ok started_platform"
  "books started_platform started_taken log_given"
proof -
  have "abi_ok started_platform" by (simp add: abi_ok_def work_types_ok_def urb_types_ok_def port_bits_ok_def started_simps)
  moreover have "fetch_data_ok started_platform"
    using fetch_data_ok_sample by (simp add: fetch_data_ok_def started_platform_def booked_platform_def)
  ultimately show "kernel_ok started_platform" by (simp add: kernel_ok_def) (simp add: started_simps word_sle_eq)
  have "close_env started_platform fd n e = close_env booked_platform fd n e" for fd n e
    by (induction n arbitrary: e) (simp_all add: started_platform_def)
  then show "files_ok started_platform"
    using booked_platform_ok(2) by (simp add: files_ok_def close_outcome_def) (simp add: started_platform_def)
  have later: "FetchedWork \<in> set e \<Longrightarrow> replicate_mset (count_list e FetchedWork) (8 :: u64) =
      add_mset 8 (replicate_mset (count_list e FetchedWork - Suc 0) 8)" for e
    by (cases "count_list e FetchedWork") (simp_all add: count_list_0_iff)
  show "books started_platform started_taken log_given"
    by (auto simp: books_def overlooks_def started_taken_def started_simps later)
qed

text \<open>The first round: the port has the address 0 afterwards.\<close>

lemma started_bg_port:
  assumes "local_inv (s :: log local_hcd)" "FetchedWork \<notin> set (env s)" "h_port_count s = 2" "h_callbacks s = []"
    and awake: "\<not> h_thread_shutdown s" "naps s = []"
  shows "orderly_message started_platform s"
    "\<exists>t. bg_work started_platform s = Some (Inr (), t) \<and> env t = FetchedWork # env s \<and> \<not> h_thread_shutdown t \<and>
      port_of 0 (l_port_info t) = 1"
proof -
  let ?s = "s\<lparr>env := FetchedWork # env s\<rparr>" and ?nps = "port_stat_new 0x0103 0x0010 0"
  have w: "usb_vhci_fetch_work started_platform fd work s =
      (0, \<lparr>wk_work = WorkPortStat \<lparr>ps_status = 0x0103, ps_change = 0x0010, ps_index = 1, ps_flags = 0\<rparr>,
           wk_type = WORK_TYPE_PORT_STAT started_platform\<rparr>, ?s)" for fd work
    using assms(2) by (simp add: usb_vhci_fetch_work_def usb_vhci_fetch_work_timeout_def syscall_def started_simps)
  then show "orderly_message started_platform s" by (simp add: orderly_message_def)
  have run: "bg_work started_platform s = bg_port_stat started_platform 1 ?nps 0 False ?s"
    using w assms(3) by (simp add: bg_work_def)
  have len: "length (l_port_info s) = 2" using assms(1,3) by (simp add: local_inv_def ports_ok_def)
  have "local_inv ?s" using assms(1) by (simp add: local_inv_env)
  then have "spare ?s 0" by (simp add: spare_def local_inv_def hcd_inv_def)
  moreover have "port_ok 1 ?s" using assms(3) len by (simp add: port_ok_def)
  ultimately obtain t where t: "bg_port_stat started_platform 1 ?nps 0 False ?s = Some (Inr (), t)"
    "(paused ?s t \<and> hcd_inv t \<and> h_thread_shutdown t) \<or> (\<exists>s'. paused ?s s' \<and> port_stat_done started_platform 1 ?nps s' t)"
    using bg_port_stat_run [of ?s 0 1 started_platform ?nps False] by blast
  have "\<not> h_thread_shutdown t" if "paused ?s t" for t using that awake by (simp add: paused_def)
  with t(2) obtain s' where p: "paused ?s s'" "port_stat_done started_platform 1 ?nps s' t" "\<not> h_thread_shutdown s'"
    by blast
  have info: "l_port_info s' = l_port_info s" "h_callbacks s' = []" "env s' = FetchedWork # env s"
    using p(1) assms(4) idle_local(1) [OF paused_idle [OF p(1)]] by (simp_all add: paused_def)
  have "\<not> h_thread_shutdown t"
    using p(2,3)
    by (auto simp: port_stat_done_def got_work_def on_work_enqueued_def set_port_entry_def dest: memory_only_hcd(6))
  moreover obtain "env t = FetchedWork # env s"
    "l_port_info t = (l_port_info s)[0 := port_stat_update ?nps (port_at 1 s')]"
    using port_stat_done_effect [OF p(2)] info by (metis One_nat_def diff_self fold_Nil id_apply unat_0)
  moreover obtain a b where "l_port_info s = [a, b]"
    using len by (metis One_nat_def Suc_1 length_0_conv length_Suc_conv)
  moreover have "pi_adr (port_stat_update ?nps a) = 0" for a
    by (simp add: port_stat_update_def Let_def port_stat_new_def get_connection_changed_def get_reset_changed_def
        get_reset_def get_enable_def has_mask_def)
  ultimately show "\<exists>t. bg_work started_platform s = Some (Inr (), t) \<and> env t = FetchedWork # env s \<and>
      \<not> h_thread_shutdown t \<and> port_of 0 (l_port_info t) = 1"
    using run t(1) by (intro exI [of _ t]) (simp add: port_of_def upt_rec)
qed

text \<open>The second round: the URB is enqueued.\<close>

lemma started_bg_urb:
  assumes "local_inv (s :: log local_hcd)" "FetchedWork \<in> set (env s)" "port_of 0 (l_port_info s) = 1"
    and awake: "\<not> h_thread_shutdown s" "naps s = []"
  shows "orderly_message started_platform s"
    "\<exists>t. bg_work started_platform s = Some (Inr (), t) \<and> log_given (env t) = log_given (env s) \<and>
      started_taken (env t) = started_taken (FetchedWork # env s)"
proof -
  let ?s = "s\<lparr>env := FetchedWork # env s\<rparr>"
  have w: "usb_vhci_fetch_work started_platform fd work s =
      (0, \<lparr>wk_work = WorkUrb booked_urb, wk_type = WORK_TYPE_PROCESS_URB started_platform\<rparr>, ?s)" for fd work
    using assms(2) by (simp add: fetch_booked started_platform_def booked_platform_def)
  have ok: "\<not> mislaid started_platform 0 booked_urb ?s"
    using booked_urb_ok(2,3) assms(3-5) by (simp add: mislaid_def) (auto simp: bad_urb_def started_platform_def)
  then show "orderly_message started_platform s" using w by (simp add: orderly_message_def)
  have run: "bg_work started_platform s = bg_process_urb started_platform 0 booked_urb 0 False ?s"
    using w by (simp add: bg_work_def) (simp add: started_platform_def booked_platform_def sample_platform_simps)
  have inv: "local_inv ?s" using assms(1) by (simp add: local_inv_env)
  have k: "fetch_data_ok started_platform" using started_platform_ok(1) by (simp add: kernel_ok_def)
  have "\<not> escapes started_platform booked_urb e" for e using ok booked_urb_ok(3) by (simp add: escapes_def mislaid_def)
  with bg_process_urb_effect [OF inv booked_urb_ok(1) k, of 0] obtain r t
    where rt: "bg_process_urb started_platform 0 booked_urb 0 False ?s = Some (r, t)" "\<forall>e. r \<noteq> Inl e" by blast
  moreover have "log_given (env t) = log_given (env ?s)" "started_taken (env t) = started_taken (env ?s)"
    using bg_process_urb_observed [OF booksD(2) [OF started_platform_ok(3)] rt(1)]
      bg_process_urb_observed [OF booksD(1) [OF started_platform_ok(3)] rt(1)] by simp_all
  ultimately show "\<exists>t. bg_work started_platform s = Some (Inr (), t) \<and> log_given (env t) = log_given (env s) \<and>
      started_taken (env t) = started_taken (FetchedWork # env s)"
    unfolding run by (cases r) auto
qed

lemma started_ctor:
  obtains t :: "log local_hcd" where "runs started_platform 2 t" "local_inv t" "env t = [Registered 2, Opened]"
    "fresh_hcd 2 3 \<lparr>ir_id = 0, ir_usb_busnum = 1, ir_bus_id = ''vhci_hcd.0''\<rparr> 1 t"
proof -
  note P = started_platform_ok
  obtain r t where "local_hcd_ctor started_platform 2 sample_raw = Some (r, t)"
    "r = Inr () \<and> env t = [Registered 2, Opened]"
    "local_inv t" "fresh_hcd 2 3 \<lparr>ir_id = 0, ir_usb_busnum = 1, ir_bus_id = ''vhci_hcd.0''\<rparr> 1 t"
    using local_hcd_ctor_run [OF sample_raw_ok(1) P(2), of 2]
    by (auto simp: started_platform_def booked_platform_def sample_platform_simps) (simp_all add: sample_raw_def)
  then show thesis using that [of t] runs.start [OF sample_raw_ok(1)] by simp
qed

text \<open>
  A controller is constructed and receives the end of a reset and a URB for the port: it is owed afterwards.
\<close>

theorem no_urb_lost_witness:
  "\<exists>s :: log local_hcd. accounted True started_platform started_taken log_given 2 s \<and>
     started_taken (env s) = {#8#} \<and> log_given (env s) = {#} \<and> owed s = {#8#}"
proof -
  let ?P = started_platform
  note P = started_platform_ok
  obtain t :: "log local_hcd" where t: "runs ?P 2 t" "local_inv t" "env t = [Registered 2, Opened]"
    "\<not> h_thread_shutdown t" "h_port_count t = 2" "h_callbacks t = []" "hcd_owned t = []"
    by (rule started_ctor) (simp add: fresh_hcd_def hcd_owned_def)
  let ?calm = "\<lambda>s. s\<lparr>env := env s, errno := 0, oom := [], naps := []\<rparr>"
  have calm: "accounted True ?P started_taken log_given 2 s \<Longrightarrow> accounted True ?P started_taken log_given 2 (?calm s)"
    for s :: "log local_hcd" by (rule accounted.world) simp_all
  have inv: "local_inv s" if "accounted True ?P started_taken log_given 2 s" for s :: "log local_hcd"
    using runs_inv [OF accounted_runs [OF that] P(1,2)] by (simp add: sys_inv_def)
  have "accounted True ?P started_taken log_given 2 t"
    by (rule accounted.start [OF t(1,7)]) (simp_all add: t(3) started_taken_def)
  note a = calm [OF this]
  obtain u where u: "bg_work ?P (?calm t) = Some (Inr (), u)" "env u = FetchedWork # env t" "\<not> h_thread_shutdown u"
    "port_of 0 (l_port_info u) = 1" "orderly_message ?P (?calm t)"
    using started_bg_port [OF inv [OF a]] t by auto
  have "fresh_message ?P s" for s :: "log local_hcd"
    by (simp add: fresh_message_def started_simps)
  note call = accounted.call [where c = Background, simplified, OF _ this]
  have a: "accounted True ?P started_taken log_given 2 u"
    by (rule call [OF a]) (use u in \<open>simp_all add: survives_def\<close>)
  note a = calm [OF this]
  obtain v where v: "bg_work ?P (?calm u) = Some (Inr (), v)" "log_given (env v) = {#}"
    "started_taken (env v) = {#8#}" "orderly_message ?P (?calm u)"
    using started_bg_urb [OF inv [OF a]] u t(3) by (auto simp: started_taken_def)
  have a: "accounted True ?P started_taken log_given 2 v"
    by (rule call [OF a]) (use v in \<open>simp_all add: survives_def\<close>)
  from no_urb_lost [OF a P(3,1,2)] a v(2,3) show ?thesis by auto
qed

text \<open>A controller is constructed, and the background thread fetches a URB.\<close>

theorem urbs_given_back_at_most_once_witness:
  "\<exists>taken given (s :: log local_hcd). accounted False booked_platform taken given 2 s \<and> taken (env s) = {#8#} \<and>
     given (env s) + owed s \<subseteq># {#8#}"
proof -
  let ?P = booked_platform and ?taken = "log_taken (Inr booked_work)"
  note P = booked_platform_ok
  obtain r t where rt: "local_hcd_ctor ?P 2 sample_raw = Some (r, t)" "r = Inr () \<and> env t = [Registered 2, Opened]"
    using local_hcd_ctor_run [OF sample_raw_ok(1) P(2), of 2]
    by (auto simp: booked_platform_def sample_platform_simps) (simp_all add: sample_raw_def)
  then have ctor: "local_hcd_ctor ?P 2 sample_raw = Some (Inr (), t)" by simp
  have own: "hcd_owned t = []" "local_inv t"
    using local_hcd_ctor_success [OF sample_raw_ok(1) P(2) ctor] by (auto simp: fresh_hcd_def hcd_owned_def)
  obtain u where u: "bg_work ?P t = Some (Inr (), u)" "?taken (env u) = add_mset 8 (?taken (env t))"
    using booked_bg_work [OF own(2)] by blast
  have "accounted False ?P ?taken log_given 2 t"
    by (rule accounted.start [OF runs.start [OF sample_raw_ok(1) ctor] own(1)]) (simp_all add: rt(2))
  then have a: "accounted False ?P ?taken log_given 2 u"
    by (rule accounted.call [where c = Background])
      (use u in \<open>simp_all add: fresh_message_def survives_def booked_platform_def booked_work_def sample_platform_simps\<close>)
  have "?taken (env u) = {#8#}" using u(2) rt(2) by (simp add: log_taken_def booked_work_def)
  with urbs_given_back_at_most_once [OF a P(3,1,2)] a show ?thesis by metis
qed

theorem cancel_again_gives_back_again_witness:
  "\<exists>t. cancel_process_urb_work (local_canceling_work plain_platform) (local_finishing_work plain_platform) 7
       (mark 5 sample_waiting) = Some (Inr False, t) \<and> log_given (env t) = {#7#} \<and> owed t = {#}"
proof -
  let ?s = "mark 5 sample_waiting"
  note w = sample_local_work [of sample_waiting, simplified]
  have own: "5 \<in> set (hcd_owned sample_waiting)" by (simp add: hcd_owned_def sample_waiting_def)
  have inv: "hcd_inv ?s" by (rule mark_inv [OF w(1) sample_waiting_inv])
  have b: "books plain_platform (log_taken (Inl ETIMEDOUT)) log_given"
    unfolding plain_platform_def by (rule sample_books)
  have i: "h_inbox ?s = [5, 6]" "h_processing ?s = []" "env ?s = []"
    by (simp_all add: sample_waiting_def sample_local_def)
  have "handle_of sample_waiting 5 = Some 7" "handle_of sample_waiting 6 = None" "\<not> is_canceled sample_waiting 6"
    using w(1-3) by (simp_all add: handle_of_def is_canceled_def sample_iso_urb_def zero_urb_def)
  then have "handle_of ?s 5 = Some 7" "handle_of ?s 6 = None" "is_canceled ?s 5" "\<not> is_canceled ?s 6"
    using mark_handle [OF sample_waiting_inv w(1), of ?s] by (simp_all add: hcd_owned_def sample_waiting_def)
  then have h: "List.find (has_handle ?s 7) (h_inbox ?s) = Some 5" and c: "is_canceled ?s 5" and o: "owed ?s = {#}"
    using i by (simp_all add: has_handle_of owed_def)
  have "local_ready plain_platform 5 sample_waiting" using sample_waiting_ready by (simp add: sample_waiting_def)
  then have r: "local_ready plain_platform 5 ?s" using local_ready_mark [OF sample_waiting_inv own] by simp
  show ?thesis using cancel_again_gives_back_again [OF b inv h c r] o i(3) by auto
qed

end
