(* ===== verification/Local_Memory.thy ===== *)
theory Local_Memory
  imports Local_Account
begin

text \<open>
  The account of the memory: the blocks that do not belong to the controller. As long as memory lasts no call of
  a program touches one of them or adds to them; a URB for an address that no port has adds its blocks.
\<close>

section \<open>What does not belong to the controller\<close>

definition foreign :: "('e, 'z) hcd_scheme \<Rightarrow> nat \<Rightarrow> block option" where
  "foreign s = heap s |` (- footprints s (hcd_owned s))"

lemma foreign_cong: "heap t = heap s \<Longrightarrow> hcd_owned t = hcd_owned s \<Longrightarrow> foreign t = foreign s"
  using heap_determines(4) [of t s] by (simp add: foreign_def)

text \<open>A new work, with everything it owns.\<close>

lemma foreign_enqueued:
  assumes inv: "works_ok s (hcd_owned s)" and own: "set (hcd_owned t) = insert q (set (hcd_owned s))"
    and ext: "heap s \<subseteq>\<^sub>m heap t" and new: "dom (heap t) = dom (heap s) \<union> work_footprint t q"
    and fresh: "work_footprint t q \<inter> dom (heap s) = {}"
  shows "foreign t = foreign s"
proof
  fix x
  have fp: "footprints t (hcd_owned t) = footprints s (hcd_owned s) \<union> work_footprint t q"
    using works_ok_extend(2) [OF inv ext] own by (auto simp: footprints_def)
  show "foreign t x = foreign s x"
  proof (cases "x \<in> dom (heap s)")
    case True
    then have "heap t x = heap s x" "x \<notin> work_footprint t q" using ext fresh by (auto simp: map_le_def)
    then show ?thesis by (simp add: foreign_def restrict_map_def fp)
  next
    case False
    then have "heap s x = None" by (simp add: domIff)
    moreover have "heap t x = None \<or> x \<in> work_footprint t q" using False new by (auto simp: domIff)
    ultimately show ?thesis by (auto simp: foreign_def restrict_map_def fp)
  qed
qed

text \<open>Works that are gone, with everything they owned.\<close>

lemma foreign_removed:
  assumes inv: "hcd_inv s" and h: "heap t = heap s |` (- footprints s gone)"
    and own: "set (hcd_owned s) = set (gone @ hcd_owned t)" "distinct (gone @ hcd_owned t)"
  shows "foreign t = foreign s"
proof -
  have w: "works_ok s (hcd_owned s)" using inv by (simp add: hcd_inv_def)
  have g: "works_ok s (gone @ hcd_owned t)" by (rule works_ok_perm [OF own(2) _ w]) (simp add: own(1))
  have "works_ok s (hcd_owned t)" by (rule works_ok_perm [OF _ _ g]) (use own(2) in auto)
  moreover have "heap t x = heap s x" if "x \<in> footprints s (hcd_owned t)" for x
    using works_ok_disjnt [OF g] h that by (auto simp: disjnt_def restrict_map_def)
  ultimately have "footprints t (hcd_owned t) = footprints s (hcd_owned t)" by (rule works_ok_frame(2))
  moreover have "footprints s (hcd_owned s) = footprints s gone \<union> footprints s (hcd_owned t)"
    unfolding footprints_def using own(1) by auto
  ultimately show ?thesis unfolding foreign_def h by (auto simp: restrict_map_def fun_eq_iff)
qed

section \<open>What the allocations of a URB add\<close>

definition adds :: "('e, 'z) machine_scheme \<Rightarrow> nat set \<Rightarrow> ('e, 'z) machine_scheme \<Rightarrow> bool" where
  "adds s X t \<longleftrightarrow> heap_ok t \<and> dom (heap t) = dom (heap s) \<union> X"

lemma adds_refl: "heap_ok s \<Longrightarrow> adds s {} s"
  by (simp add: adds_def)

lemma adds_trans: "adds r X s \<Longrightarrow> adds s Y t \<Longrightarrow> adds r (X \<union> Y) t"
  by (auto simp: adds_def)

lemma adds_ok: "adds s X t \<Longrightarrow> heap_ok t"
  by (simp add: adds_def)

lemma adds_usleep [simp]: "adds s X (usleep t) = adds s X t" "adds (usleep s) X t = adds s X t"
  "heap_ok (usleep s) = heap_ok s"
  by (simp_all add: adds_def usleep_def heap_ok_def split: list.split)

lemma adds_alloc: "alloc b s = (p, t) \<Longrightarrow> heap_ok s \<Longrightarrow> adds s ({p} - {0}) t"
  by (elim alloc_cases [rotated]) (auto simp: adds_def)

lemma adds_array:
  "new_array mk n s = (r, t) \<Longrightarrow> heap_ok s \<Longrightarrow> adds s (case r of Inl _ \<Rightarrow> {} | Inr p \<Rightarrow> {p} - {0}) t"
  by (auto simp: new_array_def adds_refl dest!: adds_alloc split: if_splits prod.splits)

lemma adds_retry:
  assumes "new_retry mk n s = Some r" "heap_ok s"
  shows "adds s ({fst r} - {0}) (snd r)"
proof -
  let ?Q = "\<lambda>s r. heap_ok s \<longrightarrow> adds s ({fst r} - {0}) (snd r)"
  have "?Q s r"
  proof (rule new_retry.raw_induct [of "\<lambda>mk n s r. ?Q s r", OF _ assms(1)])
    fix f mk n and s :: "('e, 'z) hcd_scheme" and r
    assume ih: "\<And>n s b y. f n s b = Some y \<Longrightarrow> ?Q b y"
      and run: "(let rs = new_array mk n s
      in case fst rs of
           Inr p \<Rightarrow> Some (p, snd rs)
         | Inl e \<Rightarrow> let s = usleep (snd rs) in if h_thread_shutdown s then Some (0, s) else f mk n s) = Some r"
    obtain a t where at: "new_array mk n s = (a, t)" by fastforce
    show "?Q s r"
    proof
      assume "heap_ok s"
      note d = adds_array [OF at this]
      show "adds s ({fst r} - {0}) (snd r)"
      proof (cases a)
        case (Inl e)
        then show ?thesis
          using run d adds_ok [OF d] adds_trans [OF d, of "{fst r} - {0}" "snd r"]
          by (auto simp: at Let_def dest!: ih split: if_splits)
      next
        case (Inr p)
        then show ?thesis using run d by (auto simp: at)
      qed
    qed
  qed
  then show ?thesis using assms(2) by simp
qed

lemma adds_new_urb:
  assumes "new_object_nothrow (\<lambda>s. map_option urb_block (urb_own_ctor P w True s)) s = Some (r, t)" "heap_ok s"
  shows "adds s (case r of Inl _ \<Rightarrow> {} | Inr p \<Rightarrow> {p} - {0}) t"
  using assms(2)
proof (cases rule: new_urb_cases [where P = P and w = w])
  case (fail t')
  then show ?thesis using assms by (simp add: adds_def)
next
  case (throw e t')
  then show ?thesis using assms by (simp add: adds_def)
next
  case (ok p uo t')
  then show ?thesis using assms by (auto simp: adds_def)
qed

lemma adds_urb_retry:
  assumes "new_urb_retry P w s = Some r" "heap_ok s"
  shows "adds s (case fst r of Inl _ \<Rightarrow> {} | Inr p \<Rightarrow> {p} - {0}) (snd r)"
proof -
  let ?Q = "\<lambda>a r. heap_ok (snd a) \<longrightarrow> adds (snd a) (case fst r of Inl _ \<Rightarrow> {} | Inr p \<Rightarrow> {p} - {0}) (snd r)"
  have "?Q ((P, w), s) r"
  proof (rule new_urb_retry.raw_induct [of ?Q, OF _ assms(1)])
    fix f P w and s :: "('a, 'b) hcd_scheme" and r
    assume ih: "\<And>P w s r. f P w s = Some r \<Longrightarrow> ?Q ((P, w), s) r"
      and run: "do {
         (r, s) \<leftarrow> new_object_nothrow (\<lambda>s. map_option urb_block (urb_own_ctor P w True s)) s;
         (case r of
            Inl e \<Rightarrow> Some (Inl e, s)
          | Inr u \<Rightarrow>
              if u \<noteq> 0 then Some (Inr u, s)
              else let s = usleep s in if h_thread_shutdown s then Some (Inr 0, s) else f P w s) } = Some r"
    then obtain a t where at: "new_object_nothrow (\<lambda>s. map_option urb_block (urb_own_ctor P w True s)) s = Some (a, t)"
      by (auto simp del: map_option_eq_Some split: bind_splits)
    show "?Q ((P, w), s) r"
    proof
      assume "heap_ok (snd ((P, w), s))"
      then have d: "adds s (case a of Inl _ \<Rightarrow> {} | Inr p \<Rightarrow> {p} - {0}) t" using adds_new_urb [OF at] by simp
      let ?X = "case fst r of Inl _ \<Rightarrow> {} | Inr p \<Rightarrow> {p} - {0}"
      have "adds s ?X (snd r)"
      proof (cases "a = Inr 0")
        case True
        then show ?thesis
          using run d adds_ok [OF d] adds_trans [OF d, of ?X "snd r"]
          by (auto simp: at Let_def dest!: ih split: if_splits)
      next
        case False
        then show ?thesis using run d by (cases a) (auto simp: at)
      qed
      then show "adds (snd ((P, w), s)) ?X (snd r)" by simp
    qed
  qed
  then show ?thesis using assms(2) by simp
qed

text \<open>When a URB object has been made it is new, and so are its blocks.\<close>

lemma adds_alloc_urb:
  assumes run: "alloc_urb P w s = Some (Inr u, v, t)" "u \<noteq> 0" and s: "heap_ok s" "message_ok w"
  shows "adds s (insert u (urb_blocks v)) t"
proof -
  obtain b s1 w1 where b: "adds s ({b} - {0}) s1" "w1 = w\<lparr>u_buffer := b\<rparr>" and 1: "(if u_packet_count w1 \<noteq> 0 then do {
            (p, s) \<leftarrow> new_retry Packets (u_packet_count w1) s1;
            Some (p \<noteq> 0, w1\<lparr>u_iso_packets := p\<rparr>, s) }
          else Some (True, w1, s1)) \<bind> (\<lambda>(go, w, s).
       if \<not> go then Some (Inr 0, w, s)
       else new_urb_retry P w s \<bind> (\<lambda>(r, s). Some (r, w, s))) = Some (Inr u, v, t)"
  proof (cases "u_buffer_length w = 0")
    case True
    then have "w = w\<lparr>u_buffer := 0\<rparr>" using s(2) by (simp add: message_ok_def)
    then show ?thesis using that [of 0 s w] True run(1) adds_refl [OF s(1)] by (simp add: alloc_urb_def)
  next
    case False
    then obtain b s1 where n: "new_retry Bytes (u_buffer_length w) s = Some (b, s1)"
      using run(1) by (auto simp: alloc_urb_def split: bind_splits)
    then have "b \<noteq> 0" using False run by (cases "b = 0") (simp_all add: alloc_urb_def)
    then show ?thesis using that [of b s1 "w\<lparr>u_buffer := b\<rparr>"] False n run(1) adds_retry [OF n s(1)]
      by (simp add: alloc_urb_def)
  qed
  note b1 = adds_ok [OF b(1)]
  obtain p s2 where p: "adds s1 ({p} - {0}) s2" and 2: "v = w1\<lparr>u_iso_packets := p\<rparr>"
    "new_urb_retry P v s2 = Some (Inr u, t)"
  proof (cases "u_packet_count w1 = 0")
    case True
    then have "w1 = w1\<lparr>u_iso_packets := 0\<rparr>" using s(2) b(2) by (simp add: message_ok_def)
    then show ?thesis using that [of 0 s1] True 1 adds_refl [OF b1] by (auto split: bind_splits)
  next
    case False
    then obtain p s2 where n: "new_retry Packets (u_packet_count w1) s1 = Some (p, s2)"
      using 1 by (auto split: bind_splits)
    then have "p \<noteq> 0" using False 1 run(2) by (cases "p = 0") simp_all
    then show ?thesis using that [of p s2] False n 1 adds_retry [OF n b1] by (simp split: bind_splits prod.splits)
  qed
  have "adds s2 {u} t" using adds_urb_retry [OF 2(2) adds_ok [OF p]] run(2) by simp
  moreover have "({b} - {0}) \<union> ({p} - {0}) \<union> {u} = insert u (urb_blocks v)"
    by (auto simp: 2(1) b(2) urb_blocks_def)
  ultimately show ?thesis using adds_trans [OF adds_trans [OF b(1) p]] by metis
qed

text \<open>The attempt adds the work object, and changes nothing but the URB it wraps.\<close>

lemma adds_new_work:
  fixes s t :: "('e, 'z) hcd_scheme"
  assumes "new_object_nothrow (work_block (Inr w)) s = Some (Inr q, t)" "heap_ok s"
  shows "adds s ({q} - {0}) t \<and> heap s \<subseteq>\<^sub>m heap t \<and> (q \<noteq> 0 \<longrightarrow> heap s q = None) \<and> h_inbox t = h_inbox s"
  using assms(2)
proof (cases rule: new_work_cases [where w = w])
  case (fail t')
  then show ?thesis using assms memory_only_hcd(1) [OF fail(5)] by (simp add: adds_def)
next
  case (ok q' t')
  then show ?thesis using assms memory_only_hcd(1) [OF ok(7)] by (auto simp: adds_def map_le_def)
qed

lemma handle_set_address_heap:
  assumes "handle_set_address P index u s = Some t" "heap_ok s"
  shows "adds s {} t" "x \<noteq> u \<Longrightarrow> heap t x = heap s x" "h_inbox t = h_inbox s"
  using assms
  by (auto simp: handle_set_address_def Let_def store_Some set_port_entry_def adds_def heap_ok_def
      split: bind_splits if_splits)

lemma attempt_heap:
  assumes run: "process_urb_attempt P w u 0 s = Some (Inr ok, q, t)" and s: "heap_ok s" "u \<noteq> 0"
  shows "adds s ({q} - {0}) t" "x \<in> dom (heap s) \<Longrightarrow> x \<noteq> u \<Longrightarrow> heap t x = heap s x"
    "ok \<Longrightarrow> if q = 0 then h_inbox t = h_inbox s else heap s q = None \<and> h_inbox t = h_inbox s @ [q]"
proof -
  obtain index where index: "port_from_address (u_devadr w) s = Some (Inr index)"
    using run by (auto simp: process_urb_attempt_def split: bind_splits sum.splits)
  have "adds s ({q} - {0}) t \<and> (\<forall>x \<in> dom (heap s) - {u}. heap t x = heap s x) \<and>
      (ok \<longrightarrow> (if q = 0 then h_inbox t = h_inbox s else heap s q = None \<and> h_inbox t = h_inbox s @ [q]))"
  proof (cases "index = 0")
    case True
    then show ?thesis using run index adds_refl [OF s(1)] by (simp add: process_urb_attempt_def delete_work_def)
  next
    case False
    note ctor = process_urb_work_ctor_ok [OF False s(2)]
    obtain r s1 where new: "new_object_nothrow (work_block (Inr (urb_work index u))) s = Some (r, s1)"
      using run index False ctor by (auto simp: process_urb_attempt_def split: bind_splits)
    then obtain p where r: "r = Inr p"
      using run index False ctor by (cases r) (simp_all add: process_urb_attempt_def)
    have n: "adds s ({p} - {0}) s1" "heap s \<subseteq>\<^sub>m heap s1" "p \<noteq> 0 \<longrightarrow> heap s p = None" "h_inbox s1 = h_inbox s" using adds_new_work [OF new [unfolded r] s(1)] by simp_all
    show ?thesis
    proof (cases "p = 0")
      case True
      then show ?thesis using run index False ctor new r n by (auto simp: process_urb_attempt_def map_le_def)
    next
      case p: False
      obtain pe s2 where h: "port_entry index s1 = Some pe" "handle_set_address P index u s1 = Some s2"
        using run index False ctor new r p by (auto simp: process_urb_attempt_def split: bind_splits)
      note a = handle_set_address_heap [OF h(2) adds_ok [OF n(1)]]
      have t: "q = p" "heap t = heap s2" "brk t = brk s2"
        using run index False ctor new r p h
        by (auto simp: process_urb_attempt_def enqueue_work_def alloc_fails_def on_work_enqueued_def set_port_entry_def
            split: bind_splits list.splits bool.splits)
      have "adds s (({p} - {0}) \<union> {}) s2" by (rule adds_trans [OF n(1) a(1)])
      then have "adds s ({q} - {0}) t" using t by (simp add: adds_def heap_ok_def)
      moreover have "heap t x = heap s x" if "x \<in> dom (heap s)" "x \<noteq> u" for x
        using that a(2) n(2) t(2) by (simp add: map_le_def)
      moreover have "h_inbox s2 = h_inbox s" using n(4) a(3) by simp
      then have "ok \<longrightarrow> h_inbox t = h_inbox s @ [q]"
        using run index False ctor new r p h
        by (auto simp: process_urb_attempt_def enqueue_work_def alloc_fails_def on_work_enqueued_def
            split: bind_splits list.splits bool.splits)
      ultimately show ?thesis using n(3) p t(1) by simp
    qed
  qed
  then show "adds s ({q} - {0}) t" "x \<in> dom (heap s) \<Longrightarrow> x \<noteq> u \<Longrightarrow> heap t x = heap s x"
    "ok \<Longrightarrow> if q = 0 then h_inbox t = h_inbox s else heap s q = None \<and> h_inbox t = h_inbox s @ [q]" by auto
qed

lemma fetched_dom:
  assumes "fetched P fd v s r t" "urb_mem s v" "fetch_data_ok P"
  shows "dom (heap t) = dom (heap s)"
proof (cases "snd (p_fetch_data P fd (fetch_request s v) (env s))")
  case (Inl err)
  then show ?thesis using assms(1) by (simp add: fetched_def)
next
  case (Inr dp)
  then obtain data pkts where d: "snd (p_fetch_data P fd (fetch_request s v) (env s)) = Inr (data, pkts)"
    by (cases dp) simp
  then have h: "heap t = fetched_heap (heap s) v data pkts" using assms(1) by (simp add: fetched_def)
  have "fetch_reply_ok (fetch_request s v) (data, pkts)" using assms(3) d unfolding fetch_data_ok_def by blast
  then have len: "length pkts = unat (u_packet_count v)" by (simp add: fetch_reply_ok_def fetch_request_def)
  have "u_iso_packets v \<in> dom (heap s)" if "pkts \<noteq> []"
  proof -
    have "u_packet_count v \<noteq> 0" using that len by (auto simp: unat_eq_zero)
    then show ?thesis using assms(2) by (auto simp: urb_mem_def packets_at_iff)
  qed
  then show ?thesis unfolding h by (auto simp: fetched_heap_def dom_data_heap)
qed

section \<open>A URB message while memory lasts\<close>

lemma bg_urb_calm:
  fixes s :: "('e, 'z) local_hcd_scheme"
  assumes inv: "hcd_inv s" "ports_ok s" and msg: "message_ok w" "fetch_data_ok P"
    and calm: "oom s = []" "\<not> h_thread_shutdown s" "True \<notin> set (naps s)"
    and w: "\<not> bad_urb P w" "\<not> u_devadr w > 0x7f" "\<not> (res \<noteq> 0 \<and> fetch_refused P s w)"
  obtains u v q s3 t where "bg_process_urb P res w 0 False s = Some (Inr (), t)" "same_message w v" "u \<noteq> 0"
    "heap s \<subseteq>\<^sub>m heap s3" "adds s (insert u (urb_blocks v)) s3" "heap s u = None" "\<forall>x \<in> urb_blocks v. heap s x = None"
    "load_urb u s3 = Some v" "idle s s3" "pointed v"
    "process_urb_attempt P v u 0 s3 = Some (Inr True, q, t)"
    "if port_of (u_devadr w) (l_port_info s) = 0 then hcd_inv t \<and> t = s3 \<and> q = 0 else urb_queued P u v s3 t"
proof -
  have wk: "heap_ok s" "works_ok s (hcd_owned s)" using inv(1) by (simp_all add: hcd_inv_def)
  have h0: "held s 0" using inv(1) by (simp add: held_inv)
  obtain r v s2 where al: "alloc_urb P w s = Some (r, v, s2)" "alloc_urb_result P w s r v s2"
    using alloc_urb_run [OF wk msg(1)] by blast
  then have w2: "waited s s2" "same_message w v" by (simp_all add: alloc_urb_result_def)
  note f = same_message_fields [OF w2(2)]
  have e2: "env s2 = env s" "l_fd s2 = l_fd s"
    using w2(1) idle_local(2) [OF paused_idle] by (auto simp: waited_def paused_def)
  have "\<not> h_thread_shutdown s2" using w2(1) calm(2,3) by (auto simp: waited_def paused_def)
  then obtain u where u: "r = Inr u" "u \<noteq> 0" "fresh_object s u v s2"
    using al(2) w(1) by (cases r) (auto simp: alloc_urb_result_def split: if_splits)
  have pv: "pointed v" using u(3) by (simp add: fresh_object_def)
  have mv: "message_ok v" by (rule f(13) [OF msg(1) pv])
  have a2: "adds s (insert u (urb_blocks v)) s2" by (rule adds_alloc_urb [OF al(1) [unfolded u(1)] u(2) wk(1) msg(1)])
  note prep = prepared_fresh [OF w2(1) u(3) mv]
  from fetch_stage [OF prep msg(2), of res] obtain res' s3 where
    ft: "(if res \<noteq> 0 then do { uo \<leftarrow> load_urb u s2; usb_vhci_fetch_data P (l_fd s2) uo s2 }
        else Some (res, s2)) = Some (res', s3)" "prepared s u v s3"
       "if res = 0 then res' = 0 \<and> s3 = s2 else fetched P (l_fd s2) v s2 res' s3"
    by blast
  have r0: "res' = 0"
  proof (cases "res = 0")
    case False
    let ?q = "fetch_request s2 v"
    have "\<not> isl (snd (p_fetch_data P (l_fd s) ?q (env s)))"
      using w(3) False f(1,2,5) by (auto simp: fetch_refused_def fetch_request_def)
    then show ?thesis using ft(3) False e2 by (auto simp: fetched_def split: sum.splits)
  qed (use ft(3) in simp)
  have um: "urb_mem s2 v" using fresh_object_urb(2) [OF u(3) mv waited_ok [OF w2(1)]] .
  have "dom (heap s3) = dom (heap s2)"
    using ft(3) fetched_dom [OF _ um msg(2)] by (auto split: if_splits)
  then have a3: "adds s (insert u (urb_blocks v)) s3"
    using a2 ft(2) by (simp add: adds_def prepared_def)
  have i3: "idle s s3" by (rule prepared_idle [OF wk(2) ft(2)])
  note h3 = held_prepared [OF h0 ft(2)]
  have l3: "load_urb u s3 = Some v" using ft(2) by (simp add: prepared_def)
  have po: "ports_ok s3" using inv(2) idle_local(3) [OF i3] by simp
  have o3: "oom s3 = []" using ft(2) calm(1) by (simp add: prepared_def)
  obtain a q t where a: "process_urb_attempt P v u 0 s3 = Some (a, q, t)" and
    post: "case a of
       Inl e \<Rightarrow> e = InvalidArgument ''address'' \<and> u_devadr v > 0x7f \<and> t = s3
     | Inr ok \<Rightarrow>
         if ok then (port_of (u_devadr v) (l_port_info s3) = 0 \<and> hcd_inv t \<and> keeps s3 t \<and> memory_only s3 t) \<or> urb_queued P u v s3 t
         else held t q \<and> keeps s3 t \<and> memory_only s3 t \<and> length (oom t) < length (oom s3)"
    using process_urb_attempt_spec [OF h3 l3 refl po, of P] by blast
  have ok: "a = Inr True" using post w(2) f(4) o3 by (cases a) (auto split: if_splits)
  have run: "bg_process_urb P res w 0 False s = Some (Inr (), t)"
    using al(1) u(1,2) ft(1) r0 a ok by (subst bg_process_urb.simps) simp
  have d: "u_devadr v = u_devadr w" "l_port_info s3 = l_port_info s" using f(4) idle_local(1) [OF i3] by simp_all
  have fin: "if port_of (u_devadr w) (l_port_info s) = 0 then hcd_inv t \<and> t = s3 \<and> q = 0 else urb_queued P u v s3 t"
  proof (cases "port_of (u_devadr w) (l_port_info s) = 0")
    case True
    have "port_from_address (u_devadr v) s3 = Some (Inr 0)"
      using port_from_address_run(1) [OF po, of "u_devadr v"] True d w(2) by simp
    then have "q = 0" "t = s3" using a by (simp_all add: process_urb_attempt_def delete_work_def)
    then show ?thesis using True post ok d by (auto simp: urb_queued_def unat_eq_zero)
  next
    case False
    then show ?thesis using post ok d by simp
  qed
  have "heap s \<subseteq>\<^sub>m heap s3" "heap s u = None" "\<forall>x \<in> urb_blocks v. heap s x = None"
    using ft(2) u(3) by (simp_all add: prepared_def fresh_object_def)
  then show thesis by (rule that [OF run w2(2) u(2) _ a3 _ _ l3 i3 pv a [unfolded ok] fin])
qed

text \<open>An attempt that ends without a work object.\<close>

lemma attempt_without_work:
  assumes "heap_ok s \<and> ports_ok s" "process_urb_attempt P v u 0 s = Some (Inr False, 0, t)"
  shows "heap t = heap s" "brk t = brk s" "port_of (u_devadr v) (l_port_info s) \<noteq> 0" "\<not> u_devadr v > 0x7f"
proof -
  note look = port_from_address_run [of s "u_devadr v"]
  show adr: "\<not> u_devadr v > 0x7f"
    using assms look(1) by (auto simp: process_urb_attempt_def)
  define index :: u8 where "index = of_nat (port_of (u_devadr v) (l_port_info s))"
  have look': "port_from_address (u_devadr v) s = Some (Inr index)"
    using assms(1) look(1) adr by (simp add: index_def)
  have ix: "index \<noteq> 0"
    using assms(2) look' by (auto simp: process_urb_attempt_def delete_work_def split: if_splits)
  have "index = 0" if "port_of (u_devadr v) (l_port_info s) = 0" using that by (simp add: index_def)
  with ix show "port_of (u_devadr v) (l_port_info s) \<noteq> 0" by blast
  obtain p s1 where al: "alloc (Bytes []) s = (p, s1)" by fastforce
  have ok: "heap_ok s" using assms(1) by simp
  have enq: "(\<exists>e y. enqueue_work (brk s) x = (Inl e, y)) \<or> (\<exists>y. enqueue_work (brk s) x = (Inr (), y))"
    for x :: "('a, 'b) local_hcd_scheme"
    by (cases "enqueue_work (brk s) x"; cases "fst (enqueue_work (brk s) x)") auto
  from ok al show "heap t = heap s" "brk t = brk s"
  proof (atomize (full), cases rule: alloc_cases)
    case fail
    then show "heap t = heap s \<and> brk t = brk s"
      using assms(2) look' ix al by (simp add: process_urb_attempt_def new_object_nothrow_def)
  next
    case ok
    then show "heap t = heap s \<and> brk t = brk s"
      using assms(2) look' ix al
      by (auto simp: process_urb_attempt_def new_object_nothrow_def work_block_def construct_def store_def
        Option.bind_eq_Some_conv split: sum.splits prod.splits option.splits if_splits)
        (use enq in blast)+
  qed
qed

lemma foreign_urb:
  fixes s :: "('e, 'z) local_hcd_scheme"
  assumes inv: "hcd_inv s" "ports_ok s" and msg: "message_ok w" "fetch_data_ok P" and mem: "oom s = []"
    and w: "\<not> mislaid P res w s" and run: "bg_process_urb P res w 0 False s = Some (r, t)"
  shows "foreign t = foreign s"
proof -
  have c: "\<not> h_thread_shutdown s" "True \<notin> set (naps s)" "\<not> bad_urb P w" "\<not> u_devadr w > 0x7f"
    "\<not> (res \<noteq> 0 \<and> fetch_refused P s w)" "port_of (u_devadr w) (l_port_info s) \<noteq> 0"
    using w by (simp_all add: mislaid_def)
  from bg_urb_calm [OF inv msg mem c(1-5)] obtain u v q s3 t' where
    b: "bg_process_urb P res w 0 False s = Some (Inr (), t')" "u \<noteq> 0"
      "heap s \<subseteq>\<^sub>m heap s3" "adds s (insert u (urb_blocks v)) s3" "heap s u = None" "\<forall>x \<in> urb_blocks v. heap s x = None"
      "load_urb u s3 = Some v" "idle s s3" "process_urb_attempt P v u 0 s3 = Some (Inr True, q, t')"
      "urb_queued P u v s3 t'"
    using c(6) by (metis (no_types, lifting))
  have t: "t' = t" using b(1) run by simp
  note h = attempt_heap [OF b(9) adds_ok [OF b(4)] b(2)]
  obtain q' index where q': "h_inbox t = h_inbox s @ [q']" "h_processing t = h_processing s"
    "load_work q' t = Some (urb_work index u)" "load_urb u t = Some (answered P v)"
    using b(8,10) by (auto simp: urb_queued_def idle_def t)
  have fp: "work_footprint t q' = insert q' (insert u (urb_blocks v))"
    using q'(3,4) by (simp add: work_footprint_def urb_footprint_def urb_work_def)
  have ne: "heap s3 x \<noteq> None" if "x \<in> insert u (urb_blocks v)" for x
    using b(4) that by (auto simp: adds_def)
  have h3: "h_inbox s3 = h_inbox s" using b(8) by (simp add: idle_def)
  have "q \<noteq> 0" using h(3) h3 q'(1) t by (cases "q = 0") simp_all
  then have q: "q' = q" "heap s3 q = None" using h(3) q'(1) h3 t by simp_all
  then have "heap s q = None" using b(3) by (metis domIff map_le_def)
  show ?thesis
  proof (rule foreign_enqueued)
    show "works_ok s (hcd_owned s)" using inv(1) by (simp add: hcd_inv_def)
    show "set (hcd_owned t) = insert q (set (hcd_owned s))" using q'(1,2) q(1) by (auto simp: hcd_owned_def)
    show "heap s \<subseteq>\<^sub>m heap t"
      using b(3,5) h(2) t by (auto simp: map_le_def) (metis domI domIff)
    show "dom (heap t) = dom (heap s) \<union> work_footprint t q"
      using fp b(4) h(1) t q(1) \<open>q \<noteq> 0\<close> by (auto simp: adds_def)
    show "work_footprint t q \<inter> dom (heap s) = {}"
      using fp q(1) \<open>heap s q = None\<close> b(5,6) by auto
  qed
qed

section \<open>The other calls while memory lasts\<close>

text \<open>A work without a URB.\<close>

lemma new_work_calm:
  assumes "oom s = []" "brk s \<noteq> 0"
  shows "new_object (work_block (Inr w)) s =
    Some (Inr (brk s), s\<lparr>heap := (heap s)(brk s \<mapsto> WorkObj w), brk := Suc (brk s)\<rparr>)"
  using assms by (simp add: new_object_def alloc_def alloc_fails_def work_block_def construct_def store_def)

lemma foreign_plain:
  assumes inv: "hcd_inv s" and w: "plain_kind (w_kind w)"
    and t: "heap t = (heap s)(brk s \<mapsto> WorkObj w)" "set (hcd_owned t) = insert (brk s) (set (hcd_owned s))"
  shows "foreign t = foreign s"
proof (rule foreign_enqueued)
  have ok: "heap_ok s" using inv by (simp add: hcd_inv_def)
  note n = heap_ok_fresh [OF ok]
  have "brk s \<noteq> 0" using ok by (simp add: heap_ok_def)
  then have fp: "work_footprint t (brk s) = {brk s}"
    using t(1) w by (cases "w_kind w") (auto simp: work_footprint_def load_work_Some split: option.split)
  show "works_ok s (hcd_owned s)" using inv by (simp add: hcd_inv_def)
  show "heap s \<subseteq>\<^sub>m heap t" using n t(1) by (auto simp: map_le_def)
  show "dom (heap t) = dom (heap s) \<union> work_footprint t (brk s)" using fp t(1) by auto
  show "work_footprint t (brk s) \<inter> dom (heap s) = {}" using fp n by auto
qed (rule t(2))

lemma foreign_port_stat:
  fixes s :: "('e, 'z) local_hcd_scheme"
  assumes inv: "hcd_inv s" "port_ok index s" and mem: "oom s = []"
    and run: "bg_port_stat P index nps 0 False s = Some (r, t)"
  shows "foreign t = foreign s"
proof -
  let ?w = "port_stat_work_of P index nps (pi_stat (port_at index s))"
  have b: "brk s \<noteq> 0" using inv(1) by (simp add: hcd_inv_def heap_ok_def)
  have w: "port_stat_work_prev_ctor P index nps (pi_stat (port_at index s)) = Inr ?w" "plain_kind (w_kind ?w)"
    using inv(2) port_stat_work_prev_ctor_ok [of index] by (auto simp: port_ok_def port_stat_work_of_def)
  have "heap t = (heap s)(brk s \<mapsto> WorkObj ?w) \<and> h_inbox t = h_inbox s @ [brk s] \<and> h_processing t = h_processing s"
    using run w port_entry_at [OF inv(2)] new_work_calm [OF mem b, of ?w] mem
    by (subst (asm) bg_port_stat.simps)
      (auto simp: port_stat_attempt_def enqueue_work_def alloc_fails_def on_work_enqueued_def set_port_entry_def
        split: bind_splits)
  then show ?thesis by (intro foreign_plain [OF inv(1) w(2)]) (auto simp: hcd_owned_def)
qed

lemma foreign_mark:
  assumes "hcd_inv s" "load_work p s = Some w" "heap t = heap (mark p s)" "hcd_owned t = hcd_owned s"
    and "p \<in> set (hcd_owned s)"
  shows "foreign t = foreign s"
proof -
  have ws: "works_ok s (hcd_owned s)" using assms(1) by (simp add: hcd_inv_def)
  have "footprints t (hcd_owned s) = footprints s (hcd_owned s)"
    using heap_determines(4) [OF assms(3)] mark_works_ok(2) [OF assms(2) ws] by simp
  moreover have "p \<in> footprints s (hcd_owned s)"
    using assms(2,5) by (force simp: footprints_def work_footprint_def)
  ultimately show ?thesis using assms(3,4) by (auto simp: foreign_def restrict_map_def fun_eq_iff)
qed

lemma foreign_cancel:
  fixes s :: "('e, 'z) local_hcd_scheme"
  assumes inv: "hcd_inv s" and mem: "oom s = []"
    and run: "cancel_process_urb_work (local_canceling_work P) (local_finishing_work P) h s = Some (r, t)"
  shows "foreign t = foreign s"
proof -
  note spec = local_hooks.cancel_spec [OF inv, of P h]
  show ?thesis
  proof (cases "List.find (has_handle s h) (h_inbox s)")
    case (Some p)
    then have p: "p \<in> set (h_inbox s)" "has_handle s h p" using find_SomeD by fast+
    then obtain w where w: "load_work p s = Some w" by (auto elim: has_handle_owned)
    have "heap t = heap (mark p s)" "hcd_owned t = hcd_owned s"
      using spec Some run by (auto simp: hcd_owned_def split: if_splits)
    then show ?thesis using foreign_mark [OF inv w] p(1) by (simp add: hcd_owned_def)
  next
    case None
    show ?thesis
    proof (cases "List.find (has_handle s h) (h_processing s)")
      case None2: None
      then show ?thesis using spec None run by simp
    next
      case (Some p)
      then have p: "p \<in> set (h_processing s)" "has_handle s h p" using find_SomeD by fast+
      then obtain w q u where w: "load_work p s = Some w" "w_kind w = ProcessUrbWork q"
          "load_urb q s = Some u" by (auto elim: has_handle_owned)
      have c: "local_canceling_work P p True s = Some (case r of Inl e \<Rightarrow> Inl e | Inr _ \<Rightarrow> Inr (), t)"
        using spec None Some run by auto
      have b: "brk s \<noteq> 0" using inv by (simp add: hcd_inv_def heap_ok_def)
      have "work_object s p" using inv p(1) by (simp add: hcd_inv_def works_ok_def hcd_owned_def)
      then have port: "w_port w \<noteq> 0" using w(1) by (simp add: work_object_def)
      let ?w = "cancel_work_of w u"
      have "heap t = (heap s)(brk s \<mapsto> WorkObj ?w) \<and> h_inbox t = h_inbox s @ [brk s] \<and> h_processing t = h_processing s"
        using c w cancel_urb_work_ctor_ok [OF port, of u] new_work_calm [OF mem b, of ?w] mem
        by (auto simp: local_canceling_work_def enqueue_work_def alloc_fails_def on_work_enqueued_def)
      then show ?thesis by (intro foreign_plain [OF inv, of ?w]) (auto simp: hcd_owned_def cancel_work_of_def)
    qed
  qed
qed

lemma foreign_next_work:
  assumes inv: "hcd_inv s" and mem: "oom s = []" and run: "next_work s = Some (r, t)"
  shows "foreign t = foreign s"
proof -
  let ?gone = "takeWhile (is_canceled s) (h_inbox s)"
  note own = next_work_owned [OF inv run refl]
  define live where "live = dropWhile (is_canceled s) (h_inbox s)"
  have i: "h_inbox s = ?gone @ live" by (simp add: live_def)
  have "set live \<union> set (h_processing s) = set (hcd_owned t)"
    using next_work_spec [OF inv refl live_def] run mem by (cases live) (auto simp: alloc_fails_def hcd_owned_def)
  moreover have "set (hcd_owned s) = set ?gone \<union> (set live \<union> set (h_processing s))"
    unfolding hcd_owned_def by (subst i) auto
  ultimately have "set (hcd_owned s) = set (?gone @ hcd_owned t)" by simp
  then show ?thesis by (rule foreign_removed [OF inv own(3) _ own(2)])
qed

lemma foreign_finish_work:
  fixes s :: "('e, 'z) local_hcd_scheme"
  assumes inv: "hcd_inv s" "p \<in> set (h_processing s)"
    and run: "finish_work (local_finishing_work P) p s = Some (r, t)"
  shows "foreign t = foreign s"
proof -
  have "local_ready P p s" using local_hooks.finish_work_fault [OF inv] run by fastforce
  from local_hooks.finish_work_spec [OF inv this] run have
    t: "heap t = heap s |` (- footprints s [p])" "h_inbox t = h_inbox s" "h_processing t = removeAll p (h_processing s)"
    by auto
  have "distinct (hcd_owned s)" using inv(1) by (simp add: hcd_inv_def works_ok_def)
  then show ?thesis
    using inv(2) t(2,3) by (intro foreign_removed [OF inv(1) t(1)]) (auto simp: hcd_owned_def distinct_removeAll)
qed

lemma foreign_bg_work:
  fixes s :: "('e, 'z) local_hcd_scheme"
  assumes kernel: "kernel_ok P" and inv: "local_inv s" and mem: "oom s = []"
    and ok: "orderly_message P s" and run: "bg_work P s = Some (r, t)"
  shows "foreign t = foreign s"
proof -
  have k: "work_types_ok P" "fetch_data_ok P"
    "\<And>fd n e kw. snd (p_fetch_work P fd n e) = Inr kw \<Longrightarrow>
        0 \<le>s iu_buffer_length (iw_urb kw) \<and> 0 \<le>s iu_packet_count (iw_urb kw)"
    using kernel abi_ok_parts(1) [of P] by (auto simp: kernel_ok_def)
  have d: "distinct [WORK_TYPE_PORT_STAT P, WORK_TYPE_PROCESS_URB P, WORK_TYPE_CANCEL_URB P]"
    using k(1) by (simp add: work_types_ok_def)
  have env: "foreign (s\<lparr>env := e\<rparr>) = foreign s" "hcd_inv (s\<lparr>env := e\<rparr>)" "ports_ok (s\<lparr>env := e\<rparr>)" for e
  proof -
    have "local_inv (s\<lparr>env := e\<rparr>)" using inv by (simp add: local_inv_env)
    then show "foreign (s\<lparr>env := e\<rparr>) = foreign s" "hcd_inv (s\<lparr>env := e\<rparr>)" "ports_ok (s\<lparr>env := e\<rparr>)"
      using foreign_cong [of "s\<lparr>env := e\<rparr>" s] by (simp_all add: local_inv_def hcd_owned_def)
  qed
  from k(1) show ?thesis
  proof (cases rule: fetch_work_cases [where work = uninit_work and fd = "l_fd s" and s = s])
    case (none w e err)
    then have "t = s\<lparr>env := e, errno := err\<rparr>" using run by (simp add: bg_work_def)
    then show ?thesis by (intro foreign_cong) (simp_all add: hcd_owned_def)
  next
    case (port ps e)
    let ?s = "s\<lparr>env := e\<rparr>"
    show ?thesis
    proof (cases "ps_index ps = 0 \<or> ps_index ps > h_port_count s")
      case True
      then have "t = ?s" using run port by (auto simp: bg_work_def Let_def)
      then show ?thesis by (simp add: env(1))
    next
      case False
      then have "port_ok (ps_index ps) ?s"
        using env(3) by (simp add: port_ok_def ports_ok_def word_le_nat_alt not_less)
      from foreign_port_stat [OF env(2) this] show ?thesis
        using False run port mem env(1) by (auto simp: bg_work_def Let_def)
    qed
  next
    case (urb kw u res e)
    have "message_ok u" using fetched_message_ok [OF urb(4,5) _ _ urb(6)] k(3) [OF urb(3)] by blast
    moreover have "bg_process_urb P res u 0 False (s\<lparr>env := e\<rparr>) = Some (r, t)"
      using urb(1,2) d run by (auto simp: bg_work_def)
    moreover have "\<not> mislaid P res u (s\<lparr>env := e\<rparr>)" using ok urb(1) by (simp add: orderly_message_def)
    ultimately show ?thesis using foreign_urb [OF env(2,3), of u P e res r t] k(2) mem env(1) by simp
  next
    case (cancel h e)
    then obtain r' where "cancel_process_urb_work (local_canceling_work P) (local_finishing_work P) h (s\<lparr>env := e\<rparr>) = Some (r', t)"
      using run d by (auto simp: bg_work_def split: bind_splits)
    then show ?thesis using foreign_cancel [OF env(2)] mem env(1) by simp
  qed
qed

lemma foreign_call:
  fixes s :: "('e, 'z) local_hcd_scheme"
  assumes kernel: "kernel_ok P" and inv: "local_inv s" and mem: "oom s = []"
    and c: "permitted c s" "orderly_call P c s" "perform P c s = Some (r, t)"
  shows "foreign t = foreign s"
proof (cases c)
  case Background
  then show ?thesis using foreign_bg_work [OF kernel inv mem] c by simp
next
  case NextWork
  have hi: "hcd_inv s" using inv by (simp add: local_inv_def)
  obtain r' where "next_work s = Some (r', t)" using c(3) NextWork no_value_Some by fastforce
  then show ?thesis by (rule foreign_next_work [OF hi mem])
next
  case (FinishWork p)
  have hi: "hcd_inv s" using inv by (simp add: local_inv_def)
  show ?thesis using foreign_finish_work [OF hi, of p P r t] c FinishWork by simp
next
  case (CancelUrb h)
  have hi: "hcd_inv s" using inv by (simp add: local_inv_def)
  obtain r' where "cancel_process_urb_work (local_canceling_work P) (local_finishing_work P) h s = Some (r', t)"
    using c(3) CancelUrb no_value_Some by fastforce
  then show ?thesis by (rule foreign_cancel [OF hi mem])
next
  case (Notify port ev)
  then have "env_only s t"
    using c(3) port_call_frame [of P "l_fd s" port ev s]
    by (auto simp: local_port_call_notify port_notify_def split: sum.splits prod.splits if_splits)
  then show ?thesis by (intro foreign_cong) (auto simp: env_only_def hcd_owned_def)
next
  case (AddCallback cb)
  then show ?thesis
    using c(3) by (intro foreign_cong)
      (auto simp: add_work_enqueued_callback_def alloc_fails_def hcd_owned_def split: list.splits bool.splits)
next
  case (RemoveCallback cb)
  then show ?thesis
    using c(3) by (intro foreign_cong) (auto simp: remove_work_enqueued_callback_def hcd_owned_def)
qed

text \<open>The array of ports stays where it is.\<close>

lemma perform_port_block:
  assumes "kernel_ok P" "local_inv s" "permitted c s" "perform P c s = Some (r, t)"
  shows "l_port_block t = l_port_block s"
proof -
  have hi: "hcd_inv s" using assms(2) by (simp add: local_inv_def)
  have frame: "l_port_block t = l_port_block s" if "hcd_frame s t"
    using hcd_frame_local(2) [OF that] by (simp add: steady_def)
  have effect: "l_port_block t = l_port_block s" if "bg_effect np s t" for np
    using that by (simp add: bg_effect_def steady_def)
  show ?thesis
  proof (cases c)
    case Background
    then show ?thesis using bg_work_run [OF assms(2,1)] assms(4) effect by auto
  next
    case NextWork
    then obtain r' where "next_work s = Some (r', t)" using assms(4) no_value_Some by fastforce
    then show ?thesis using frame next_work_frame(1) [OF hi] by blast
  next
    case (FinishWork w)
    have w: "w \<in> set (h_processing s)" using assms(3) FinishWork by simp
    have "local_ready P w s"
      using local_hooks.finish_work_fault [OF hi w, of P] assms(4) FinishWork by auto
    from local_hooks.finish_work_spec [OF hi w this] show ?thesis using assms(4) FinishWork frame by auto
  next
    case (CancelUrb h)
    then obtain r' where "cancel_process_urb_work (local_canceling_work P) (local_finishing_work P) h s = Some (r', t)"
      using assms(4) no_value_Some by fastforce
    then show ?thesis using bg_cancel_effect [OF assms(2), of P h] effect by auto
  next
    case (Notify port ev)
    then have "env_only s t"
      using assms(4) port_call_frame [of P "l_fd s" port ev s]
      by (auto simp: local_port_call_notify port_notify_def split: sum.splits prod.splits if_splits)
    then show ?thesis by (auto simp: env_only_def)
  next
    case (AddCallback cb)
    then show ?thesis
      using assms(4) by (auto simp: add_work_enqueued_callback_def alloc_fails_def split: list.splits bool.splits)
  next
    case (RemoveCallback cb)
    then show ?thesis using assms(4) by (auto simp: remove_work_enqueued_callback_def)
  qed
qed

section \<open>Properties\<close>

text \<open>
  C9. No memory leaks while memory lasts. Wherever a program is, a call of the user or a round of the background
  thread for which no allocation fails, and that drops no message, leaves the memory that the queues do not
  own exactly as it was: it touches no block of somebody else, nor the array of ports, and each block it allocates is
  freed or owned by a work in one of the queues; and then the destructor of the controller, which frees the array,
  leaves nothing but the rest of that memory.
\<close>

theorem calls_leak_nothing:
  assumes "runs P ports s" and "kernel_ok P" and "files_ok P" and "permitted c s"
    and "oom s = []" and "orderly_call P c s" and "perform P c s = Some (r, t)" and "survives c r"
  shows "foreign t = foreign s \<and>
    (\<exists>u. local_hcd_dtor P t = Some u \<and> heap u = (foreign s)(l_port_block s := None))"
proof -
  have inv: "local_inv s" using runs_inv [OF assms(1-3)] by (simp add: sys_inv_def)
  have f: "foreign t = foreign s" by (rule foreign_call [OF assms(2) inv assms(5,4,6,7)])
  have b: "l_port_block t = l_port_block s" by (rule perform_port_block [OF assms(2) inv assms(4,7)])
  have "runs P ports t" by (rule runs.step [OF assms(1) sys_step.call [OF assms(4,7,8)]])
  from runs_inv [OF this assms(2,3)] have "local_inv t" by (simp add: sys_inv_def)
  moreover obtain n where "close_outcome P (l_fd t) n (env t) \<noteq> Inl EINTR"
    using assms(3) unfolding files_ok_def by blast
  ultimately obtain u where u: "local_hcd_dtor P t = Some u" "heap u = heap t |` (- local_blocks t)"
    using local_hcd_dtor_run by blast
  have "heap u = (foreign t)(l_port_block s := None)"
    unfolding u(2) by (auto simp: foreign_def local_blocks_def b restrict_map_def fun_eq_iff)
  then show ?thesis using f u(1) by simp
qed

text \<open>
  C34. A URB for an address that no port has is lost, and so is its memory. The code means to delete it
  (\<^verbatim>\<open>delete puw\<close>), but no work object owns it at that point: \<open>bg_work\<close> returns without having enqueued anything or
  told the kernel anything, and the new URB object, its data buffer and its packets stay behind as the
  only blocks that are new, owned by nobody.
\<close>

theorem unaddressed_urb_leaks:
  fixes s :: "('e, 'z) local_hcd_scheme"
  assumes "local_inv s" and "message_ok w" and "fetch_data_ok P" and "books P taken given"
    and "oom s = []" and "\<not> h_thread_shutdown s" and "True \<notin> set (naps s)"
    and "\<not> bad_urb P w" and "\<not> u_devadr w > 0x7f" and "\<not> (res \<noteq> 0 \<and> fetch_refused P s w)"
    and "port_of (u_devadr w) (l_port_info s) = 0"
  shows "\<exists>t u v. bg_process_urb P res w 0 False s = Some (Inr (), t) \<and>
    hcd_owned t = hcd_owned s \<and> owed t = owed s \<and> given (env t) = given (env s) \<and>
    load_urb u t = Some v \<and> same_message w v \<and> pointed v \<and> insert u (urb_blocks v) \<inter> dom (heap s) = {} \<and>
    dom (foreign t) = dom (foreign s) \<union> insert u (urb_blocks v)"
proof -
  have hi: "hcd_inv s" "ports_ok s" using assms(1) by (simp_all add: local_inv_def)
  from bg_urb_calm [OF hi assms(2,3,5-10)] obtain u v q s3 t where
    b: "bg_process_urb P res w 0 False s = Some (Inr (), t)" "same_message w v" "u \<noteq> 0"
      "heap s \<subseteq>\<^sub>m heap s3" "adds s (insert u (urb_blocks v)) s3" "heap s u = None" "\<forall>x \<in> urb_blocks v. heap s x = None"
      "load_urb u s3 = Some v" "idle s s3" "pointed v" "t = s3"
    using assms(11) by (metis (no_types, lifting))
  have ws: "works_ok s (hcd_owned s)" using hi(1) by (simp add: hcd_inv_def)
  have own: "hcd_owned t = hcd_owned s" using idle_owned [OF b(9)] b(11) by simp
  then have fp: "footprints t (hcd_owned t) = footprints s (hcd_owned s)"
    using works_ok_extend(2) [OF ws b(4)] b(11) by simp
  have new: "insert u (urb_blocks v) \<inter> dom (heap s) = {}" using b(6,7) by auto
  moreover have "insert u (urb_blocks v) \<inter> footprints s (hcd_owned s) = {}"
    using new footprints_live [OF ws] by (force simp: domIff)
  then have "dom (foreign t) = dom (foreign s) \<union> insert u (urb_blocks v)"
    using b(5,11) unfolding foreign_def fp by (auto simp: adds_def)
  moreover have "owed t = owed s" by (rule owed_idle [OF hi(1)]) (use b(9,11) in \<open>simp_all add: idle_def\<close>)
  moreover have "given (env t) = given (env s)"
    using bg_process_urb_observed [OF booksD(2) [OF assms(4)] b(1)] by simp
  ultimately show ?thesis using b(1,2,8,10,11) own by (intro exI [of _ t] exI [of _ u] exI [of _ v]) simp
qed

text \<open>
  C35. A retry leaks the URB it has made. Take any round in which the URB object and its blocks were allocated and its
  data, if it has any, was fetched, but there was no memory for the work that is to own it
  (the attempt under the lock answers with neither an exception nor a work object). The code waits and begins again,
  and forgets the URB. Once memory is back (no allocation fails any more, and nobody stops the thread), the message is
  enqueued with another URB object. The first one stays behind with its data buffer and its packets, as the only
  blocks that are new and owned by nobody.
\<close>

theorem retry_leaks_urb:
  fixes s :: "('e, 'z) local_hcd_scheme"
  assumes "local_inv s" and "message_ok w" and "fetch_data_ok P"
    and "alloc_urb P w s = Some (Inr u, v, s2)" and "u \<noteq> 0"
    and "if res = 0 then s3 = s2 else usb_vhci_fetch_data P (l_fd s) v s2 = Some (0, s3)"
    and "process_urb_attempt P v u 0 s3 = Some (Inr False, 0, s4)"
    and "oom s4 = []" and "\<not> h_thread_shutdown s" and "True \<notin> set (naps s)"
  shows "\<exists>t q index u' v'. bg_process_urb P res w 0 False s = Some (Inr (), t) \<and> h_inbox t = h_inbox s @ [q] \<and>
    load_work q t = Some (urb_work index u') \<and> load_urb u' t = Some (answered P v') \<and> same_message w v' \<and>
    u' \<noteq> u \<and> insert u (urb_blocks v) \<inter> dom (heap s) = {} \<and>
    dom (foreign t) = dom (foreign s) \<union> insert u (urb_blocks v) \<and> foreign t u = Some (UrbObj v)"
proof -
  have hi: "hcd_inv s" "ports_ok s" using assms(1) by (simp_all add: local_inv_def)
  have ok: "heap_ok s" "works_ok s (hcd_owned s)" using hi(1) by (simp_all add: hcd_inv_def)
  note rd = round_without_work [OF hi assms(2-7)]
  have h4: "heap s4 = heap s3" "brk s4 = brk s3" "port_of (u_devadr v) (l_port_info s3) \<noteq> 0" "\<not> u_devadr v > 0x7f"
    using attempt_without_work [OF _ assms(7)] rd(8) idle_local(3) [OF prepared_idle [OF ok(2) rd(8)]] hi(2)
    by (simp_all add: prepared_def)
  let ?s5 = "usleep s4"
  have s5: "heap ?s5 = heap s3" "hcd_owned ?s5 = hcd_owned s" "h_inbox ?s5 = h_inbox s" "oom ?s5 = []"
    "l_port_info ?s5 = l_port_info s" "h_port_count ?s5 = h_port_count s" "brk ?s5 = brk s4"
    "\<not> h_thread_shutdown ?s5" "True \<notin> set (naps ?s5)"
    using h4(1) rd(3) idle_local(1) [OF rd(3)] idle_owned [OF rd(3)] assms(8-10)
    by (auto simp: usleep_def idle_def hcd_owned_def split: list.split)
  have "bg_process_urb P 0 v 0 True s4 = bg_process_urb P 0 v 0 False ?s5"
    using s5(8) by (subst (1 2) bg_process_urb.simps) simp
  then have run: "bg_process_urb P res w 0 False s = bg_process_urb P 0 v 0 False ?s5" using rd(1) by simp
  have "hcd_inv s4" using rd(2) by (simp add: held_inv)
  then have hi5: "hcd_inv ?s5" "ports_ok ?s5"
    using heap_determines(6) [of ?s5 s4] s5(1,2,5-7) h4(1) idle_owned [OF rd(3)] hi(2)
    by (simp_all add: hcd_inv_def ports_ok_def heap_ok_def)
  have adr: "port_of (u_devadr v) (l_port_info ?s5) \<noteq> 0"
    using h4(3) s5(5) idle_local(1) [OF prepared_idle [OF ok(2) rd(8)]] by simp
  have bad: "\<not> bad_urb P v" using rd(11) same_message_fields(11) [OF rd(5), of P] by simp
  have z: "\<not> ((0 :: i32) \<noteq> 0 \<and> fetch_refused P ?s5 v)" by simp
  from bg_urb_calm [OF hi5 rd(6) assms(3) s5(4,8,9) bad h4(4) z] obtain u' v' s6 t where
    t: "bg_process_urb P 0 v 0 False ?s5 = Some (Inr (), t)" "same_message v v'" "idle ?s5 s6" "urb_queued P u' v' s6 t"
    using adr by (metis (no_types, lifting))
  obtain q index where q: "h_inbox t = h_inbox s @ [q]" "load_work q t = Some (urb_work index u')"
    "load_urb u' t = Some (answered P v')" "hcd_inv t"
    using t(3,4) s5(3) by (auto simp: urb_queued_def idle_def)
  have "\<not> mislaid P 0 v ?s5" using s5(8,9) bad h4(4) adr by (simp add: mislaid_def)
  from foreign_urb [OF hi5 rd(6) assms(3) s5(4) this t(1)] have ft: "foreign t = foreign ?s5" .
  have um: "urb_mem s2 v" by (rule fresh_object_urb(2) [OF rd(13,6) waited_ok [OF rd(12)]])
  have "dom (heap s3) = dom (heap s2)"
    using assms(6) fetched_dom [OF rd(9) um assms(3)] by (auto split: if_splits)
  moreover have "adds s (insert u (urb_blocks v)) s2"
    by (rule adds_alloc_urb [OF assms(4,5) ok(1) assms(2)])
  ultimately have d: "dom (heap s3) = dom (heap s) \<union> insert u (urb_blocks v)" by (simp add: adds_def)
  have new: "insert u (urb_blocks v) \<inter> dom (heap s) = {}"
    using rd(13) by (auto simp: fresh_object_def)
  have ext: "heap s \<subseteq>\<^sub>m heap ?s5" "load_urb u s3 = Some v" using rd(8) s5(1) by (simp_all add: prepared_def)
  have fp: "footprints ?s5 (hcd_owned s) = footprints s (hcd_owned s)" by (rule works_ok_extend(2) [OF ok(2) ext(1)])
  have out: "insert u (urb_blocks v) \<inter> footprints s (hcd_owned s) = {}"
    using new footprints_live [OF ok(2)] by (force simp: domIff)
  have "foreign ?s5 = heap s3 |` (- footprints s (hcd_owned s))"
    unfolding foreign_def s5(1,2) fp ..
  then have f5: "foreign t = heap s3 |` (- footprints s (hcd_owned s))" using ft by (rule trans [rotated])
  have dom: "dom (foreign t) = dom (foreign s) \<union> insert u (urb_blocks v)"
    unfolding f5 using d out by (auto simp: foreign_def)
  have fu: "foreign t u = Some (UrbObj v)"
    unfolding f5 using ext(2) out by (simp add: load_urb_Some)
  have "q \<in> set (hcd_owned t)" using q(1) by (simp add: hcd_owned_def)
  then have "u' \<in> footprints t (hcd_owned t)"
    using q(2,3) by (force simp: footprints_def work_footprint_def urb_work_def urb_footprint_def)
  then have "u' \<noteq> u" using fu by (auto simp: foreign_def)
  then show ?thesis
    using run t(1) q(1-3) same_message_trans [OF rd(5) t(2)] new dom fu
    by (intro exI [of _ t] exI [of _ q] exI [of _ index] exI [of _ u'] exI [of _ v']) simp
qed

section \<open>Witnesses\<close>

text \<open>The controller of \<open>Local_Account\<close> receives the end of a reset, and memory lasts.\<close>

theorem calls_leak_nothing_witness:
  "\<exists>s t :: log local_hcd. runs started_platform 2 s \<and> bg_work started_platform s = Some (Inr (), t) \<and>
     port_of 0 (l_port_info t) = 1 \<and> foreign t = foreign s"
proof -
  let ?P = started_platform
  note P = started_platform_ok
  obtain t :: "log local_hcd" where t: "runs ?P 2 t" "local_inv t" "env t = [Registered 2, Opened]"
    "\<not> h_thread_shutdown t" "h_port_count t = 2" "h_callbacks t = []"
    by (rule started_ctor) (simp add: fresh_hcd_def)
  let ?s = "t\<lparr>env := env t, errno := 0, oom := [], naps := []\<rparr>"
  have s: "runs ?P 2 ?s" by (rule runs.step [OF t(1) sys_step.world])
  then have "local_inv ?s" using runs_inv [OF _ P(1,2)] by (auto simp: sys_inv_def)
  from started_bg_port [OF this] t obtain u where u: "orderly_message ?P ?s" "bg_work ?P ?s = Some (Inr (), u)"
    "port_of 0 (l_port_info u) = 1" by auto
  have "foreign u = foreign ?s"
    using calls_leak_nothing [OF s P(1,2), of Background "Inr ()" u] u(1,2) by (simp add: survives_def)
  with s u(2,3) show ?thesis by blast
qed

text \<open>A transfer of three bytes to a device that does not exist.\<close>

theorem unaddressed_urb_leaks_witness:
  "\<exists>t u v. bg_process_urb plain_platform 1 (bulk_out_urb\<lparr>u_devadr := 9\<rparr>) 0 False (sample_addressed []) = Some (Inr (), t) \<and>
     hcd_owned t = [6, 5] \<and> log_given (env t) = {#} \<and>
     load_urb u t = Some v \<and> u_handle v = 9 \<and> u \<in> dom (foreign t) \<and> u_buffer v \<in> dom (foreign t) \<and> u_buffer v \<noteq> 0"
proof -
  let ?s = "sample_addressed []" and ?w = "bulk_out_urb\<lparr>u_devadr := 9\<rparr>"
  have n: "hcd_owned ?s = [6, 5]" "env ?s = []" "True \<notin> set (naps ?s)"
    "\<not> h_thread_shutdown ?s" "oom ?s = []"
    by (simp_all add: sample_addressed_def sample_local_def hcd_owned_def)
  have inv: "local_inv ?s"
    using sample_addressed_ok [of "[]"] by (simp add: local_inv_def adr_ok_def table_ok_def)
  have b: "books plain_platform (log_taken (Inl ETIMEDOUT)) log_given"
    unfolding plain_platform_def by (rule sample_books)
  have w: "u_devadr ?w = 9" "\<not> bad_urb plain_platform ?w" "message_ok ?w"
    "u_buffer_length ?w = 3" "u_packet_count ?w = 0" "u_handle ?w = 9"
    by (simp_all add: bulk_out_urb_def zero_urb_def bad_urb_def sample_platform_simps message_ok_def word_sle_eq)
  have r: "\<not> fetch_refused plain_platform ?s ?w"
    by (simp add: fetch_refused_def plain_platform_delivers w)
  have p: "port_of 9 (l_port_info ?s) = 0" by (simp add: sample_addressed_ok(3) port_of_def)
  from unaddressed_urb_leaks [OF inv w(3) plain_platform_ok b n(5,4,3) w(2), of 1] w(1) r p
  obtain t u v where t: "bg_process_urb plain_platform 1 ?w 0 False ?s = Some (Inr (), t)" "hcd_owned t = [6, 5]"
    "log_given (env t) = {#}" "load_urb u t = Some v" "same_message ?w v" "pointed v"
    "dom (foreign t) = dom (foreign ?s) \<union> insert u (urb_blocks v)"
    using n(1,2) by auto
  have v: "u_handle v = 9" "u_buffer v \<noteq> 0"
    using same_message_fields(1,5) [OF t(5)] w(4,6) t(6) by (simp_all add: pointed_def)
  then have "u_buffer v \<in> urb_blocks v" by (simp add: urb_blocks_def)
  with t v show ?thesis by blast
qed

text \<open>A transfer of three bytes while there is memory for the URB but not for the work.\<close>

theorem retry_leaks_urb_witness:
  "\<exists>t q u v. bg_process_urb plain_platform 1 bulk_out_urb 0 False (sample_addressed [False, False, True]) = Some (Inr (), t) \<and>
     h_inbox t = [6, q] \<and> foreign t u = Some (UrbObj v) \<and> u_handle v = 9 \<and> u_buffer v \<noteq> 0 \<and> u_buffer v \<in> dom (foreign t)"
proof -
  let ?s = "sample_addressed [False, False, True]"
  obtain u v and s2 s3 s4 :: "log local_hcd" where f:
    "alloc_urb plain_platform bulk_out_urb ?s = Some (Inr u, v, s2)" "u \<noteq> 0"
    "usb_vhci_fetch_data plain_platform (l_fd ?s) v s2 = Some (0, s3)"
    "process_urb_attempt plain_platform v u 0 s3 = Some (Inr False, 0, s4)" "oom s4 = []"
    using sample_first_round by metis
  have n: "h_inbox ?s = [6]" "True \<notin> set (naps ?s)" "\<not> h_thread_shutdown ?s"
    by (simp_all add: sample_addressed_def sample_local_def)
  have inv: "local_inv ?s"
    using sample_addressed_ok [of "[False, False, True]"] by (simp add: local_inv_def adr_ok_def table_ok_def)
  have one: "if (1 :: i32) = 0 then s3 = s2 else usb_vhci_fetch_data plain_platform (l_fd ?s) v s2 = Some (0, s3)"
    using f(3) by simp
  have w: "u_handle bulk_out_urb = 9" "u_buffer_length bulk_out_urb = 3"
    by (simp_all add: bulk_out_urb_def zero_urb_def)
  note rd = round_without_work [OF sample_addressed_ok(1,2) sample_messages_ok(2) plain_platform_ok f(1,2) one f(4)]
  have v: "u_handle v = 9" "u_buffer v \<noteq> 0"
    using same_message_fields(1,5) [OF rd(5)] rd(7) w by (simp_all add: pointed_def)
  then have "u_buffer v \<in> urb_blocks v" by (simp add: urb_blocks_def)
  moreover from retry_leaks_urb [OF inv sample_messages_ok(2) plain_platform_ok f(1,2) one f(4,5) n(3,2)] obtain t q where
    "bg_process_urb plain_platform 1 bulk_out_urb 0 False ?s = Some (Inr (), t)" "h_inbox t = h_inbox ?s @ [q]"
    "dom (foreign t) = dom (foreign ?s) \<union> insert u (urb_blocks v)" "foreign t u = Some (UrbObj v)"
    by blast
  ultimately show ?thesis
    using v n(1) by (intro exI [of _ t] exI [of _ q] exI [of _ u] exI [of _ v]) simp
qed

end
