(* ===== verification/Lock.thy ===== *)
theory Lock
  imports Vhci_Prelude
begin

text \<open>
  The class \<^verbatim>\<open>usb::vhci::lock\<close> (\<^verbatim>\<open>libusb_vhci.h\<close>): an object whose constructor takes a mutex and whose
  destructor gives it back, so that a block of code with such an object is a critical section.
  The other theories describe a critical section as one step, without its single accesses. Here that is justified: the
  accesses of the threads interleave, but the memory is always as if the sections had run
  one after the other, in the order in which they took the mutex.
\<close>

section \<open>The class\<close>

text \<open>
  A mutex of the default type: the thread that holds it. Taking a mutex that is held blocks, also
  for the holder itself (\<open>None\<close>: no step); only the holder may give it back.
\<close>

type_synonym mutex = "nat option"

definition lock_ctor :: "nat \<Rightarrow> mutex \<Rightarrow> mutex option" where
  "lock_ctor i m = (case m of None \<Rightarrow> Some (Some i) | Some _ \<Rightarrow> None)"

definition lock_dtor :: "nat \<Rightarrow> mutex \<Rightarrow> mutex option" where
  "lock_dtor i m = (if m = Some i then Some None else None)"

section \<open>Threads\<close>

text \<open>
  A critical section is the list of its accesses to the memory. A thread is outside, with the
  sections it still has to run, or inside of one, with the accesses that are left.
\<close>

type_synonym 's critical = "('s \<Rightarrow> 's) list"

datatype 's place =
    Outside "'s critical list"
  | Inside "'s critical" "'s critical list"

record 's conf =
  holder :: mutex
  place :: "nat \<Rightarrow> 's place"
  memory :: 's

definition run_section :: "'s critical \<Rightarrow> 's \<Rightarrow> 's" where
  "run_section as m = fold (\<lambda>a. a) as m"

lemma run_section_simps [simp]:
  "run_section [] m = m" "run_section (a # as) m = run_section as (a m)"
  "run_section (as @ bs) m = run_section bs (run_section as m)"
  by (simp_all add: run_section_def)

inductive micro :: "'s conf \<Rightarrow> 's conf \<Rightarrow> bool" where
  enter: "place c i = Outside (sec # secs) \<Longrightarrow> lock_ctor i (holder c) = Some h \<Longrightarrow>
    micro c (c\<lparr>holder := h, place := (place c)(i := Inside sec secs)\<rparr>)"
| access: "place c i = Inside (a # as) secs \<Longrightarrow>
    micro c (c\<lparr>place := (place c)(i := Inside as secs), memory := a (memory c)\<rparr>)"
| leave: "place c i = Inside [] secs \<Longrightarrow> lock_dtor i (holder c) = Some h \<Longrightarrow>
    micro c (c\<lparr>holder := h, place := (place c)(i := Outside secs)\<rparr>)"

inductive micros :: "'s conf \<Rightarrow> 's conf \<Rightarrow> bool" where
  refl: "micros c c"
| step: "micros c d \<Longrightarrow> micro d e \<Longrightarrow> micros c e"

definition conf_start :: "(nat \<Rightarrow> 's critical list) \<Rightarrow> 's \<Rightarrow> 's conf" where
  "conf_start prog m = \<lparr>holder = None, place = (\<lambda>i. Outside (prog i)), memory = m\<rparr>"

section \<open>Whole sections\<close>

text \<open>Executions in which a section is one step; \<open>who\<close> lists the threads in the order of their steps.\<close>

inductive serial ::
  "(nat \<Rightarrow> 's critical list) \<Rightarrow> 's \<Rightarrow> nat list \<Rightarrow> (nat \<Rightarrow> 's critical list) \<Rightarrow> 's \<Rightarrow> bool" where
  start: "serial prog m [] prog m"
| whole: "serial prog m who rest k \<Longrightarrow> rest i = sec # secs \<Longrightarrow>
    serial prog m (who @ [i]) (rest(i := secs)) (run_section sec k)"

section \<open>The invariant\<close>

text \<open>
  If the mutex is free, all threads are outside, and the memory is that of the serial execution; if it
  is held, only the holder is inside, and the memory is that of the serial execution after
  the accesses the holder has made so far.
\<close>

fun sections_left :: "'s place \<Rightarrow> 's critical list" where
  "sections_left (Outside secs) = secs"
| "sections_left (Inside as secs) = secs"

definition serialised :: "(nat \<Rightarrow> 's critical list) \<Rightarrow> 's \<Rightarrow> 's conf \<Rightarrow> bool" where
  "serialised prog m c \<longleftrightarrow>
     (case holder c of
        None \<Rightarrow>
          (\<exists>who rest. serial prog m who rest (memory c) \<and> place c = (\<lambda>i. Outside (rest i)))
      | Some h \<Rightarrow>
          (\<exists>who rest k made as secs. serial prog m who rest k \<and> rest h = (made @ as) # secs \<and>
             memory c = run_section made k \<and>
             place c = (\<lambda>i. Outside (rest i))(h := Inside as secs)))"

lemma serialised_start: "serialised prog m (conf_start prog m)"
  using serial.start [of prog m] by (fastforce simp: serialised_def conf_start_def)

lemma serialised_step:
  assumes "serialised prog m c" "micro c d"
  shows "serialised prog m d"
  using assms(2)
proof cases
  case (enter i sec secs h)
  then have h: "holder c = None" "h = Some i"
    by (auto simp: lock_ctor_def split: option.splits)
  then obtain who rest where r: "serial prog m who rest (memory c)" "place c = (\<lambda>i. Outside (rest i))"
    using assms(1) by (auto simp: serialised_def)
  then have "rest i = ([] @ sec) # secs" using enter(2) by simp
  then show ?thesis unfolding enter(1) serialised_def using r h by fastforce
next
  case (access i a as secs)
  then obtain h where h: "holder c = Some h"
    using assms(1) by (cases "holder c") (auto simp: serialised_def)
  then obtain who rest k made as' secs' where r: "serial prog m who rest k" "rest h = (made @ as') # secs'"
    "memory c = run_section made k" "place c = (\<lambda>i. Outside (rest i))(h := Inside as' secs')"
    using assms(1) by (auto simp: serialised_def)
  have i: "i = h" "as' = a # as" "secs' = secs" using access(2) r(4) by (auto split: if_splits)
  have "serial prog m who rest k \<and> rest h = ((made @ [a]) @ as) # secs \<and>
      a (memory c) = run_section (made @ [a]) k \<and>
      (place c)(i := Inside as secs) = (\<lambda>i. Outside (rest i))(h := Inside as secs)"
    using r i by auto
  then have "\<exists>who rest k made as' secs'. serial prog m who rest k \<and> rest h = (made @ as') # secs' \<and>
      a (memory c) = run_section made k \<and>
      (place c)(i := Inside as secs) = (\<lambda>i. Outside (rest i))(h := Inside as' secs')" by blast
  then show ?thesis unfolding access(1) serialised_def using h by simp
next
  case (leave i secs h)
  then have h: "holder c = Some i" "h = None" by (auto simp: lock_dtor_def split: if_splits)
  then obtain who rest k made as' secs' where r: "serial prog m who rest k" "rest i = (made @ as') # secs'"
    "memory c = run_section made k" "place c = (\<lambda>i. Outside (rest i))(i := Inside as' secs')"
    using assms(1) by (auto simp: serialised_def)
  have i: "as' = []" "secs' = secs" using leave(2) r(4) by simp_all
  have "serial prog m (who @ [i]) (rest(i := secs)) (run_section made k)"
    using serial.whole [OF r(1)] r(2) i by simp
  moreover have "(place c)(i := Outside secs) = (\<lambda>j. Outside ((rest(i := secs)) j))"
    using r(4) by auto
  ultimately have "\<exists>who rest. serial prog m who rest (memory c) \<and>
      (place c)(i := Outside secs) = (\<lambda>j. Outside (rest j))"
    unfolding r(3) by (intro exI conjI)
  then show ?thesis unfolding leave(1) serialised_def using h by simp
qed

lemma serialised_micros: "micros c d \<Longrightarrow> serialised prog m c \<Longrightarrow> serialised prog m d"
  by (induction rule: micros.induct) (auto intro: serialised_step)

lemma micros_serialised: "micros (conf_start prog m) c \<Longrightarrow> serialised prog m c"
  by (rule serialised_micros [OF _ serialised_start])

section \<open>Properties\<close>

text \<open>
  C16. \<open>lock\<close> makes critical sections atomic. However the accesses of any number of threads
  interleave: at most the thread that holds the mutex is inside a section; whenever the mutex is free, the
  memory is exactly the result of running whole sections one after the other, and
  while it is held, the result of that followed by what the holder has done of its section; and
  as long as a thread has something left to do, some thread can go on.
\<close>

theorem lock_serialises:
  assumes "micros (conf_start prog m) c"
  shows "(\<forall>i as secs. place c i = Inside as secs \<longrightarrow> holder c = Some i) \<and>
    (case holder c of
       None \<Rightarrow> \<exists>who. serial prog m who (\<lambda>i. sections_left (place c i)) (memory c)
     | Some h \<Rightarrow>
         \<exists>who rest k made as. serial prog m who rest k \<and> memory c = run_section made k \<and>
           rest h = (made @ as) # sections_left (place c h) \<and>
           (\<forall>i. i \<noteq> h \<longrightarrow> rest i = sections_left (place c i))) \<and>
    ((\<exists>i. place c i \<noteq> Outside []) \<longrightarrow> (\<exists>d. micro c d))"
proof -
  have inv: "serialised prog m c" by (rule micros_serialised [OF assms])
  show ?thesis
  proof (cases "holder c")
    case None
    then obtain who rest where r: "serial prog m who rest (memory c)" "place c = (\<lambda>i. Outside (rest i))"
      using inv by (auto simp: serialised_def)
    have "\<exists>d. micro c d" if nz: "place c i \<noteq> Outside []" for i
    proof -
      obtain sec secs where "place c i = Outside (sec # secs)"
        using nz r(2) by (cases "rest i") auto
      from micro.enter [OF this] show ?thesis using None by (auto simp: lock_ctor_def)
    qed
    then show ?thesis using None r by auto
  next
    case (Some h)
    then obtain who rest k made as secs where r: "serial prog m who rest k" "rest h = (made @ as) # secs"
      "memory c = run_section made k" "place c = (\<lambda>i. Outside (rest i))(h := Inside as secs)"
      using inv by (auto simp: serialised_def)
    have "\<exists>d. micro c d"
    proof (cases as)
      case Nil
      then show ?thesis using micro.leave [of c h secs None] r(4) Some by (auto simp: lock_dtor_def)
    next
      case (Cons a as')
      then show ?thesis using micro.access [of c h a as' secs] r(4) by auto
    qed
    have pl: "place c h = Inside as secs" "\<And>i. i \<noteq> h \<Longrightarrow> place c i = Outside (rest i)"
      using r(4) by simp_all
    have in_h: "holder c = Some i" if "place c i = Inside as' secs'" for i as' secs'
      using that pl(2) Some by (cases "i = h") simp_all
    have left: "rest h = (made @ as) # sections_left (place c h)"
      "\<forall>i. i \<noteq> h \<longrightarrow> rest i = sections_left (place c i)" using pl r(2) by simp_all
    have "\<exists>who rest k made as. serial prog m who rest k \<and> memory c = run_section made k \<and>
        rest h = (made @ as) # sections_left (place c h) \<and>
        (\<forall>i. i \<noteq> h \<longrightarrow> rest i = sections_left (place c i))"
      by (intro exI conjI) (fact r(1) r(3) left)+
    then show ?thesis using in_h \<open>\<exists>d. micro c d\<close> unfolding Some option.case by blast
  qed
qed

section \<open>Witness\<close>

text \<open>Two threads that each add to a counter in two accesses; the second one waits.\<close>

definition sample_prog :: "nat \<Rightarrow> (nat \<times> nat) critical list" where
  "sample_prog i =
     (if i < 2 then [[\<lambda>(x, t). (x, x), \<lambda>(x, t). (t + Suc i, t)]] else [])"

theorem lock_serialises_witness:
  "\<exists>c. micros (conf_start sample_prog (0, 0)) c \<and> holder c = Some 0 \<and> memory c = (0, 0) \<and>
     (\<exists>d. micro c d) \<and> lock_ctor 1 (holder c) = None"
proof -
  let ?c0 = "conf_start sample_prog (0, 0)"
  let ?c1 = "?c0\<lparr>holder := Some 0, place := (place ?c0)(0 := Inside (hd (sample_prog 0)) [])\<rparr>"
  let ?c2 = "?c1\<lparr>place := (place ?c1)(0 := Inside (tl (hd (sample_prog 0))) []), memory := (0, 0)\<rparr>"
  have "micro ?c0 ?c1" by (rule micro.enter) (simp_all add: conf_start_def sample_prog_def lock_ctor_def)
  then have m1: "micros ?c0 ?c1" by (rule micros.step [OF micros.refl])
  have "micro ?c1 ?c2"
  proof -
    have "place ?c1 0 = Inside ((\<lambda>(x, t). (x, x)) # tl (hd (sample_prog 0))) []"
      by (simp add: sample_prog_def)
    from micro.access [OF this] show ?thesis by (simp add: conf_start_def)
  qed
  then have m: "micros ?c0 ?c2" by (rule micros.step [OF m1])
  have "place ?c2 0 \<noteq> Outside []" by simp
  then have "\<exists>d. micro ?c2 d" using lock_serialises [OF m] by blast
  with m show ?thesis by (intro exI [of _ ?c2]) (simp add: lock_ctor_def conf_start_def)
qed

end
