(* ===== verification/Device_Requests.thy ===== *)
theory Device_Requests
  imports Urb_Class
begin

text \<open>
  The request handlers of the two example devices: \<^verbatim>\<open>process_urb\<close> of
  \<^verbatim>\<open>examples/virtual_device.cpp\<close> and of \<^verbatim>\<open>examples/virtual_device2.c\<close>. They answer the
  control requests of the USB core from constant descriptors. Output to the console is left out.
\<close>

section \<open>Requests and descriptors\<close>

definition URB_RQ_SET_ADDRESS :: u8 where [simp]: "URB_RQ_SET_ADDRESS = 5"
definition URB_RQ_GET_DESCRIPTOR :: u8 where [simp]: "URB_RQ_GET_DESCRIPTOR = 6"
definition URB_RQ_SET_CONFIGURATION :: u8 where [simp]: "URB_RQ_SET_CONFIGURATION = 9"
definition URB_RQ_SET_INTERFACE :: u8 where [simp]: "URB_RQ_SET_INTERFACE = 11"

definition dev_desc :: "u8 list" where
  "dev_desc = [18, 1, 0x00, 0x02, 0, 0, 0, 64, 0xad, 0xde, 0xef, 0xbe, 0x38, 0x11, 0, 1, 0, 1]"

definition conf_desc :: "u8 list" where
  "conf_desc = [9, 2, 18, 0, 1, 1, 0, 0x80, 0, 9, 4, 0, 0, 0, 0, 0, 0, 0]"

definition str0_desc :: "u8 list" where
  "str0_desc = [4, 3, 0x09, 0x04]"

text \<open>The string literal with its terminating zero: \<open>Hello World!\<close> in UTF-16.\<close>

definition str1_desc :: "u8 list" where
  "str1_desc = [0x1a, 3, 0x48, 0, 0x65, 0, 0x6c, 0, 0x6c, 0, 0x6f, 0, 0x20, 0,
     0x57, 0, 0x6f, 0, 0x72, 0, 0x6c, 0, 0x64, 0, 0x21, 0]"

section \<open>Answering from a descriptor\<close>

text \<open>
  \<open>std::copy(d, d + n, dst)\<close> and \<open>memcpy(dst, d, n)\<close>: reading or writing out of bounds, or
  through \<open>NULL\<close>, is a fault.
\<close>

definition write_bytes ::
  "u8 list \<Rightarrow> nat \<Rightarrow> nat \<Rightarrow> ('e, 'z) machine_scheme \<Rightarrow> ('e, 'z) machine_scheme option" where
  "write_bytes d n dst s =
     (if n = 0 then Some s
      else do {
        bs \<leftarrow> load_bytes dst s;
        if n \<le> length d \<and> n \<le> length bs
        then store dst (Bytes (map Some (take n d) @ drop n bs)) s else None })"

text \<open>\<open>int l = urb->wLength; if(desc[i] < l) l = desc[i];\<close>\<close>

definition reply_length :: "u8 \<Rightarrow> usb_vhci_urb \<Rightarrow> i32" where
  "reply_length n u =
     (let l = ucast (u_wLength u) in if ucast n <s l then ucast n else l)"

section \<open>The handler in C++\<close>

definition answer_from ::
  "u8 list \<Rightarrow> u8 \<Rightarrow> usb_vhci_urb \<Rightarrow> ('e, 'z) machine_scheme \<Rightarrow>
   (usb_vhci_urb \<times> ('e, 'z) machine_scheme) option" where
  "answer_from d n u s = do {
     let l = reply_length n u;
     s \<leftarrow> write_bytes d (nat (sint l)) (u_buffer u) s;
     Some (ack (set_buffer_actual l u), s) }"

text \<open>\<open>case 3\<close> has no \<open>break\<close>: it goes on with \<open>default\<close>.\<close>

definition get_descriptor ::
  "usb_vhci_urb \<Rightarrow> ('e, 'z) machine_scheme \<Rightarrow> (usb_vhci_urb \<times> ('e, 'z) machine_scheme) option" where
  "get_descriptor u s =
     (if drop_bit 8 (u_wValue u) = 1 then answer_from dev_desc (dev_desc ! 0) u s
      else if drop_bit 8 (u_wValue u) = 2 then answer_from conf_desc (conf_desc ! 2) u s
      else if drop_bit 8 (u_wValue u) = 3 then do {
        (u, s) \<leftarrow>
          (if u_wValue u AND 0xff = 0 then answer_from str0_desc (str0_desc ! 0) u s
           else if u_wValue u AND 0xff = 1 then answer_from str1_desc (str1_desc ! 0) u s
           else Some (stall u, s));
        Some (stall u, s) }
      else Some (stall u, s))"

definition handle_urb ::
  "'y abi_scheme \<Rightarrow> usb_vhci_urb \<Rightarrow> ('e, 'z) machine_scheme \<Rightarrow>
   (usb_vhci_urb \<times> ('e, 'z) machine_scheme) option" where
  "handle_urb k u s =
     (if \<not> is_control k u then Some (u, s)
      else if get_endpoint_number u \<noteq> 0 then Some (stall u, s)
      else
        let rt = u_bmRequestType u; r = u_bRequest u in
        if rt = 0x00 \<and> r = URB_RQ_SET_ADDRESS then Some (ack u, s)
        else if rt = 0x00 \<and> r = URB_RQ_SET_CONFIGURATION then Some (ack u, s)
        else if rt = 0x00 \<and> r = URB_RQ_SET_INTERFACE then Some (ack u, s)
        else if rt = 0x80 \<and> r = URB_RQ_GET_DESCRIPTOR then get_descriptor u s
        else Some (stall u, s))"

text \<open>The function gets a pointer to the URB object.\<close>

definition process_urb ::
  "'y abi_scheme \<Rightarrow> nat \<Rightarrow> ('e, 'z) machine_scheme \<Rightarrow> ('e, 'z) machine_scheme option" where
  "process_urb k p s = do {
     u \<leftarrow> load_urb p s;
     (u, s) \<leftarrow> handle_urb k u s;
     store p (UrbObj u) s }"

section \<open>The handler in C\<close>

text \<open>The C device has its own copy of the tables.\<close>

definition c_dev_desc :: "u8 list" where
  "c_dev_desc = [18, 1, 0x00, 0x02, 0, 0, 0, 64, 0xad, 0xde, 0xef, 0xbe, 0x38, 0x11, 0, 1, 0, 1]"

definition c_conf_desc :: "u8 list" where
  "c_conf_desc = [9, 2, 18, 0, 1, 1, 0, 0x80, 0, 9, 4, 0, 0, 0, 0, 0, 0, 0]"

definition c_str0_desc :: "u8 list" where
  "c_str0_desc = [4, 3, 0x09, 0x04]"

definition c_str1_desc :: "u8 list" where
  "c_str1_desc = [0x1a, 3, 0x48, 0, 0x65, 0, 0x6c, 0, 0x6c, 0, 0x6f, 0, 0x20, 0,
     0x57, 0, 0x6f, 0, 0x72, 0, 0x6c, 0, 0x64, 0, 0x21, 0]"

lemma c_tables [simp]:
  "c_dev_desc = dev_desc" "c_conf_desc = conf_desc" "c_str0_desc = str0_desc" "c_str1_desc = str1_desc"
  by (simp_all add: c_dev_desc_def dev_desc_def c_conf_desc_def conf_desc_def c_str0_desc_def str0_desc_def
      c_str1_desc_def str1_desc_def)

definition c_answer_from ::
  "u8 list \<Rightarrow> u8 \<Rightarrow> usb_vhci_urb \<Rightarrow> ('e, 'z) machine_scheme \<Rightarrow>
   (usb_vhci_urb \<times> ('e, 'z) machine_scheme) option" where
  "c_answer_from d n u s = do {
     let l = reply_length n u;
     s \<leftarrow> write_bytes d (nat (sint l)) (u_buffer u) s;
     Some (u\<lparr>u_buffer_actual := l, u_status := USB_VHCI_STATUS_SUCCESS\<rparr>, s) }"

definition c_process_urb ::
  "'y abi_scheme \<Rightarrow> usb_vhci_urb \<Rightarrow> ('e, 'z) machine_scheme \<Rightarrow>
   (usb_vhci_urb \<times> ('e, 'z) machine_scheme) option" where
  "c_process_urb k u s =
     (let stalled = Some (u\<lparr>u_status := USB_VHCI_STATUS_STALL\<rparr>, s);
          acked = Some (u\<lparr>u_status := USB_VHCI_STATUS_SUCCESS\<rparr>, s);
          rt = u_bmRequestType u; r = u_bRequest u
      in if \<not> usb_vhci_is_control k (u_type u) then Some (u, s)
         else if u_epadr u AND 0x7f \<noteq> 0 then stalled
         else if rt = 0x00 \<and> r = URB_RQ_SET_CONFIGURATION then acked
         else if rt = 0x00 \<and> r = URB_RQ_SET_INTERFACE then acked
         else if rt = 0x80 \<and> r = URB_RQ_GET_DESCRIPTOR then
           (if drop_bit 8 (u_wValue u) = 1 then c_answer_from c_dev_desc (c_dev_desc ! 0) u s
            else if drop_bit 8 (u_wValue u) = 2 then c_answer_from c_conf_desc (c_conf_desc ! 2) u s
            else if drop_bit 8 (u_wValue u) = 3 then do {
              (u, s) \<leftarrow>
                (if u_wValue u AND 0xff = 0 then c_answer_from c_str0_desc (c_str0_desc ! 0) u s
                 else if u_wValue u AND 0xff = 1 then c_answer_from c_str1_desc (c_str1_desc ! 0) u s
                 else Some (u\<lparr>u_status := USB_VHCI_STATUS_STALL\<rparr>, s));
              Some (u\<lparr>u_status := USB_VHCI_STATUS_STALL\<rparr>, s) }
            else stalled)
         else stalled)"

section \<open>The length of a reply\<close>

lemma ucast_i32:
  "sint (ucast (n :: u8) :: i32) = int (unat n)" "sint (ucast (l :: u16) :: i32) = int (unat l)"
proof -
  have b: "unat n < 256" "unat l < 65536"
    using unsigned_less [where 'a = nat, of n] unsigned_less [where 'a = nat, of l] by simp_all
  then have "unat (ucast n :: i32) = unat n" "unat (ucast l :: i32) = unat l"
    by (simp_all add: unsigned_ucast_eq take_bit_nat_eq_self)
  then have u: "uint (ucast n :: i32) = int (unat n)" "uint (ucast l :: i32) = int (unat l)"
    by (metis int_nat_eq nat_uint_eq uint_nonnegative uint_nat)+
  have "signed_take_bit 31 (int (unat n)) = int (unat n)" "signed_take_bit 31 (int (unat l)) = int (unat l)"
    using b by (auto intro!: signed_take_bit_int_eq_self simp del: of_nat_unat)
  with u show "sint (ucast n :: i32) = int (unat n)" "sint (ucast l :: i32) = int (unat l)"
    by (simp_all add: sint_uint del: of_nat_unat)
qed

lemma reply_length_nat:
  "sint (reply_length n u) = int (min (unat n) (unat (u_wLength u)))"
  by (simp add: reply_length_def Let_def word_sless_alt ucast_i32 min_def del: of_nat_unat)

section \<open>Writing a reply\<close>

text \<open>The first \<open>n\<close> bytes of a descriptor in the buffer at \<open>p\<close>.\<close>

definition put_prefix ::
  "u8 list \<Rightarrow> nat \<Rightarrow> nat \<Rightarrow> ('e, 'z) machine_scheme \<Rightarrow> ('e, 'z) machine_scheme" where
  "put_prefix d n p s =
     (if n = 0 then s
      else s\<lparr>heap := (heap s)(p \<mapsto> Bytes (map Some (take n d) @ drop n (the (load_bytes p s))))\<rparr>)"

lemma write_bytes_run:
  assumes "urb_mem s u" "n \<le> length d"
  shows "write_bytes d n (u_buffer u) s =
    (if n \<le> unat (u_buffer_length u) then Some (put_prefix d n (u_buffer u) s) else None)"
proof (cases "u_buffer_length u = 0")
  case True
  then have "u_buffer u = 0" using assms(1) by (simp add: urb_mem_def)
  then show ?thesis using True by (simp add: write_bytes_def put_prefix_def load_bytes_def load_def)
next
  case False
  then obtain bs where bs: "u_buffer u \<noteq> 0" "heap s (u_buffer u) = Some (Bytes bs)"
    "length bs = unat (u_buffer_length u)"
    using assms(1) by (auto simp: urb_mem_def bytes_at_iff)
  then have "load_bytes (u_buffer u) s = Some bs" by (simp add: load_bytes_Some)
  then show ?thesis
    using assms(2) bs by (simp add: write_bytes_def put_prefix_def store_def)
qed

lemma put_prefix_mem:
  assumes "urb_mem s u" "n \<le> length d" "n \<le> unat (u_buffer_length u)"
  shows "urb_mem (put_prefix d n (u_buffer u) s) u"
    "x \<notin> {u_buffer u} - {0} \<Longrightarrow> heap (put_prefix d n (u_buffer u) s) x = heap s x"
    "put_prefix d n (u_buffer u) s = s\<lparr>heap := heap (put_prefix d n (u_buffer u) s)\<rparr>"
proof -
  have "u_buffer u \<noteq> 0" if "n \<noteq> 0"
  proof -
    from that have "u_buffer_length u \<noteq> 0" using assms(3) by auto
    then show ?thesis using assms(1) by (simp add: urb_mem_def bytes_at_iff)
  qed
  then show "x \<notin> {u_buffer u} - {0} \<Longrightarrow> heap (put_prefix d n (u_buffer u) s) x = heap s x"
    by (auto simp: put_prefix_def)
  show "put_prefix d n (u_buffer u) s = s\<lparr>heap := heap (put_prefix d n (u_buffer u) s)\<rparr>"
    by (simp add: put_prefix_def)
  show "urb_mem (put_prefix d n (u_buffer u) s) u"
  proof (cases "n = 0")
    case True
    then show ?thesis using assms(1) by (simp add: put_prefix_def)
  next
    case False
    then have "u_buffer_length u \<noteq> 0" using assms(3) by auto
    then obtain bs where bs: "u_buffer u \<noteq> 0" "heap s (u_buffer u) = Some (Bytes bs)"
      "length bs = unat (u_buffer_length u)"
      using assms(1) by (auto simp: urb_mem_def bytes_at_iff)
    have ne: "u_packet_count u = 0 \<or> u_iso_packets u \<noteq> u_buffer u"
      using assms(1) bs by (auto simp: urb_mem_def packets_at_iff)
    from bs(1,2) have "load_bytes (u_buffer u) s = Some bs" by (simp add: load_bytes_Some)
    then show ?thesis
      using assms bs ne False
      by (auto simp: urb_mem_def put_prefix_def bytes_at_iff packets_at_iff split: if_splits)
  qed
qed

lemma urb_mem_fields [simp]:
  "urb_mem s (u\<lparr>u_status := x\<rparr>) = urb_mem s u" "urb_mem s (u\<lparr>u_buffer_actual := l\<rparr>) = urb_mem s u"
  by (simp_all add: urb_mem_def)

text \<open>What an answer from a descriptor does, when the whole of it is announced in its length byte.\<close>

definition reply_size :: "u8 list \<Rightarrow> usb_vhci_urb \<Rightarrow> nat" where
  "reply_size d u = min (length d) (unat (u_wLength u))"

definition replied :: "u8 list \<Rightarrow> usb_vhci_urb \<Rightarrow> usb_vhci_urb" where
  "replied d u =
     u\<lparr>u_buffer_actual := reply_length (of_nat (length d)) u, u_status := USB_VHCI_STATUS_SUCCESS\<rparr>"

lemma answer_from_run:
  assumes "urb_mem s u" "unat n = length d"
  shows "answer_from d n u s =
    (if reply_size d u \<le> unat (u_buffer_length u)
     then Some (replied d u, put_prefix d (reply_size d u) (u_buffer u) s) else None)"
    "length d < 256 \<Longrightarrow> sint (u_buffer_actual (replied d u)) = int (reply_size d u)"
proof -
  have l: "nat (sint (reply_length n u)) = reply_size d u"
    using reply_length_nat [of n u] assms(2) by (simp add: reply_size_def)
  have "reply_size d u \<le> length d" by (simp add: reply_size_def)
  note w = write_bytes_run [OF assms(1) this]
  have "of_nat (length d) = n" unfolding assms(2) [symmetric] by simp
  then show "answer_from d n u s =
    (if reply_size d u \<le> unat (u_buffer_length u)
     then Some (replied d u, put_prefix d (reply_size d u) (u_buffer u) s) else None)"
    unfolding answer_from_def Let_def l w
    by (simp add: replied_def ack_def set_status_def set_buffer_actual_def)
  assume "length d < 256"
  show "sint (u_buffer_actual (replied d u)) = int (reply_size d u)"
    using reply_length_nat [of "of_nat (length d)" u] assms(2) \<open>of_nat (length d) = n\<close>
    by (simp add: replied_def reply_size_def)
qed

lemma c_answer_from_eq: "c_answer_from d n u s = answer_from d n u s"
  by (simp add: c_answer_from_def answer_from_def ack_def set_status_def set_buffer_actual_def Let_def)

lemma desc_sizes:
  "unat (dev_desc ! 0) = length dev_desc" "unat (conf_desc ! 2) = length conf_desc"
  "unat (str0_desc ! 0) = length str0_desc" "unat (str1_desc ! 0) = length str1_desc"
  "length dev_desc = 18" "length conf_desc = 18" "length str0_desc = 4" "length str1_desc = 26"
  by (simp_all add: dev_desc_def conf_desc_def str0_desc_def str1_desc_def)

text \<open>The descriptor that a \<open>GET_DESCRIPTOR\<close> request names, by its type and index.\<close>

definition descriptor_named :: "u16 \<Rightarrow> u8 list option" where
  "descriptor_named v =
     (if drop_bit 8 v = 1 then Some dev_desc
      else if drop_bit 8 v = 2 then Some conf_desc
      else if drop_bit 8 v = 3 \<and> v AND 0xff = 0 then Some str0_desc
      else if drop_bit 8 v = 3 \<and> v AND 0xff = 1 then Some str1_desc
      else None)"

lemma get_descriptor_run:
  assumes "urb_mem s u"
  shows "get_descriptor u s =
    (case descriptor_named (u_wValue u) of
       None \<Rightarrow> Some (stall u, s)
     | Some d \<Rightarrow>
         if reply_size d u \<le> unat (u_buffer_length u)
         then Some (if drop_bit 8 (u_wValue u) = 3 then stall (replied d u) else replied d u,
                    put_prefix d (reply_size d u) (u_buffer u) s)
         else None)"
  using answer_from_run(1) [OF assms desc_sizes(1)] answer_from_run(1) [OF assms desc_sizes(2)]
    answer_from_run(1) [OF assms desc_sizes(3)] answer_from_run(1) [OF assms desc_sizes(4)]
  by (auto simp: get_descriptor_def descriptor_named_def stall_def set_status_def)

text \<open>
  Any request: the URB object keeps everything but its status and the number of bytes, only its
  buffer is written.
\<close>

definition answered_in ::
  "('e, 'z) machine_scheme \<Rightarrow> usb_vhci_urb \<Rightarrow> usb_vhci_urb \<Rightarrow> ('e, 'z) machine_scheme \<Rightarrow> bool" where
  "answered_in s u v t \<longleftrightarrow>
     v = u\<lparr>u_status := u_status v, u_buffer_actual := u_buffer_actual v\<rparr> \<and>
     (u_buffer_actual v = u_buffer_actual u \<or>
      0 \<le> sint (u_buffer_actual v) \<and> sint (u_buffer_actual v) \<le> int (unat (u_wLength u))) \<and>
     urb_mem t v \<and> (\<forall>x. x \<notin> {u_buffer u} - {0} \<longrightarrow> heap t x = heap s x) \<and> t = s\<lparr>heap := heap t\<rparr>"

lemma handle_urb_run:
  assumes "urb_mem s u" "unat (u_wLength u) \<le> unat (u_buffer_length u)"
  shows "\<exists>v t. handle_urb k u s = Some (v, t) \<and> answered_in s u v t"
proof -
  have plain: "answered_in s u v s" if "v = u \<or> v = stall u \<or> v = ack u" for v
    using that assms(1)
    by (auto simp: answered_in_def stall_def ack_def set_status_def)
  have desc: "\<exists>v t. get_descriptor u s = Some (v, t) \<and> answered_in s u v t"
  proof (cases "descriptor_named (u_wValue u)")
    case None
    then show ?thesis using get_descriptor_run [OF assms(1)] plain by auto
  next
    case (Some d)
    then have len: "length d < 256" "unat (of_nat (length d) :: u8) = length d"
      using desc_sizes by (auto simp: descriptor_named_def split: if_splits)
    let ?n = "reply_size d u"
    have n: "?n \<le> length d" "?n \<le> unat (u_buffer_length u)" "?n \<le> unat (u_wLength u)"
      using assms(2) by (simp_all add: reply_size_def)
    note mem = put_prefix_mem [OF assms(1) n(1,2)]
    have a: "sint (u_buffer_actual (replied d u)) = int ?n"
      by (rule answer_from_run(2) [OF assms(1) len(2,1)])
    have "answered_in s u v (put_prefix d ?n (u_buffer u) s)"
      if "v = replied d u \<or> v = stall (replied d u)" for v
    proof -
      have v: "v = u\<lparr>u_status := u_status v, u_buffer_actual := u_buffer_actual v\<rparr>"
        "u_buffer_actual v = u_buffer_actual (replied d u)"
        using that by (auto simp: replied_def stall_def set_status_def)
      have "urb_mem (put_prefix d ?n (u_buffer u) s) v"
        using mem(1) by (subst v(1)) simp
      then show ?thesis using v a n(3) mem(2,3) unfolding answered_in_def by (metis of_nat_0_le_iff of_nat_le_iff)
    qed
    then show ?thesis using get_descriptor_run [OF assms(1)] Some n(2) by auto
  qed
  show ?thesis
    using desc plain by (auto simp: handle_urb_def Let_def)
qed

text \<open>What happens inside the buffer: the reply in front, everything behind it as before.\<close>

definition front_written ::
  "('e, 'z) machine_scheme \<Rightarrow> usb_vhci_urb \<Rightarrow> nat \<Rightarrow> ('e, 'z) machine_scheme \<Rightarrow> bool" where
  "front_written s u n t \<longleftrightarrow>
     (if n = 0 then heap t = heap s
      else \<exists>bs d. heap s (u_buffer u) = Some (Bytes bs) \<and> length d = n \<and> n \<le> length bs \<and>
        heap t (u_buffer u) = Some (Bytes (map Some d @ drop n bs)))"

lemma front_written_prefix:
  assumes "urb_mem s u" "n \<le> length d" "n \<le> unat (u_buffer_length u)"
  shows "front_written s u n (put_prefix d n (u_buffer u) s)"
proof (cases "n = 0")
  case False
  then have "u_buffer_length u \<noteq> 0" using assms(3) by auto
  then obtain bs where bs: "u_buffer u \<noteq> 0" "heap s (u_buffer u) = Some (Bytes bs)"
    "length bs = unat (u_buffer_length u)"
    using assms(1) by (auto simp: urb_mem_def bytes_at_iff)
  then have "load_bytes (u_buffer u) s = Some bs" by (simp add: load_bytes_Some)
  then show ?thesis
    using False bs assms(2,3)
    by (auto simp: front_written_def put_prefix_def intro!: exI [of _ "take n d"])
qed (simp add: front_written_def put_prefix_def)

lemma handle_urb_front:
  assumes "urb_mem s u" "unat (u_wLength u) \<le> unat (u_buffer_length u)" "handle_urb k u s = Some (v, t)"
  shows "t = s \<and> u_buffer_actual v = u_buffer_actual u \<or>
    (\<exists>n. sint (u_buffer_actual v) = int n \<and> n \<le> unat (u_wLength u) \<and> front_written s u n t)"
proof -
  have desc: "(t = s \<and> u_buffer_actual v = u_buffer_actual u) \<or>
      (\<exists>n. sint (u_buffer_actual v) = int n \<and> n \<le> unat (u_wLength u) \<and> front_written s u n t)"
    if g: "get_descriptor u s = Some (v, t)"
  proof (cases "descriptor_named (u_wValue u)")
    case None
    then show ?thesis using g get_descriptor_run [OF assms(1)] by (auto simp: stall_def set_status_def)
  next
    case (Some d)
    then have len: "length d < 256" "unat (of_nat (length d) :: u8) = length d"
      using desc_sizes by (auto simp: descriptor_named_def split: if_splits)
    let ?n = "reply_size d u"
    have n: "?n \<le> length d" "?n \<le> unat (u_buffer_length u)" "?n \<le> unat (u_wLength u)"
      using assms(2) by (simp_all add: reply_size_def)
    have "u_buffer_actual v = u_buffer_actual (replied d u)" "t = put_prefix d ?n (u_buffer u) s"
      using g get_descriptor_run [OF assms(1)] Some n(2) by (auto simp: stall_def set_status_def)
    then show ?thesis
      using answer_from_run(2) [OF assms(1) len(2,1)] front_written_prefix [OF assms(1) n(1,2)] n(3) by auto
  qed
  show ?thesis
    using assms(3) desc by (auto simp: handle_urb_def Let_def stall_def ack_def set_status_def split: if_splits)
qed

lemma handlers_agree:
  "(if is_control k u \<and> get_endpoint_number u = 0 \<and> u_epadr u AND 0x7f \<noteq> 0
    then c_process_urb k u s = Some (stall u, s)
    else if is_control k u \<and> get_endpoint_number u = 0 \<and> u_bmRequestType u = 0 \<and> u_bRequest u = 5
    then handle_urb k u s = Some (ack u, s) \<and> c_process_urb k u s = Some (stall u, s)
    else handle_urb k u s = c_process_urb k u s)"
proof -
  have ep: "u_epadr u AND 0x7f \<noteq> 0" if "get_endpoint_number u \<noteq> 0"
  proof
    assume "u_epadr u AND 0x7f = 0"
    then have "(u_epadr u AND 0x7f) AND 0x07 = 0" by simp
    then have "u_epadr u AND 0x07 = 0" by (simp add: and.assoc)
    with that show False by (simp add: get_endpoint_number_def)
  qed
  show ?thesis
    using ep
    by (auto simp: handle_urb_def c_process_urb_def get_descriptor_def c_answer_from_eq is_control_def
        usb_vhci_is_control_def Let_def stall_def ack_def set_status_def)
qed

lemma c_process_urb_run:
  assumes "urb_mem s u" "unat (u_wLength u) \<le> unat (u_buffer_length u)"
  shows "\<exists>v t. c_process_urb k u s = Some (v, t) \<and> answered_in s u v t"
proof -
  have "answered_in s u (stall u) s"
    using assms(1) by (simp add: answered_in_def stall_def set_status_def)
  then show ?thesis
    using handlers_agree [of k u s] handle_urb_run [OF assms, of k] by (auto split: if_splits)
qed

section \<open>Theorems\<close>

text \<open>
  C27. The device never writes outside the buffer of a URB, nor behind its reply: when the buffer is
  as long as the transfer the host asks for, every request, of whatever type, is handled without a
  fault; the URB object keeps all fields but its status and the number of bytes. Either nothing is
  written and the number stays, or the number is the length of a reply of at most what was asked for:
  then the reply stands in front of the buffer, and the bytes behind it, like every other block of
  memory, are as before.
\<close>

theorem handle_urb_within_buffer:
  assumes "urb_mem s u" and "unat (u_wLength u) \<le> unat (u_buffer_length u)"
  shows "\<exists>v t. handle_urb k u s = Some (v, t) \<and>
    v = u\<lparr>u_status := u_status v, u_buffer_actual := u_buffer_actual v\<rparr> \<and>
    (u_buffer_actual v = u_buffer_actual u \<or>
     0 \<le> sint (u_buffer_actual v) \<and> sint (u_buffer_actual v) \<le> int (unat (u_wLength u))) \<and>
    urb_mem t v \<and> (\<forall>x. x \<noteq> u_buffer u \<longrightarrow> heap t x = heap s x) \<and>
    (t = s \<and> u_buffer_actual v = u_buffer_actual u \<or>
     (\<exists>n. sint (u_buffer_actual v) = int n \<and> n \<le> unat (u_wLength u) \<and>
        (if n = 0 then heap t = heap s
         else \<exists>bs d. heap s (u_buffer u) = Some (Bytes bs) \<and> length d = n \<and> n \<le> length bs \<and>
           heap t (u_buffer u) = Some (Bytes (map Some d @ drop n bs)))))"
proof -
  obtain v t where v: "handle_urb k u s = Some (v, t)" "answered_in s u v t"
    using handle_urb_run [OF assms] by blast
  from handle_urb_front [OF assms v(1)] v(2) show ?thesis
    unfolding answered_in_def front_written_def
    by (intro exI [of _ v] exI [of _ t] conjI) (use v(1) in auto)
qed

text \<open>
  C31. What a host gets for \<open>GET_DESCRIPTOR\<close> on endpoint 0. For the device and the configuration
  descriptor: success, the number of bytes that fit the request, and the buffer begins with exactly
  those bytes of the descriptor; if they do not fit the buffer, the device writes past its
  end. For every string descriptor, also the two the device has: the request is stalled,
  although the reply has been written.
\<close>

theorem get_descriptor_reply:
  assumes "urb_mem s u" and "is_control k u" and "get_endpoint_number u = 0"
    and "u_bmRequestType u = 0x80" and "u_bRequest u = 6"
  shows "case descriptor_named (u_wValue u) of
      None \<Rightarrow> handle_urb k u s = Some (stall u, s)
    | Some d \<Rightarrow>
        let n = min (length d) (unat (u_wLength u)) in
        if unat (u_buffer_length u) < n then handle_urb k u s = None
        else \<exists>v. handle_urb k u s = Some (v, put_prefix d n (u_buffer u) s) \<and>
          sint (u_buffer_actual v) = int n \<and>
          u_status v = (if drop_bit 8 (u_wValue u) = 3 then USB_VHCI_STATUS_STALL
                        else USB_VHCI_STATUS_SUCCESS)"
proof -
  have h: "handle_urb k u s = get_descriptor u s"
    using assms(2-5) by (simp add: handle_urb_def)
  show ?thesis
  proof (cases "descriptor_named (u_wValue u)")
    case None
    then show ?thesis using get_descriptor_run [OF assms(1)] h by simp
  next
    case (Some d)
    then have len: "length d < 256" "unat (of_nat (length d) :: u8) = length d"
      using desc_sizes by (auto simp: descriptor_named_def split: if_splits)
    have a: "sint (u_buffer_actual (replied d u)) = int (reply_size d u)"
      by (rule answer_from_run(2) [OF assms(1) len(2,1)])
    have st: "u_status (replied d u) = USB_VHCI_STATUS_SUCCESS"
      "u_status (stall (replied d u)) = USB_VHCI_STATUS_STALL"
      "u_buffer_actual (stall (replied d u)) = u_buffer_actual (replied d u)"
      by (simp_all add: replied_def stall_def set_status_def)
    show ?thesis
      using get_descriptor_run [OF assms(1)] Some a st unfolding h
      by (auto simp: Let_def reply_size_def not_less)
  qed
qed

text \<open>
  C30. The two handlers do the same, for every URB, in every memory, up to two differences:
  the one in C leaves \<open>SET_ADDRESS\<close> to its caller, and the one in C++ takes a control endpoint
  whose number is a multiple of 8 for endpoint 0.
\<close>

theorem device_handlers_agree:
  "(if is_control k u \<and> get_endpoint_number u = 0 \<and> u_epadr u AND 0x7f \<noteq> 0
    then c_process_urb k u s = Some (stall u, s)
    else if is_control k u \<and> get_endpoint_number u = 0 \<and> u_bmRequestType u = 0 \<and> u_bRequest u = 5
    then handle_urb k u s = Some (ack u, s) \<and> c_process_urb k u s = Some (stall u, s)
    else handle_urb k u s = c_process_urb k u s)"
  by (rule handlers_agree)

section \<open>Witnesses\<close>

text \<open>The host asks for \<open>l\<close> bytes of a descriptor and provides a buffer of 8.\<close>

definition sample_request :: "u16 \<Rightarrow> u16 \<Rightarrow> usb_vhci_urb" where
  "sample_request v l = zero_urb\<lparr>u_handle := 8, u_buffer := 1, u_buffer_length := 8, u_epadr := 0x80,
     u_type := URB_TYPE_CONTROL plain_platform, u_bmRequestType := 0x80, u_bRequest := 6,
     u_wValue := v, u_wLength := l\<rparr>"

definition sample_buffer :: "log machine" where
  "sample_buffer = \<lparr>env = [], errno = 0, heap = [1 \<mapsto> Bytes (replicate 8 None)], brk = 2, oom = [],
     naps = []\<rparr>"

lemma sample_request_ok:
  "urb_mem sample_buffer (sample_request v l)" "is_control plain_platform (sample_request v l)"
  "get_endpoint_number (sample_request v l) = 0"
  by (simp_all add: urb_mem_def sample_request_def sample_buffer_def bytes_at_iff zero_urb_def
      word_sle_eq is_control_def get_endpoint_number_def)

theorem handle_urb_within_buffer_witness:
  "\<exists>v t. handle_urb plain_platform (sample_request 0x0100 8) sample_buffer = Some (v, t) \<and>
     urb_mem t v \<and> heap t 2 = None"
proof -
  have "unat (u_wLength (sample_request 0x0100 8)) \<le> unat (u_buffer_length (sample_request 0x0100 8))"
    by (simp add: sample_request_def)
  from handle_urb_within_buffer [OF sample_request_ok(1) this, of plain_platform] obtain v t where
    "handle_urb plain_platform (sample_request 0x0100 8) sample_buffer = Some (v, t)" "urb_mem t v"
    "\<forall>x. x \<noteq> u_buffer (sample_request 0x0100 8) \<longrightarrow> heap t x = heap sample_buffer x" by blast
  then show ?thesis by (auto simp: sample_request_def sample_buffer_def)
qed

theorem get_descriptor_reply_witness:
  "(\<exists>v t. handle_urb plain_platform (sample_request 0x0100 8) sample_buffer = Some (v, t) \<and>
      u_status v = 0 \<and> heap t 1 = Some (Bytes (map Some [18, 1, 0, 2, 0, 0, 0, 64]))) \<and>
   (\<exists>v t. handle_urb plain_platform (sample_request 0x0301 4) sample_buffer = Some (v, t) \<and>
      u_status v = USB_VHCI_STATUS_STALL) \<and>
   handle_urb plain_platform (sample_request 0x0100 18) sample_buffer = None"
proof -
  have f: "u_bmRequestType (sample_request v l) = 0x80" "u_bRequest (sample_request v l) = 6"
    "u_wValue (sample_request v l) = v" "u_wLength (sample_request v l) = l"
    "u_buffer_length (sample_request v l) = 8" "u_buffer (sample_request v l) = 1" for v l
    by (simp_all add: sample_request_def)
  have d: "descriptor_named 0x0100 = Some dev_desc" "descriptor_named 0x0301 = Some str1_desc"
    by (simp_all add: descriptor_named_def)
  have p: "heap (put_prefix dev_desc 8 (Suc 0) sample_buffer) (Suc 0) =
      Some (Bytes (map Some [18, 1, 0, 2, 0, 0, 0, 64]))"
    by (simp add: put_prefix_def sample_buffer_def load_bytes_def load_def dev_desc_def)
  from get_descriptor_reply [OF sample_request_ok(1-3) [of "0x0100" 8] f(1,2) [of "0x0100" 8]]
    get_descriptor_reply [OF sample_request_ok(1-3) [of "0x0301" 4] f(1,2) [of "0x0301" 4]]
    get_descriptor_reply [OF sample_request_ok(1-3) [of "0x0100" 18] f(1,2) [of "0x0100" 18]]
  show ?thesis
    unfolding f by (auto simp: d Let_def desc_sizes p USB_VHCI_STATUS_SUCCESS_def)
qed

end
