(* ===== verification/Device_Main.thy ===== *)
theory Device_Main
  imports Local_Ports Device_Requests Hcd_Edit
begin

text \<open>
  The main thread of \<^verbatim>\<open>examples/virtual_device.cpp\<close>: one round of its loop fetches a work, reacts
  to it and finishes it. The wait for work in front of each round is the subject of
  \<open>Device_Wakeup\<close>.
\<close>

section \<open>One round of the loop\<close>

text \<open>How the loop is left: \<open>return 1\<close>, or an exception that nobody catches.\<close>

datatype main_exit = Returned int | Uncaught exn

type_synonym 's main_step = "'s \<Rightarrow> ((main_exit + unit) \<times> 's) option"

definition and_then :: "'s main_step \<Rightarrow> 's main_step \<Rightarrow> 's main_step" where
  "and_then f g s = do {
     (r, s) \<leftarrow> f s;
     (case r of Inl x \<Rightarrow> Some (Inl x, s) | Inr _ \<Rightarrow> g s) }"

definition notify_if ::
  "bool \<Rightarrow> ('s \<Rightarrow> (exn + unit) \<times> 's) \<Rightarrow> 's main_step" where
  "notify_if b call s =
     (if \<not> b then Some (Inr (), s)
      else case call s of
             (Inl e, s) \<Rightarrow> Some (Inl (Uncaught e), s)
           | (Inr _, s) \<Rightarrow> Some (Inr (), s))"

text \<open>\<open>if(hcd.get_port_stat(1).get_connection())\<close>\<close>

definition if_connected ::
  "(('e, 'z) local_hcd_scheme \<Rightarrow> (exn + unit) \<times> ('e, 'z) local_hcd_scheme) \<Rightarrow>
   ('e, 'z) local_hcd_scheme main_step" where
  "if_connected call s = do {
     r \<leftarrow> get_port_stat 1 s;
     (case r of
        Inl e \<Rightarrow> Some (Inl (Uncaught e), s)
      | Inr st \<Rightarrow> notify_if (get_connection st) call s) }"

definition react_port_stat ::
  "'e platform \<Rightarrow> work \<Rightarrow> ('e, 'z) local_hcd_scheme main_step" where
  "react_port_stat P psw s =
     (if w_port psw \<noteq> 1 then Some (Inl (Returned 1), s)
      else and_then (notify_if (triggers_power_on psw) (port_connect P 1 Full))
             (and_then (\<lambda>s. if triggers_reset psw then if_connected (port_reset_done P 1 True) s
                            else Some (Inr (), s))
                       (\<lambda>s. if triggers_resuming psw then if_connected (port_resumed P 1) s
                            else Some (Inr (), s))) s)"

definition main_work ::
  "'e platform \<Rightarrow> nat \<Rightarrow> ('e, 'z) local_hcd_scheme main_step" where
  "main_work P w s = do {
     obj \<leftarrow> load_work w s;
     (case w_kind obj of
        PortStatWork _ _ \<Rightarrow> react_port_stat P obj s
      | ProcessUrbWork q \<Rightarrow> do { s \<leftarrow> process_urb P q s; Some (Inr (), s) }
      | CancelUrbWork _ \<Rightarrow> Some (Inr (), s)) }"

text \<open>\<open>cont = hcd.next_work(&work); if(work) ... hcd.finish_work(work);\<close>\<close>

definition main_round ::
  "'e platform \<Rightarrow> ('e, 'z) local_hcd_scheme \<Rightarrow>
   ((main_exit + bool) \<times> ('e, 'z) local_hcd_scheme) option" where
  "main_round P s = do {
     (r, s) \<leftarrow> next_work s;
     (case r of
        Inl e \<Rightarrow> Some (Inl (Uncaught e), s)
      | Inr (w, cont) \<Rightarrow>
          if w = 0 then Some (Inr cont, s)
          else do {
            (r, s) \<leftarrow> and_then (main_work P w)
              (\<lambda>s. do {
                 (r, s) \<leftarrow> finish_work (local_finishing_work P) w s;
                 Some (case r of Inl e \<Rightarrow> Inl (Uncaught e) | Inr _ \<Rightarrow> Inr (), s) }) s;
            Some (case r of Inl x \<Rightarrow> Inl x | Inr _ \<Rightarrow> Inr cont, s) }) }"

section \<open>The reaction to a port status\<close>

text \<open>The notifications a device sends, one after the other until one is refused.\<close>

fun notify_all ::
  "'e platform \<Rightarrow> i32 \<Rightarrow> port_event list \<Rightarrow> ('e, 'z) machine_scheme \<Rightarrow> bool \<times> ('e, 'z) machine_scheme"
where
  "notify_all P fd [] s = (True, s)"
| "notify_all P fd (ev # evs) s =
     (case port_call P fd 1 ev s of
        (r, s) \<Rightarrow> if r = - 1 then (False, s) else notify_all P fd evs s)"

text \<open>A device is plugged in when the port gets power, and ends resets and resumes at once.\<close>

definition reactions :: "bool \<Rightarrow> bool \<Rightarrow> bool \<Rightarrow> bool \<Rightarrow> port_event list" where
  "reactions power_on reset resuming connected =
     (if power_on then [Connect Full] else []) @
     (if reset \<and> connected then [ResetDone True] else []) @
     (if resuming \<and> connected then [Resumed] else [])"

lemma notify_all_append:
  "notify_all P fd (xs @ ys) s =
     (case notify_all P fd xs s of (ok, t) \<Rightarrow> if ok then notify_all P fd ys t else (False, t))"
  by (induction xs arbitrary: s) (auto split: prod.split)

lemma notify_all_frame: "notify_all P fd evs s = (ok, t) \<Longrightarrow> env_only s t"
  by (induction evs arbitrary: s)
    (auto split: prod.splits if_splits dest: port_call_frame intro: env_only_trans)

definition noted :: "bool \<times> 's \<Rightarrow> ((main_exit + unit) \<times> 's) option" where
  "noted r = Some (if fst r then Inr () else Inl (Uncaught StdException), snd r)"

lemma notify_if_run:
  assumes "port_ok 1 s" "ports_ok s"
  shows "notify_if b (local_port_call P 1 ev) s = noted (notify_all P (l_fd s) (if b then [ev] else []) s)"
proof -
  have "\<not> 1 > h_port_count s"
    using assms by (simp add: port_ok_def ports_ok_def word_less_nat_alt)
  then show ?thesis
    by (simp add: notify_if_def noted_def local_port_call_notify port_notify_def check_port_def
        split: prod.split)
qed

lemma if_connected_run:
  assumes "port_ok 1 s" "ports_ok s"
  shows "(if b then if_connected (local_port_call P 1 ev) s else Some (Inr (), s)) =
    noted (notify_all P (l_fd s) (if b \<and> get_connection (pi_stat (port_at 1 s)) then [ev] else []) s)"
  using notify_if_run [OF assms, of "get_connection (pi_stat (port_at 1 s))" P ev]
    get_port_stat_run [OF assms]
  by (simp add: if_connected_def noted_def)

lemma and_then_noted:
  assumes "f s = noted (notify_all P fd xs s)"
    and "\<And>t. env_only s t \<Longrightarrow> g t = noted (notify_all P fd ys t)"
  shows "and_then f g s = noted (notify_all P fd (xs @ ys) s)"
proof -
  obtain ok t where n: "notify_all P fd xs s = (ok, t)" by fastforce
  from assms(2) [OF notify_all_frame [OF n]] show ?thesis
    using assms(1) n by (simp add: and_then_def noted_def notify_all_append)
qed

lemma react_port_stat_run:
  assumes "port_ok 1 s" "ports_ok s" "w_port w = 1"
  shows "react_port_stat P w s = noted (notify_all P (l_fd s)
    (reactions (triggers_power_on w) (triggers_reset w) (triggers_resuming w)
      (get_connection (pi_stat (port_at 1 s)))) s)"
proof -
  have calls: "port_connect P 1 Full = local_port_call P 1 (Connect Full)"
    "port_reset_done P 1 True = local_port_call P 1 (ResetDone True)"
    "port_resumed P 1 = local_port_call P 1 Resumed" by (simp_all add: fun_eq_iff)
  let ?c = "get_connection (pi_stat (port_at 1 s))"
  have later: "(if b then if_connected (local_port_call P 1 ev) t else Some (Inr (), t)) =
      noted (notify_all P (l_fd s) (if b \<and> ?c then [ev] else []) t)"
    if "env_only s t" for t b ev
    using if_connected_run [of t b P ev] assms(1,2) local_frame [OF that] by simp
  let ?first = "notify_if (triggers_power_on w) (local_port_call P 1 (Connect Full))"
  let ?reset = "\<lambda>s. if triggers_reset w then if_connected (local_port_call P 1 (ResetDone True)) s
                      else Some (Inr (), s)"
  let ?resume = "\<lambda>s. if triggers_resuming w then if_connected (local_port_call P 1 Resumed) s
                       else Some (Inr (), s)"
  let ?xs = "if triggers_power_on w then [Connect Full] else []"
  let ?ys = "if triggers_reset w \<and> ?c then [ResetDone True] else []"
  let ?zs = "if triggers_resuming w \<and> ?c then [Resumed] else []"
  have rest: "and_then ?reset ?resume t = noted (notify_all P (l_fd s) (?ys @ ?zs) t)" if t: "env_only s t" for t
    by (rule and_then_noted [where f = ?reset and g = ?resume, OF later [OF t] later])
      (rule env_only_trans [OF t])
  have "and_then ?first (and_then ?reset ?resume) s = noted (notify_all P (l_fd s) (?xs @ (?ys @ ?zs)) s)"
    by (rule and_then_noted [where f = ?first and g = "and_then ?reset ?resume",
          OF notify_if_run [OF assms(1,2)] rest])
  then show ?thesis
    by (simp only: react_port_stat_def calls reactions_def assms(3) simp_thms if_False)
qed

section \<open>Serving a work\<close>

text \<open>
  What serving a URB relies on: the kernel's packets have been fetched, and the buffer holds the
  transfer the host asks for.
\<close>

definition serviceable :: "'e platform \<Rightarrow> nat \<Rightarrow> ('e, 'z) machine_scheme \<Rightarrow> bool" where
  "serviceable P p s \<longleftrightarrow>
     (case load_work p s of
        None \<Rightarrow> False
      | Some w \<Rightarrow>
          (case w_kind w of
             ProcessUrbWork q \<Rightarrow>
               (case load_urb q s of
                  None \<Rightarrow> False
                | Some u \<Rightarrow> (usb_vhci_is_iso P (u_type u) \<longrightarrow> packets_set s u) \<and>
                    unat (u_wLength u) \<le> unat (u_buffer_length u))
           | _ \<Rightarrow> True))"

lemma packets_set_frame:
  "(u_iso_packets u \<noteq> 0 \<Longrightarrow> heap t (u_iso_packets u) = heap s (u_iso_packets u)) \<Longrightarrow>
   packets_set t u = packets_set s u"
  by (cases "u_iso_packets u = 0") (simp_all add: packets_set_iff)

lemma serviceable_frame:
  assumes "serviceable P p s" "work_object s p" "\<And>x. x \<in> work_footprint s p \<Longrightarrow> heap t x = heap s x"
  shows "serviceable P p t"
proof -
  have l: "load_work p t = load_work p s" using work_object_cong [OF assms(3,2)] by simp
  obtain w where w: "load_work p s = Some w" using assms(2) by (rule work_objectE)
  show ?thesis
  proof (cases "w_kind w")
    case (ProcessUrbWork q)
    then obtain u where u: "load_urb q s = Some u" "usb_vhci_is_iso P (u_type u) \<longrightarrow> packets_set s u"
      "unat (u_wLength u) \<le> unat (u_buffer_length u)"
      using assms(1) w by (auto simp: serviceable_def split: option.splits)
    then have fp: "work_footprint s p = insert p (insert q (urb_blocks u))"
      using w ProcessUrbWork by (simp add: work_footprint_def urb_footprint_def)
    then have "load_urb q t = Some u" "packets_set t u = packets_set s u"
      using u(1) assms(3) load_cong(1) [of t q s] packets_set_frame [of u t s]
      by (simp_all add: urb_blocks_def)
    then show ?thesis using l w ProcessUrbWork u by (simp add: serviceable_def)
  qed (use l w in \<open>simp_all add: serviceable_def\<close>)
qed

lemma alloc_never_fails: "oom s = [] \<Longrightarrow> \<not> giveback_oom P s u"
  by (simp add: giveback_oom_def alloc_fails_def)

text \<open>The state of the loop while a work is served: the queues and tables do not change.\<close>

definition served :: "nat \<Rightarrow> ('e, 'z) local_hcd_scheme \<Rightarrow> ('e, 'z) local_hcd_scheme \<Rightarrow> bool" where
  "served p s t \<longleftrightarrow> local_inv t \<and> h_inbox t = h_inbox s \<and> h_processing t = h_processing s \<and>
     work_footprint t p = work_footprint s p \<and> oom t = oom s \<and> l_port_info t = l_port_info s \<and>
     (\<forall>x. x \<notin> work_footprint s p \<longrightarrow> heap t x = heap s x)"

lemma served_env:
  assumes "local_inv s" "env_only s t"
  shows "served p s t"
proof -
  obtain e n where t: "t = s\<lparr>env := e, errno := n\<rparr>" using assms(2) by (auto simp: env_only_def)
  have h: "heap t = heap s" by (simp add: t)
  have "local_inv t"
    using assms(1) heap_determines(6) [OF h] t by (simp add: local_inv_def hcd_inv_def hcd_owned_def
        heap_ok_def ports_ok_def table_ok_def)
  then show ?thesis using heap_determines(2) [OF h] t by (simp add: served_def)
qed

lemma process_urb_served:
  assumes inv: "local_inv s" and p: "p \<in> set (hcd_owned s)" and sv: "serviceable P p s"
    and w: "load_work p s = Some w" "w_kind w = ProcessUrbWork q"
  shows "\<exists>h. process_urb P q s = Some (s\<lparr>heap := h\<rparr>) \<and> served p s (s\<lparr>heap := h\<rparr>) \<and>
    serviceable P p (s\<lparr>heap := h\<rparr>) \<and> edited s p q (s\<lparr>heap := h\<rparr>)"
proof -
  have h: "hcd_inv s" using inv by (simp add: local_inv_def)
  then have wk: "work_object s p" using p works_ok_object by (auto simp: hcd_inv_def)
  then have uo: "urb_object s q" using w by (simp add: work_object_def)
  obtain u where u: "load_urb q s = Some u" "usb_vhci_is_iso P (u_type u) \<longrightarrow> packets_set s u"
    "unat (u_wLength u) \<le> unat (u_buffer_length u)"
    using sv w by (auto simp: serviceable_def split: option.splits)
  note mem = urb_object_blocks [OF uo u(1)]
  obtain v r where r: "handle_urb P u s = Some (v, r)" "answered_in s u v r"
    using handle_urb_run [OF mem(3) u(3)] by blast
  define t where "t = r\<lparr>heap := (heap r)(q \<mapsto> UrbObj v)\<rparr>"
  obtain st l where v': "v = u\<lparr>u_status := st, u_buffer_actual := l\<rparr>"
    using r(2) unfolding answered_in_def by blast
  then have v: "urb_blocks v = urb_blocks u" "u_handle v = u_handle u" "u_type v = u_type u"
    "u_wLength v = u_wLength u" "u_buffer_length v = u_buffer_length u"
    "u_iso_packets v = u_iso_packets u" "u_packet_count v = u_packet_count u"
    by (simp_all add: urb_blocks_def)
  have rs: "r = s\<lparr>heap := heap r\<rparr>" "\<And>x. x \<notin> {u_buffer u} - {0} \<Longrightarrow> heap r x = heap s x" "urb_mem r v"
    using r(2) unfolding answered_in_def by blast+
  have q: "q \<noteq> 0" "q \<noteq> u_buffer u" "heap s q = Some (UrbObj u)"
    using mem(1,2) u(1) by (auto simp: urb_blocks_def load_urb_Some)
  have run: "process_urb P q s = Some t"
    using u(1) r(1) q rs(2) [of q] by (simp add: process_urb_def store_def t_def)
  have "urb_mem t v = urb_mem r v"
    by (rule urb_mem_cong) (use mem(1) v(1) in \<open>auto simp: t_def\<close>)
  then have "urb_mem t v" using rs(3) by simp
  moreover have "heap t x = heap s x" if "x \<noteq> q" "x \<notin> urb_blocks u" for x
    using that rs(2) [of x] by (auto simp: t_def urb_blocks_def)
  ultimately have ed: "edited s p q t"
    using w u(1) v q by (auto simp: edited_def load_urb_Some t_def)
  obtain hr where "r = s\<lparr>heap := hr\<rparr>" using rs(1) by blast
  then have tr: "t = s\<lparr>heap := hr(q \<mapsto> UrbObj v)\<rparr>" by (simp add: t_def)
  have same: "h_inbox t = h_inbox s" "h_processing t = h_processing s" "hcd_owned t = hcd_owned s"
    "brk t = brk s" "oom t = oom s" "l_port_info t = l_port_info s" "h_port_count t = h_port_count s"
    by (subst tr, simp add: hcd_owned_def)+
  have "hcd_inv t" by (rule edited_inv [OF ed h p same(3,4)])
  moreover have "l_port_block s \<notin> work_footprint s p"
    using footprint_tables [OF wk] table_ok_tables [of s] inv by (auto simp: local_inv_def)
  then have "heap t (l_port_block s) = heap s (l_port_block s)" by (rule edited_work(4) [OF ed wk])
  moreover have "l_port_block t = l_port_block s" by (subst tr, simp)
  ultimately have "local_inv t" using inv same by (simp add: local_inv_def ports_ok_def table_ok_def)
  note edw = edited_work [OF ed wk]
  have "packets_set t u = packets_set s u"
  proof (cases "u_packet_count u = 0")
    case False
    then have "u_iso_packets u \<notin> {q, u_buffer u}"
      using mem(3) q by (auto simp: urb_mem_def packets_at_iff bytes_at_iff split: if_splits)
    then have "heap t (u_iso_packets u) = heap s (u_iso_packets u)"
      using rs(2) [of "u_iso_packets u"] by (auto simp: t_def)
    then show ?thesis by (rule packets_set_frame)
  qed (simp add: packets_set_def)
  then have "packets_set t v = packets_set s u" using v by (simp add: packets_set_def)
  moreover have "load_urb q t = Some v" using q(1) by (simp add: load_urb_Some t_def)
  ultimately have "serviceable P p t"
    using edw(3) w u v by (simp add: serviceable_def)
  moreover have "served p s t" using \<open>local_inv t\<close> same edw by (simp add: served_def)
  ultimately show ?thesis using run ed unfolding tr by blast
qed

text \<open>Reacting to one work: only the blocks of the work change, and it can be finished.\<close>

lemma main_work_run:
  assumes inv: "local_inv s" "port_ok 1 s" and p: "p \<in> set (h_processing s)" and sv: "serviceable P p s"
  shows "\<exists>r t. main_work P p s = Some (r, t) \<and> served p s t \<and> serviceable P p t \<and>
    (\<forall>x. r = Inl x \<longrightarrow> x = Uncaught StdException \<or>
       x = Returned 1 \<and> (\<exists>w. load_work p s = Some w \<and> w_port w \<noteq> 1)) \<and>
    (env_only s t \<or> (\<exists>q h. t = s\<lparr>heap := h\<rparr> \<and> edited s p q t))"
proof -
  have own: "p \<in> set (hcd_owned s)" using p by (simp add: hcd_owned_def)
  have h: "hcd_inv s" "ports_ok s" using inv by (simp_all add: local_inv_def)
  then have wk: "work_object s p" using own works_ok_object by (auto simp: hcd_inv_def)
  then obtain w where w: "load_work p s = Some w" by (rule work_objectE)
  have envs: "served p s t \<and> serviceable P p t" if "env_only s t" for t
  proof -
    from that obtain e n where "t = s\<lparr>env := e, errno := n\<rparr>" by (auto simp: env_only_def)
    then show ?thesis
      using served_env [OF inv(1) that] serviceable_frame [OF sv wk, of t] by simp
  qed
  show ?thesis
  proof (cases "w_kind w")
    case (ProcessUrbWork q)
    from process_urb_served [OF inv(1) own sv w this] obtain h where
      h: "process_urb P q s = Some (s\<lparr>heap := h\<rparr>)" "served p s (s\<lparr>heap := h\<rparr>)"
        "serviceable P p (s\<lparr>heap := h\<rparr>)" "edited s p q (s\<lparr>heap := h\<rparr>)" by blast
    then have "main_work P p s = Some (Inr (), s\<lparr>heap := h\<rparr>)" using w ProcessUrbWork by (simp add: main_work_def)
    with h(2-4) show ?thesis by blast
  next
    case (CancelUrbWork k)
    then show ?thesis using w envs [of s] by (simp add: main_work_def)
  next
    case (PortStatWork st f)
    then have m: "main_work P p s = react_port_stat P w s" using w by (simp add: main_work_def)
    show ?thesis
    proof (cases "w_port w = 1")
      case False
      then show ?thesis using m w envs [of s] by (simp add: react_port_stat_def)
    next
      case True
      obtain ok t where "notify_all P (l_fd s) (reactions (triggers_power_on w) (triggers_reset w)
          (triggers_resuming w) (get_connection (pi_stat (port_at 1 s)))) s = (ok, t)" by fastforce
      moreover from notify_all_frame [OF this] have "env_only s t" "served p s t \<and> serviceable P p t"
        by (simp_all add: envs)
      ultimately show ?thesis
        using m react_port_stat_run [OF inv(2) h(2) True, of P] by (auto simp: noted_def)
    qed
  qed
qed

text \<open>
  The abstract device: how the loop is left at a work, if it is, and the environment afterwards. A
  change of the port is answered by the notifications above, a request by its reply, which is given
  back to the kernel; a cancellation needs nothing. The state is the one in which the
  work waits, \<open>e\<close> the environment when it is served.
\<close>

definition serve_spec ::
  "'e platform \<Rightarrow> ('e, 'z) local_hcd_scheme \<Rightarrow> nat \<Rightarrow> 'e \<Rightarrow> main_exit option \<times> 'e" where
  "serve_spec P s p e =
     (case load_work p s of
        None \<Rightarrow> (None, e)
      | Some w \<Rightarrow>
          (case w_kind w of
             PortStatWork _ _ \<Rightarrow>
               if w_port w \<noteq> 1 then (Some (Returned 1), e)
               else (case notify_all P (l_fd s)
                        (reactions (triggers_power_on w) (triggers_reset w) (triggers_resuming w)
                          (get_connection (pi_stat (port_at 1 s)))) (s\<lparr>env := e\<rparr>) of
                       (ok, t) \<Rightarrow> (if ok then None else Some (Uncaught StdException), env t))
           | ProcessUrbWork q \<Rightarrow>
               (case load_urb q s of
                  None \<Rightarrow> (None, e)
                | Some u \<Rightarrow>
                    (case handle_urb P u s of
                       None \<Rightarrow> (None, e)
                     | Some (v, t) \<Rightarrow>
                         (None, fst (p_giveback P (l_fd s) (giveback_request P t v (giveback_packets P t v)) e))))
           | CancelUrbWork _ \<Rightarrow> (None, e)))"

fun drain ::
  "'e platform \<Rightarrow> ('e, 'z) local_hcd_scheme \<Rightarrow> nat list \<Rightarrow> 'e \<Rightarrow> main_exit option \<times> 'e" where
  "drain P s [] e = (None, e)"
| "drain P s (p # ps) e =
     (case serve_spec P s p e of
        (None, e) \<Rightarrow> drain P s ps e
      | (Some x, e) \<Rightarrow> (Some x, e))"

definition exit_of :: "main_exit + 'a \<Rightarrow> main_exit option" where
  "exit_of r = (case r of Inl x \<Rightarrow> Some x | Inr _ \<Rightarrow> None)"

lemma exit_of_simps [simp]: "exit_of (Inl x) = Some x" "exit_of (Inr y) = None"
  by (simp_all add: exit_of_def)

text \<open>A work is served alike wherever it has the same blocks and memory lasts.\<close>

lemma port_call_env:
  assumes "env t = env s"
  shows "fst (port_call P fd i ev t) = fst (port_call P fd i ev s) \<and>
    env (snd (port_call P fd i ev t)) = env (snd (port_call P fd i ev s))"
  using assms
  by (cases ev) (auto simp: port_request_defs send_port_stat_syscall Let_def
      split: if_splits prod.splits sum.splits)

lemma notify_all_env:
  assumes "env t = env s"
  shows "fst (notify_all P fd evs t) = fst (notify_all P fd evs s) \<and>
    env (snd (notify_all P fd evs t)) = env (snd (notify_all P fd evs s))"
  using assms
proof (induction evs arbitrary: s t)
  case (Cons ev evs)
  obtain a s1 b t1 where c: "port_call P fd 1 ev s = (a, s1)" "port_call P fd 1 ev t = (b, t1)" by fastforce
  then have "b = a" "env t1 = env s1" using port_call_env [OF Cons.prems, of P fd 1 ev] by simp_all
  then show ?case using c Cons.IH [of t1 s1] by simp
qed simp

lemma load_blocks:
  assumes "\<And>x. x \<in> urb_blocks u \<Longrightarrow> heap t x = heap s x"
  shows "load_bytes (u_buffer u) t = load_bytes (u_buffer u) s"
    "load_packets (u_iso_packets u) t = load_packets (u_iso_packets u) s"
  using assms by (auto simp: urb_blocks_def load_bytes_def load_packets_def load_def)

lemma giveback_frame:
  assumes "\<And>x. x \<in> urb_blocks u \<Longrightarrow> heap t x = heap s x" "oom t = []" "oom s = []"
  shows "giveback_request P t u (giveback_packets P t u) = giveback_request P s u (giveback_packets P s u)"
proof -
  note l = load_blocks [OF assms(1)]
  have "packet_reports t u = packet_reports s u" using l(2) by (simp add: packet_reports_def)
  then show ?thesis
    using l(1) assms(2,3) by (simp add: giveback_request_def giveback_packets_def alloc_fails_def Let_def)
qed

lemma handle_urb_frame:
  assumes "urb_mem s u" "\<And>x. x \<in> urb_blocks u \<Longrightarrow> heap t x = heap s x" "handle_urb k u s = Some (v, s')"
  obtains t' where "handle_urb k u t = Some (v, t')" "\<And>x. x \<in> urb_blocks u \<Longrightarrow> heap t' x = heap s' x"
    "oom t' = oom t"
proof -
  have mem: "urb_mem t u" using urb_mem_cong [of u t s] assms(1,2) by simp
  have p: "heap (put_prefix d n (u_buffer u) t) x = heap (put_prefix d n (u_buffer u) s) x"
    "oom (put_prefix d n (u_buffer u) t) = oom t" if "x \<in> urb_blocks u" for d n x
    using load_blocks(1) [OF assms(2)] assms(2) [OF that] by (simp_all add: put_prefix_def)
  have o: "oom (put_prefix d n (u_buffer u) t) = oom t" for d n by (simp add: put_prefix_def)
  show thesis
  proof (cases "get_descriptor u s")
    case None
    then show thesis
      using assms(2,3) that [of t]
      by (auto simp: handle_urb_def Let_def split: if_splits)
  next
    case (Some vs)
    then have "\<exists>t'. get_descriptor u t = Some (fst vs, t') \<and> (\<forall>x \<in> urb_blocks u. heap t' x = heap (snd vs) x) \<and>
        oom t' = oom t"
      using get_descriptor_run [OF assms(1)] get_descriptor_run [OF mem] assms(2) p(1) o
      by (cases vs) (auto split: option.splits if_splits)
    then show thesis
      using Some assms(2,3) that
      by (cases vs) (auto simp: handle_urb_def Let_def split: if_splits)
  qed
qed

lemma answered_blocks:
  assumes "answered_in s u v t" shows "urb_blocks v = urb_blocks u" "oom t = oom s"
proof -
  obtain st l h where "v = u\<lparr>u_status := st, u_buffer_actual := l\<rparr>" "t = s\<lparr>heap := h\<rparr>"
    using assms unfolding answered_in_def by blast
  then show "urb_blocks v = urb_blocks u" "oom t = oom s" by (simp_all add: urb_blocks_def)
qed

lemma serve_spec_frame:
  assumes wk: "work_object s p" and same: "\<And>x. x \<in> work_footprint s p \<Longrightarrow> heap t x = heap s x"
    and mem: "oom s = []" "oom t = []" and l: "l_fd t = l_fd s" "l_port_info t = l_port_info s"
    and sv: "serviceable P p s"
  shows "serve_spec P t p e = serve_spec P s p e"
proof -
  have lw: "load_work p t = load_work p s" using work_object_cong [OF same wk] by simp
  obtain w where w: "load_work p s = Some w" "\<And>q. w_kind w = ProcessUrbWork q \<Longrightarrow> urb_object s q"
    using wk by (auto elim: work_objectE)
  show ?thesis
  proof (cases "w_kind w")
    case (ProcessUrbWork q)
    have uo: "urb_object s q" by (rule w(2) [OF ProcessUrbWork])
    obtain u where u: "load_urb q s = Some u" "unat (u_wLength u) \<le> unat (u_buffer_length u)"
      using sv w(1) ProcessUrbWork by (auto simp: serviceable_def split: option.splits)
    have fp: "work_footprint s p = insert p (insert q (urb_blocks u))"
      using w ProcessUrbWork u(1) by (simp add: work_footprint_def urb_footprint_def)
    then have lu: "load_urb q t = Some u" using u(1) same load_cong(1) [of t q s] by simp
    note blk = urb_object_blocks(3) [OF uo u(1)]
    obtain v s' where v: "handle_urb P u s = Some (v, s')" "answered_in s u v s'"
      using handle_urb_run [OF blk u(2)] by blast
    have "\<And>x. x \<in> urb_blocks u \<Longrightarrow> heap t x = heap s x" using same fp by simp
    from handle_urb_frame [OF blk this v(1)] obtain t' where t': "handle_urb P u t = Some (v, t')"
      "\<And>x. x \<in> urb_blocks u \<Longrightarrow> heap t' x = heap s' x" "oom t' = oom t" by blast
    have "urb_blocks v = urb_blocks u" "oom s' = []" using answered_blocks [OF v(2)] mem(1) by simp_all
    then have "giveback_request P t' v (giveback_packets P t' v) = giveback_request P s' v (giveback_packets P s' v)"
      using t'(2,3) mem(2) by (intro giveback_frame) auto
    then show ?thesis using lw w ProcessUrbWork u(1) lu v(1) t'(1) l(1) by (simp add: serve_spec_def)
  next
    case (PortStatWork st f)
    have c: "port_at 1 t = port_at 1 s" using l(2) by (simp add: port_at_def)
    define evs where "evs = reactions (triggers_power_on w) (triggers_reset w) (triggers_resuming w)
      (get_connection (pi_stat (port_at 1 s)))"
    obtain a s1 b t1 where n: "notify_all P (l_fd s) evs (s\<lparr>env := e\<rparr>) = (a, s1)"
      "notify_all P (l_fd s) evs (t\<lparr>env := e\<rparr>) = (b, t1)" by fastforce
    have "b = a" "env t1 = env s1"
      using notify_all_env [of "t\<lparr>env := e\<rparr>" "s\<lparr>env := e\<rparr>" P "l_fd s" evs] n by simp_all
    then show ?thesis
      using lw w PortStatWork l(1) c n by (simp add: serve_spec_def flip: evs_def)
  qed (use lw w in \<open>simp add: serve_spec_def\<close>)
qed

text \<open>One work meets its specification: with the request that giving it back sends, if it is a URB.\<close>

lemma main_work_spec:
  assumes inv: "local_inv s" "port_ok 1 s" and p: "p \<in> set (h_processing s)" and sv: "serviceable P p s"
    and run: "main_work P p s = Some (r, t)"
  shows "serve_spec P s p (env s) = (exit_of r, case r of Inl _ \<Rightarrow> env t | Inr _ \<Rightarrow> local_given P p t)"
proof -
  have own: "p \<in> set (hcd_owned s)" using p by (simp add: hcd_owned_def)
  have h: "hcd_inv s" "ports_ok s" using inv by (simp_all add: local_inv_def)
  then have wk: "work_object s p" using own works_ok_object by (auto simp: hcd_inv_def)
  then obtain w where w: "load_work p s = Some w" "\<And>q. w_kind w = ProcessUrbWork q \<Longrightarrow> urb_object s q"
    by (auto elim: work_objectE)
  have e: "s\<lparr>env := env s\<rparr> = s" by simp
  show ?thesis
  proof (cases "w_kind w")
    case (ProcessUrbWork q)
    have uo: "urb_object s q" by (rule w(2) [OF ProcessUrbWork])
    obtain u where u: "load_urb q s = Some u" "unat (u_wLength u) \<le> unat (u_buffer_length u)"
      using sv w(1) ProcessUrbWork by (auto simp: serviceable_def split: option.splits)
    note mem = urb_object_blocks [OF uo u(1)]
    obtain v s' where v: "handle_urb P u s = Some (v, s')" "answered_in s u v s'"
      using handle_urb_run [OF mem(3) u(2)] by blast
    from process_urb_served [OF inv(1) own sv w(1) ProcessUrbWork] obtain g where
      pu: "process_urb P q s = Some (s\<lparr>heap := g\<rparr>)" "edited s p q (s\<lparr>heap := g\<rparr>)" by blast
    then have t: "r = Inr ()" "t = s\<lparr>heap := g\<rparr>"
      using run w(1) ProcessUrbWork by (simp_all add: main_work_def)
    have g: "t = s'\<lparr>heap := (heap s')(q \<mapsto> UrbObj v)\<rparr>" "q \<noteq> 0"
      using pu(1) u(1) v(1) t(2) by (auto simp: process_urb_def store_def split: if_splits option.splits)
    have "urb_blocks v = urb_blocks u" using answered_blocks [OF v(2)] by simp
    then have blk: "heap t x = heap s' x" if "x \<in> urb_blocks v" for x
      using that mem(1) g(1) by auto
    have lv: "load_urb q t = Some v" using g by (simp add: load_urb_Some)
    have lw: "load_work p t = Some w" using edited_work(3) [OF pu(2) wk] w(1) t(2) by simp
    have o: "oom t = oom s'" using g(1) by simp
    have same: "load_bytes (u_buffer v) t = load_bytes (u_buffer v) s'"
      "load_packets (u_iso_packets v) t = load_packets (u_iso_packets v) s'" by (rule load_blocks, erule blk)+
    then have "packet_reports t v = packet_reports s' v" by (simp add: packet_reports_def)
    then have "giveback_request P t v (giveback_packets P t v) = giveback_request P s' v (giveback_packets P s' v)"
      using same(1) o by (simp add: giveback_request_def giveback_packets_def alloc_fails_def Let_def split: list.split)
    moreover have "l_fd t = l_fd s" "env t = env s" using t(2) by simp_all
    ultimately show ?thesis
      using w(1) ProcessUrbWork u(1) v(1) t(1) lv lw by (simp add: serve_spec_def local_given_def)
  next
    case (CancelUrbWork k)
    then have "r = Inr ()" "t = s" using w run by (simp_all add: main_work_def)
    then show ?thesis using w CancelUrbWork by (simp add: serve_spec_def local_given_def)
  next
    case (PortStatWork st f)
    then have m: "react_port_stat P w s = Some (r, t)" using w run by (simp add: main_work_def)
    show ?thesis
    proof (cases "w_port w = 1")
      case False
      then have "r = Inl (Returned 1)" "t = s" using m by (simp_all add: react_port_stat_def)
      then show ?thesis using False w PortStatWork by (simp add: serve_spec_def)
    next
      case True
      obtain ok t' where n: "notify_all P (l_fd s) (reactions (triggers_power_on w) (triggers_reset w)
          (triggers_resuming w) (get_connection (pi_stat (port_at 1 s)))) s = (ok, t')" by fastforce
      have "env_only s t'" by (rule notify_all_frame [OF n])
      then have lw: "load_work p t' = Some w"
        using w(1) load_cong(2) [of t' p s] by (auto simp: env_only_def)
      have "r = (if ok then Inr () else Inl (Uncaught StdException))" "t = t'"
        using m react_port_stat_run [OF inv(2) h(2) True, of P] n by (auto simp: noted_def)
      then show ?thesis
        using w PortStatWork True n e lw by (simp add: serve_spec_def local_given_def)
    qed
  qed
qed

lemma serviceable_ready:
  assumes "oom s = []" "serviceable P p s" shows "local_ready P p s"
  using assms(2) alloc_never_fails [OF assms(1)]
  by (auto simp: serviceable_def local_ready_def giveback_ready_def split: option.splits work_kind.splits)

lemma finish_oom:
  assumes "hcd_inv s" "p \<in> set (h_processing s)" "oom s = []"
    and run: "finish_work (local_finishing_work P) p s = Some (r, t)"
  shows "oom t = []"
proof -
  have loop: "oom t = oom s" if "for_upto i n (give_iso_packet u x) s = Some t" for i n u x s t
    using that
    by (rule for_upto_preserves [where f = oom, rotated])
      (auto simp: give_iso_packet_def store_oom split: bind_splits if_splits)
  have gb: "oom t = []" if "usb_vhci_giveback P fd u s = Some (r, t)" "oom s = []" for fd u s r t
    using that
    by (auto simp: usb_vhci_giveback_def malloc_array_def malloc_def alloc_def alloc_fails_def syscall_def Let_def
        dest!: loop dealloc_oom split: bind_splits if_splits prod.splits option.splits sum.splits)
  obtain r1 s1 where f: "local_finishing_work P p s = Some (r1, s1)" using run by (auto simp: finish_work_def split: bind_splits)
  then have "oom s1 = []" using assms(3) by (auto simp: local_finishing_work_def dest: gb split: bind_splits work_kind.splits)
  have del: "oom t = oom s" if "delete_work q s = Some t" for q s t
    using that
    by (auto simp: delete_work_def process_urb_work_dtor_def delete_urb_def urb_dtor_def
        dest!: dealloc_oom split: bind_splits if_splits work_kind.splits)
  show ?thesis
    using run f \<open>oom s1 = []\<close> by (auto simp: finish_work_def dest!: del split: bind_splits sum.splits)
qed

text \<open>A fetched work is served and finished, or the loop is left with it in progress.\<close>

lemma serve_and_finish:
  assumes inv: "local_inv s" "port_ok 1 s" "oom s = []" and p: "p \<in> set (h_processing s)"
    and sv: "serviceable P p s"
  shows "\<exists>r t. and_then (main_work P p) (\<lambda>s. do {
       (r, s) \<leftarrow> finish_work (local_finishing_work P) p s;
       Some (case r of Inl e \<Rightarrow> Inl (Uncaught e) | Inr _ \<Rightarrow> Inr (), s) }) s = Some (r, t) \<and>
    local_inv t \<and> h_inbox t = h_inbox s \<and> oom t = [] \<and> l_port_info t = l_port_info s \<and>
    l_fd t = l_fd s \<and> serve_spec P s p (env s) = (exit_of r, env t) \<and>
    (case r of
       Inl x \<Rightarrow> (x = Returned 1 \<or> x = Uncaught StdException) \<and> h_processing t = h_processing s
     | Inr _ \<Rightarrow> h_processing t = removeAll p (h_processing s) \<and>
         heap t = heap s |` (- work_footprint s p))"
proof -
  obtain r s1 where m: "main_work P p s = Some (r, s1)" "served p s s1" "serviceable P p s1"
    "\<forall>x. r = Inl x \<longrightarrow> x = Returned 1 \<or> x = Uncaught StdException"
    "env_only s s1 \<or> (\<exists>q h. s1 = s\<lparr>heap := h\<rparr> \<and> edited s p q s1)"
    using main_work_run [OF inv(1,2) p sv] by blast
  have fd: "l_fd s1 = l_fd s" using m(5) by (auto simp: env_only_def)
  note spec = main_work_spec [OF inv(1,2) p sv m(1)]
  show ?thesis
  proof (cases r)
    case (Inl x)
    then show ?thesis using m(1,2,4) inv(3) fd spec by (simp add: and_then_def served_def)
  next
    case (Inr x)
    have "local_inv s1" "p \<in> set (h_processing s1)" "oom s1 = []"
      using m(2) p inv(3) by (simp_all add: served_def)
    then have s1: "hcd_inv s1" "p \<in> set (h_processing s1)" "oom s1 = []" "local_inv s1"
      by (simp_all add: local_inv_def)
    from local_hooks.finish_work_spec [OF s1(1,2) serviceable_ready [OF s1(3) m(3)]]
    obtain t where t: "finish_work (local_finishing_work P) p s1 = Some (Inr (), t)" "hcd_inv t"
      "heap t = heap s1 |` (- work_footprint s1 p)" "h_inbox t = h_inbox s1"
      "h_processing t = removeAll p (h_processing s1)" "hcd_frame s1 t" "env t = local_given P p s1" by blast
    have "heap t = heap s |` (- work_footprint s p)"
      using t(3) m(2) by (auto simp: served_def restrict_map_def fun_eq_iff)
    moreover have "oom t = []" by (rule finish_oom [OF s1(1-3) t(1)])
    moreover have "l_port_info t = l_port_info s" "l_fd t = l_fd s"
      using hcd_frame_local [OF t(6)] m(2) fd by (simp_all add: served_def steady_def)
    moreover have "heap t x = heap s1 x" if "x \<in> tables s1" for x
      by (rule tables_restrict [of s1 "[p]" t x])
        (use s1 t(3) that in \<open>auto simp: hcd_inv_def hcd_owned_def\<close>)
    then have "local_inv t" by (rule local_inv_frame [OF s1(4) t(2,6)])
    ultimately show ?thesis
      using m(1,2) Inr t spec by (simp add: and_then_def served_def)
  qed
qed

text \<open>What one round does, and that the next one finds memory and ports as before.\<close>

lemma main_round_run:
  assumes "local_inv s" and "port_ok 1 s" and "oom s = []"
    and "\<forall>p \<in> set (h_inbox s). serviceable P p s"
  shows "\<exists>r t. main_round P s = Some (r, t) \<and> local_inv t \<and> oom t = [] \<and> l_port_info t = l_port_info s \<and>
    l_fd t = l_fd s \<and>
    (case dropWhile (is_canceled s) (h_inbox s) of
       [] \<Rightarrow> r = Inr False \<and> env t = env s \<and> h_inbox t = [] \<and> h_processing t = h_processing s \<and>
           heap t = heap s |` (- footprints s (takeWhile (is_canceled s) (h_inbox s)))
     | w # rest \<Rightarrow> h_inbox t = rest \<and> serve_spec P s w (env s) = (exit_of r, env t) \<and>
         (case r of
            Inl x \<Rightarrow> (x = Returned 1 \<or> x = Uncaught StdException) \<and>
              h_processing t = h_processing s @ [w]
          | Inr cont \<Rightarrow> cont = (rest \<noteq> []) \<and> h_processing t = h_processing s \<and>
              heap t = heap s |` (- footprints s (takeWhile (is_canceled s) (h_inbox s) @ [w]))))"
proof -
  have h: "hcd_inv s" using assms(1) by (simp add: local_inv_def)
  let ?gone = "takeWhile (is_canceled s) (h_inbox s)" and ?live = "dropWhile (is_canceled s) (h_inbox s)"
  have split: "h_inbox s = ?gone @ ?live" by simp
  obtain r1 s1 where n: "next_work s = Some (r1, s1)" "hcd_inv s1" "heap s1 = heap s |` (- footprints s ?gone)"
    "case ?live of [] \<Rightarrow> r1 = Inr (0, False) \<and> h_inbox s1 = [] \<and> h_processing s1 = h_processing s
     | w # rest \<Rightarrow> h_inbox s1 = rest \<and>
         (if fst (alloc_fails s) then r1 = Inl BadAlloc \<and> h_processing s1 = h_processing s
          else r1 = Inr (w, rest \<noteq> []) \<and> h_processing s1 = h_processing s @ [w])"
    using next_work_spec [OF h refl refl] by blast
  note fr = next_work_frame [OF h n(1)]
  have "heap s1 x = heap s x" if "x \<in> tables s" for x
    by (rule tables_restrict [OF _ _ n(3) that])
      (use h in \<open>auto simp: hcd_inv_def hcd_owned_def dest: set_takeWhileD\<close>)
  then have inv1: "local_inv s1" by (rule local_inv_frame [OF assms(1) n(2) fr(1)])
  have port1: "port_ok 1 s1" "l_fd s1 = l_fd s" "l_port_info s1 = l_port_info s"
    using assms(2) hcd_frame_local [OF fr(1)] by (simp_all add: port_ok_def steady_def)
  show ?thesis
  proof (cases ?live)
    case Nil
    then have "r1 = Inr (0, False)" "h_inbox s1 = []" "h_processing s1 = h_processing s"
      using n(4) unfolding Nil by simp_all
    then show ?thesis
      unfolding Nil using n(1,3) inv1 fr(2) fr(3) [OF assms(3)] port1(2,3) by (simp add: main_round_def)
  next
    case (Cons w rest)
    have q: "r1 = Inr (w, rest \<noteq> [])" "h_inbox s1 = rest" "h_processing s1 = h_processing s @ [w]"
      using n(4) assms(3) unfolding Cons by (simp_all add: alloc_fails_def)
    have win: "w \<in> set (h_inbox s)" using Cons by (metis list.set_intros(1) set_dropWhileD)
    have dist: "distinct (?gone @ w # rest @ h_processing s)" and ws: "works_ok s (?gone @ [w])"
    proof -
      have "works_ok s ((?gone @ w # rest) @ h_processing s)"
        using h split unfolding Cons by (simp add: hcd_inv_def hcd_owned_def)
      then show "distinct (?gone @ w # rest @ h_processing s)" by (simp add: works_ok_def)
      then show "works_ok s (?gone @ [w])"
        by (intro works_ok_perm [OF _ _ \<open>works_ok s ((?gone @ w # rest) @ h_processing s)\<close>]) auto
    qed
    then have wk: "work_object s w" and dj: "disjnt (work_footprint s w) (footprints s ?gone)"
      by (simp_all add: works_ok_snoc)
    have same: "heap s1 x = heap s x" if "x \<in> work_footprint s w" for x
      using that dj n(3) by (auto simp: disjnt_def restrict_map_def)
    have sv: "serviceable P w s1"
      using serviceable_frame [OF _ wk same] assms(4) win by blast
    have fp: "work_footprint s1 w = work_footprint s w" by (rule work_object_cong(2) [OF same wk])
    have w0: "w \<noteq> 0" using wk by (auto elim: work_objectE)
    have p: "w \<in> set (h_processing s1)" using q(3) by simp
    obtain r t where t: "and_then (main_work P w) (\<lambda>s. do {
         (r, s) \<leftarrow> finish_work (local_finishing_work P) w s;
         Some (case r of Inl e \<Rightarrow> Inl (Uncaught e) | Inr _ \<Rightarrow> Inr (), s) }) s1 = Some (r, t)"
      "local_inv t" "h_inbox t = h_inbox s1" "oom t = []" "l_port_info t = l_port_info s1"
      "l_fd t = l_fd s1" "serve_spec P s1 w (env s1) = (exit_of r, env t)"
      "case r of
         Inl x \<Rightarrow> (x = Returned 1 \<or> x = Uncaught StdException) \<and> h_processing t = h_processing s1
       | Inr _ \<Rightarrow> h_processing t = removeAll w (h_processing s1) \<and>
           heap t = heap s1 |` (- work_footprint s1 w)"
      using serve_and_finish [OF inv1 port1(1) fr(3) [OF assms(3)] p sv] by blast
    have "serviceable P w s" using assms(4) win by blast
    from serve_spec_frame [OF wk same assms(3) fr(3) [OF assms(3)] port1(2,3) this, of "env s"]
    have sp: "serve_spec P s w (env s) = (exit_of r, env t)" using t(7) fr(2) by simp
    have run: "main_round P s = Some (case r of Inl x \<Rightarrow> Inl x | Inr _ \<Rightarrow> Inr (rest \<noteq> []), t)"
      using n(1) t(1) w0 by (simp add: main_round_def q(1))
    have rm: "removeAll w (h_processing s @ [w]) = h_processing s" using dist by simp
    have hp: "heap s1 |` (- work_footprint s1 w) = heap s |` (- footprints s (?gone @ [w]))"
      using n(3) fp by (simp add: Compl_Un Int_commute)
    show ?thesis
      unfolding Cons using run t q rm hp port1(2,3) sp by (cases r) simp_all
  qed
qed

text \<open>
  One round of the example's main loop. In a controller whose invariant holds, with memory left
  and with URBs whose data was fetched and whose buffers are as long as the transfers, a round never
  faults and keeps the invariant. It fetches the first work that is not cancelled and serves
  and finishes it: afterwards no work is left in progress by the round, and exactly the blocks of
  the cancelled works in front of it and of the work itself have been freed, so the device
  neither leaks nor frees twice. The loop is left only by \<open>return 1\<close> or by the exception of a refused
  notification, with the work still in progress; without work only cancelled works are freed.
\<close>

theorem main_round_serves:
  assumes "local_inv s" and "port_ok 1 s" and "oom s = []"
    and "\<forall>p \<in> set (h_inbox s). serviceable P p s"
  shows "\<exists>r t. main_round P s = Some (r, t) \<and> local_inv t \<and>
    (case dropWhile (is_canceled s) (h_inbox s) of
       [] \<Rightarrow> r = Inr False \<and> h_inbox t = [] \<and> h_processing t = h_processing s \<and>
           heap t = heap s |` (- footprints s (takeWhile (is_canceled s) (h_inbox s)))
     | w # rest \<Rightarrow> h_inbox t = rest \<and> serve_spec P s w (env s) = (exit_of r, env t) \<and>
         (case r of
            Inl x \<Rightarrow> (x = Returned 1 \<or> x = Uncaught StdException) \<and>
              h_processing t = h_processing s @ [w]
          | Inr cont \<Rightarrow> cont = (rest \<noteq> []) \<and> h_processing t = h_processing s \<and>
              heap t = heap s |` (- footprints s (takeWhile (is_canceled s) (h_inbox s) @ [w]))))"
  using main_round_run [OF assms] by (auto split: list.splits)

section \<open>Witness\<close>

lemma sample_idle_served:
  "port_ok 1 sample_idle" "oom sample_idle = []" "\<forall>p \<in> set (h_inbox sample_idle). serviceable P p sample_idle"
  "dropWhile (is_canceled sample_idle) (h_inbox sample_idle) = [6]"
proof -
  have h: "heap sample_idle = sample_heap False"
    by (simp add: sample_idle_def sample_addressed_def sample_local_def)
  note w = sample_heap_ok(5) [OF h]
  show "oom sample_idle = []" "port_ok 1 sample_idle"
    by (simp_all add: sample_idle_def sample_addressed_def sample_local_def port_ok_def)
  have i: "h_inbox sample_idle = [6]" by (simp add: sample_idle_def)
  show "\<forall>p \<in> set (h_inbox sample_idle). serviceable P p sample_idle"
    "dropWhile (is_canceled sample_idle) (h_inbox sample_idle) = [6]"
    using w by (simp_all add: i serviceable_def is_canceled_def)
qed

theorem main_round_serves_witness:
  "\<exists>r t. main_round plain_platform sample_idle = Some (r, t) \<and> local_inv t \<and> h_inbox t = []"
  using main_round_serves [OF sample_idle_ok(1) sample_idle_served(1-3), of plain_platform]
  unfolding sample_idle_served(4) by auto

end
