(* ===== verification/Device_C.thy ===== *)
theory Device_C
  imports Device_Main
begin

text \<open>
  The example device in C, \<^verbatim>\<open>examples/virtual_device2.c\<close>: one thread that uses the C interface
  directly, keeps the port status and the address of its device itself, and gives every
  URB back at once. Output is left out.
\<close>

section \<open>State\<close>

text \<open>The variables of \<open>main\<close> that outlive a round.\<close>

record 'e c_device = "'e machine" +
  d_fd :: i32
  d_stat :: usb_vhci_port_stat
  d_adr :: u8

text \<open>A round is left with a return code, or goes on.\<close>

type_synonym 's c_round = "'s \<Rightarrow> (i32 + unit) \<times> 's"

definition c_main_start ::
  "'e platform \<Rightarrow> ('e, 'z) c_device_scheme \<Rightarrow> ('e, 'z) c_device_scheme option" where
  "c_main_start P s = do {
     (opened, s) \<leftarrow> usb_vhci_open P 1 True True True s;
     Some (s\<lparr>d_fd := or_fd opened,
             d_stat := \<lparr>ps_status = 0, ps_change = 0, ps_index = 0, ps_flags = 0\<rparr>,
             d_adr := 0xff\<rparr>) }"

section \<open>Port status\<close>

text \<open>\<open>if(b) { if(call() == -1) return 1; }\<close> and what follows.\<close>

definition call_if ::
  "bool \<Rightarrow> ('s \<Rightarrow> i32 \<times> 's) \<Rightarrow> 's c_round \<Rightarrow> 's c_round" where
  "call_if b call rest s =
     (if b then case call s of (r, s) \<Rightarrow> if r = - 1 then (Inl 1, s) else rest s
      else rest s)"

definition c_port_stat ::
  "'e platform \<Rightarrow> usb_vhci_port_stat \<Rightarrow> ('e, 'z) c_device_scheme c_round" where
  "c_port_stat P msg s =
     (let status = ps_status msg; change = ps_change msg; fl = ps_flags msg
      in if ps_index msg \<noteq> 1 then (Inl 1, s)
         else
           let prev = d_stat s; fd = d_fd s;
               s = s\<lparr>d_stat := msg\<rparr>;
               s = (if has_mask change USB_VHCI_PORT_STAT_C_CONNECTION then s\<lparr>d_adr := 0xff\<rparr> else s);
               s = (if has_mask change USB_VHCI_PORT_STAT_C_RESET \<and>
                       has_mask (NOT status) USB_VHCI_PORT_STAT_RESET \<and>
                       has_mask status USB_VHCI_PORT_STAT_ENABLE
                    then s\<lparr>d_adr := 0\<rparr> else s)
           in call_if (has_mask (NOT (ps_status prev)) USB_VHCI_PORT_STAT_POWER \<and>
                       has_mask status USB_VHCI_PORT_STAT_POWER)
                (usb_vhci_port_connect P fd 1 USB_VHCI_DATA_RATE_FULL)
              (call_if ((has_mask (NOT (ps_status prev)) USB_VHCI_PORT_STAT_RESET \<and>
                         has_mask status USB_VHCI_PORT_STAT_RESET) \<and>
                        has_mask status USB_VHCI_PORT_STAT_CONNECTION)
                (usb_vhci_port_reset_done P fd 1 1)
              (call_if ((has_mask (NOT (ps_flags prev)) (FLAG_RESUMING P) \<and>
                         has_mask fl (FLAG_RESUMING P)) \<and>
                        has_mask status USB_VHCI_PORT_STAT_CONNECTION)
                (usb_vhci_port_resumed P fd 1)
              (Pair (Inr ())))) s)"

section \<open>URBs\<close>

text \<open>\<open>if(n) p = malloc(n * sizeof *p);\<close> for a pointer that was set to \<open>NULL\<close>\<close>

definition c_new ::
  "('c option list \<Rightarrow> block) \<Rightarrow> i32 \<Rightarrow> ('e, 'z) machine_scheme \<Rightarrow> nat \<times> ('e, 'z) machine_scheme" where
  "c_new mk n s = (if n \<noteq> 0 then malloc_array mk n s else (0, s))"

text \<open>The data of the URB: after a failure both blocks are freed, and the round goes on.\<close>

definition c_fetch ::
  "'e platform \<Rightarrow> i32 \<Rightarrow> i32 \<Rightarrow> usb_vhci_urb \<Rightarrow> ('e, 'z) machine_scheme \<Rightarrow>
   ('e, 'z) machine_scheme option" where
  "c_fetch P fd res u s =
     (if res \<noteq> 0 then do {
        (r, s) \<leftarrow> usb_vhci_fetch_data P fd u s;
        if r = - 1 then do {
          s \<leftarrow> dealloc (u_buffer u) s;
          dealloc (u_iso_packets u) s }
        else Some s }
      else Some s)"

definition c_answer ::
  "'e platform \<Rightarrow> usb_vhci_urb \<Rightarrow> ('e, 'z) c_device_scheme \<Rightarrow>
   (usb_vhci_urb \<times> ('e, 'z) c_device_scheme) option" where
  "c_answer P u s =
     (if usb_vhci_is_control P (u_type u) \<and> u_epadr u AND 0x7f = 0 \<and> u_bmRequestType u = 0 \<and>
         u_bRequest u = 5
      then if u_wValue u > 0x7f then Some (u\<lparr>u_status := USB_VHCI_STATUS_STALL\<rparr>, s)
           else Some (u\<lparr>u_status := USB_VHCI_STATUS_SUCCESS\<rparr>, s\<lparr>d_adr := ucast (u_wValue u)\<rparr>)
      else c_process_urb P u s)"

definition c_urb ::
  "'e platform \<Rightarrow> i32 \<Rightarrow> usb_vhci_urb \<Rightarrow> ('e, 'z) c_device_scheme \<Rightarrow>
   ('e, 'z) c_device_scheme option" where
  "c_urb P res u s =
     (if u_devadr u \<noteq> d_adr s then Some s
      else do {
        let (p, s) = c_new Bytes (u_buffer_length u) s;
        let (q, s) = c_new Packets (u_packet_count u) s;
        let u = u\<lparr>u_buffer := p, u_iso_packets := q\<rparr>;
        s \<leftarrow> c_fetch P (d_fd s) res u s;
        (u, s) \<leftarrow> c_answer P u s;
        (_, s) \<leftarrow> usb_vhci_giveback P (d_fd s) u s;
        s \<leftarrow> dealloc (u_buffer u) s;
        dealloc (u_iso_packets u) s })"

section \<open>The loop\<close>

definition c_main_round ::
  "'e platform \<Rightarrow> ('e, 'z) c_device_scheme \<Rightarrow>
   ((i32 + unit) \<times> ('e, 'z) c_device_scheme) option" where
  "c_main_round P s =
     (case usb_vhci_fetch_work P (d_fd s) uninit_work s of (res, w, s) \<Rightarrow>
        if res = - 1 then Some (Inr (), s)
        else if wk_type w = WORK_TYPE_PORT_STAT P then
          (case wk_work w of WorkPortStat m \<Rightarrow> Some (c_port_stat P m s) | _ \<Rightarrow> None)
        else if wk_type w = WORK_TYPE_PROCESS_URB P then
          (case wk_work w of WorkUrb u \<Rightarrow> do { s \<leftarrow> c_urb P res u s; Some (Inr (), s) } | _ \<Rightarrow> None)
        else if wk_type w = WORK_TYPE_CANCEL_URB P then Some (Inr (), s)
        else Some (Inl 1, s))"

section \<open>The reaction to a port status\<close>

lemma has_mask_not:
  fixes w m :: "'a::len word"
  assumes "single_bit m" shows "has_mask (NOT w) m \<longleftrightarrow> \<not> has_mask w m"
proof -
  obtain n where n: "n < LENGTH('a)" "m = 2 ^ n" using assms by (auto simp: single_bit_def)
  have "has_mask v m \<longleftrightarrow> bit v n" for v :: "'a word"
    using n by (auto simp: has_mask_def bit_eq_iff [where 'a = "'a word"] bit_and_iff bit_two_power)
  then show ?thesis using n(1) by (simp add: bit_not_iff)
qed

lemma call_if_notify:
  assumes "\<And>t. env_only s t \<Longrightarrow> rest t = (case notify_all P fd evs t of (ok, t) \<Rightarrow> (if ok then Inr () else Inl 1, t))"
  shows "call_if b (port_call P fd 1 ev) rest s =
    (case notify_all P fd ((if b then [ev] else []) @ evs) s of (ok, t) \<Rightarrow> (if ok then Inr () else Inl 1, t))"
proof -
  obtain r t where c: "port_call P fd 1 ev s = (r, t)" by fastforce
  from assms [OF port_call_frame [OF c]] assms [of s] c show ?thesis by (simp add: call_if_def)
qed

text \<open>The address after a port status message, by the rule of \<open>local_hcd\<close>.\<close>

definition c_address :: "usb_vhci_port_stat \<Rightarrow> u8 \<Rightarrow> u8" where
  "c_address msg a = pi_adr (port_stat_update (port_stat_of msg) \<lparr>pi_adr = a, pi_stat = port_stat_default\<rparr>)"

lemma c_port_stat_run:
  assumes "single_bit (FLAG_RESUMING P)" "ps_index msg = 1"
  shows "c_port_stat P msg s =
    (let e = edge P (port_stat_of msg) (port_stat_of (d_stat s))
     in case notify_all P (d_fd s)
          (reactions (e T_Power_On) (e T_Reset) (e T_Resuming) (get_connection (port_stat_of msg)))
          (s\<lparr>d_stat := msg, d_adr := c_address msg (d_adr s)\<rparr>) of
        (ok, t) \<Rightarrow> (if ok then Inr () else Inl 1, t))"
proof -
  have bits: "single_bit USB_VHCI_PORT_STAT_POWER" "single_bit USB_VHCI_PORT_STAT_RESET"
    by (simp_all add: USB_VHCI_PORT_STAT_POWER_def USB_VHCI_PORT_STAT_RESET_def)
  let ?prev = "d_stat s" and ?fd = "d_fd s"
  let ?s = "s\<lparr>d_stat := msg, d_adr := c_address msg (d_adr s)\<rparr>"
  let ?e = "edge P (port_stat_of msg) (port_stat_of ?prev)" and ?c = "get_connection (port_stat_of msg)"
  have st: "(let s = s\<lparr>d_stat := msg\<rparr>;
               s = (if has_mask (ps_change msg) USB_VHCI_PORT_STAT_C_CONNECTION then s\<lparr>d_adr := 0xff\<rparr> else s)
           in if has_mask (ps_change msg) USB_VHCI_PORT_STAT_C_RESET \<and>
                       has_mask (NOT (ps_status msg)) USB_VHCI_PORT_STAT_RESET \<and>
                       has_mask (ps_status msg) USB_VHCI_PORT_STAT_ENABLE
              then s\<lparr>d_adr := 0\<rparr> else s) = ?s"
    using has_mask_not [OF bits(2)]
    by (simp add: c_address_def port_stat_update_def Let_def port_stat_get_defs port_stat_of_def
        port_stat_new_def)
  have ed: "has_mask (NOT (ps_status ?prev)) USB_VHCI_PORT_STAT_POWER \<and>
        has_mask (ps_status msg) USB_VHCI_PORT_STAT_POWER \<longleftrightarrow> ?e T_Power_On"
    "has_mask (NOT (ps_status ?prev)) USB_VHCI_PORT_STAT_RESET \<and>
        has_mask (ps_status msg) USB_VHCI_PORT_STAT_RESET \<longleftrightarrow> ?e T_Reset"
    "has_mask (NOT (ps_flags ?prev)) (FLAG_RESUMING P) \<and> has_mask (ps_flags msg) (FLAG_RESUMING P) \<longleftrightarrow>
        ?e T_Resuming"
    "has_mask (ps_status msg) USB_VHCI_PORT_STAT_CONNECTION \<longleftrightarrow> ?c"
    using has_mask_not [OF bits(1)] has_mask_not [OF bits(2)] has_mask_not [OF assms(1)]
    by (simp_all add: port_stat_of_gets port_stat_get_defs port_stat_of_def port_stat_new_def)
  have calls: "usb_vhci_port_connect P ?fd 1 USB_VHCI_DATA_RATE_FULL = port_call P ?fd 1 (Connect Full)"
    "usb_vhci_port_reset_done P ?fd 1 1 = port_call P ?fd 1 (ResetDone True)"
    "usb_vhci_port_resumed P ?fd 1 = port_call P ?fd 1 Resumed"
    by (simp_all add: fun_eq_iff c_bool_def)
  let ?r3 = "call_if (?e T_Resuming \<and> ?c) (port_call P ?fd 1 Resumed) (Pair (Inr ()))"
  let ?r2 = "call_if (?e T_Reset \<and> ?c) (port_call P ?fd 1 (ResetDone True)) ?r3"
  have run: "c_port_stat P msg s = call_if (?e T_Power_On) (port_call P ?fd 1 (Connect Full)) ?r2 ?s"
    unfolding st [symmetric]
    by (simp only: c_port_stat_def Let_def assms(2) simp_thms if_False ed calls)
  have r3: "?r3 t = (case notify_all P ?fd ((if ?e T_Resuming \<and> ?c then [Resumed] else []) @ []) t of
      (ok, t) \<Rightarrow> (if ok then Inr () else Inl 1, t))" for t :: "('a, 'b) c_device_scheme"
    by (rule call_if_notify) simp
  have r2: "?r2 t = (case notify_all P ?fd ((if ?e T_Reset \<and> ?c then [ResetDone True] else []) @
      ((if ?e T_Resuming \<and> ?c then [Resumed] else []) @ [])) t of
      (ok, t) \<Rightarrow> (if ok then Inr () else Inl 1, t))" for t :: "('a, 'b) c_device_scheme"
    by (rule call_if_notify) (rule r3)
  have "call_if (?e T_Power_On) (port_call P ?fd 1 (Connect Full)) ?r2 ?s =
      (case notify_all P ?fd ((if ?e T_Power_On then [Connect Full] else []) @
        ((if ?e T_Reset \<and> ?c then [ResetDone True] else []) @
         ((if ?e T_Resuming \<and> ?c then [Resumed] else []) @ []))) ?s of
      (ok, t) \<Rightarrow> (if ok then Inr () else Inl 1, t))"
    by (rule call_if_notify) (rule r2)
  then show ?thesis unfolding run by (simp only: reactions_def Let_def append_Nil2)
qed

text \<open>
  The two example devices react alike. Given the same port status message, the same status
  before, the same kernel, and the message recorded in the controller's table, the device in C++
  that serves the work object made from the message, and the device in C that serves the message,
  send the same notifications until one is refused, and stop in the same
  cases (an uncaught exception there, return code 1 here); the device in C
  keeps its address by the rule of the controller's table.
\<close>

theorem device_reactions_agree:
  assumes "abi_ok P" and "ps_index msg = 1"
    and "port_ok 1 s" and "ports_ok s" and "pi_stat (port_at 1 s) = port_stat_of msg"
    and "d_fd d = l_fd s" and "env d = env s"
  shows "\<exists>ok t d'.
    react_port_stat P (port_stat_work_of P 1 (port_stat_of msg) (port_stat_of (d_stat d))) s =
      Some (if ok then Inr () else Inl (Uncaught StdException), t) \<and>
    c_port_stat P msg d = (if ok then Inr () else Inl 1, d') \<and>
    env d' = env t \<and> d_stat d' = msg \<and> d_adr d' = c_address msg (d_adr d)"
proof -
  let ?w = "port_stat_work_of P 1 (port_stat_of msg) (port_stat_of (d_stat d))"
  let ?e = "edge P (port_stat_of msg) (port_stat_of (d_stat d))"
  have mask: "has_mask (trigger_flags (w_kind ?w)) (trigger_mask x) = ?e x" for x
    by (simp add: port_stat_work_of_def cpp_triggers_byte trigger_byte_mask del: edge.simps trigger_mask.simps)
  have trig: "triggers_power_on ?w = ?e T_Power_On" "triggers_reset ?w = ?e T_Reset"
    "triggers_resuming ?w = ?e T_Resuming" "w_port ?w = 1"
    using mask [of T_Power_On] mask [of T_Reset] mask [of T_Resuming]
    by (simp_all add: triggers_power_on_def triggers_reset_def triggers_resuming_def port_stat_work_of_def
        del: edge.simps)
  let ?evs = "reactions (?e T_Power_On) (?e T_Reset) (?e T_Resuming) (get_connection (port_stat_of msg))"
  let ?d = "d\<lparr>d_stat := msg, d_adr := c_address msg (d_adr d)\<rparr>"
  obtain ok t where t: "notify_all P (l_fd s) ?evs s = (ok, t)" by fastforce
  obtain ok' d' where d: "notify_all P (l_fd s) ?evs ?d = (ok', d')" by fastforce
  have "env ?d = env s" using assms(7) by simp
  from notify_all_env [OF this, of P "l_fd s" ?evs] t d have same: "ok' = ok" "env d' = env t" by simp_all
  have "d_stat d' = msg" "d_adr d' = c_address msg (d_adr d)"
    using notify_all_frame [OF d] by (auto simp: env_only_def)
  moreover have "react_port_stat P ?w s = Some (if ok then Inr () else Inl (Uncaught StdException), t)"
    using react_port_stat_run [OF assms(3,4) trig(4), of P] t assms(5)
    by (simp only: trig(1-3) noted_def fst_conv snd_conv)
  moreover have "c_port_stat P msg d = (if ok then Inr () else Inl 1, d')"
    using c_port_stat_run [OF abi_ok_parts(4) [OF assms(1)] assms(2), of d] d same(1) assms(6)
    by (simp only: Let_def prod.case)
  ultimately show ?thesis using same(2) by blast
qed

section \<open>The memory of a URB\<close>

text \<open>The blocks a round has allocated for a URB, next to memory that is as it was.\<close>

definition borrowed ::
  "('e, 'z) machine_scheme \<Rightarrow> usb_vhci_urb \<Rightarrow> ('e, 'y) machine_scheme \<Rightarrow> bool" where
  "borrowed s u t \<longleftrightarrow> heap_ok t \<and> urb_mem t u \<and> (\<forall>x \<in> urb_blocks u. heap s x = None) \<and>
     (\<forall>x. x \<notin> urb_blocks u \<longrightarrow> heap t x = heap s x)"

lemma c_new_run:
  assumes "heap_ok s" "oom s = []" "0 \<le>s n" "c_new mk n s = (p, t)"
  shows "heap_ok t" "oom t = []" "env t = env s" "machine.more t = machine.more s"
    "if n = 0 then p = 0 \<and> heap t = heap s
     else p \<noteq> 0 \<and> heap s p = None \<and> heap t = (heap s)(p \<mapsto> mk (cells n))"
proof -
  have "heap_ok t \<and> oom t = [] \<and> env t = env s \<and> machine.more t = machine.more s \<and>
    (if n = 0 then p = 0 \<and> heap t = heap s
     else p \<noteq> 0 \<and> heap s p = None \<and> heap t = (heap s)(p \<mapsto> mk (cells n)))"
  proof (cases "n = 0")
    case True
    then show ?thesis using assms by (simp add: c_new_def)
  next
    case False
    have m: "malloc_array mk n s = (p, t)" using assms(4) False by (simp add: c_new_def)
    then have o: "oom t = []"
      using assms(2,3) by (auto simp: malloc_array_def malloc_def alloc_def alloc_fails_def
          split: if_splits prod.splits)
    from assms(1,3) m show ?thesis
    proof (cases rule: malloc_array_cases)
      case fail
      then show ?thesis using assms(2) by (simp add: alloc_fails_def)
    next
      case ok
      then show ?thesis using o False by simp
    qed
  qed
  then show "heap_ok t" "oom t = []" "env t = env s" "machine.more t = machine.more s"
    "if n = 0 then p = 0 \<and> heap t = heap s
     else p \<noteq> 0 \<and> heap s p = None \<and> heap t = (heap s)(p \<mapsto> mk (cells n))" by blast+
qed

lemma c_new_urb:
  assumes "heap_ok s" "oom s = []" "0 \<le>s u_buffer_length u" "0 \<le>s u_packet_count u"
    and new: "c_new Bytes (u_buffer_length u) s = (p, s1)" "c_new Packets (u_packet_count u) s1 = (q, s2)"
  shows "borrowed s (u\<lparr>u_buffer := p, u_iso_packets := q\<rparr>) s2" "oom s2 = []" "env s2 = env s"
    "machine.more s2 = machine.more s" "u_buffer_length u \<noteq> 0 \<or> u_packet_count u \<noteq> 0 \<Longrightarrow> p \<noteq> 0 \<or> q \<noteq> 0"
proof -
  note n1 = c_new_run [OF assms(1-3) new(1)]
  note n2 = c_new_run [OF n1(1,2) assms(4) new(2)]
  show "oom s2 = []" "env s2 = env s" "machine.more s2 = machine.more s"
    "u_buffer_length u \<noteq> 0 \<or> u_packet_count u \<noteq> 0 \<Longrightarrow> p \<noteq> 0 \<or> q \<noteq> 0"
    using n1 n2 by (auto split: if_splits)
  show "borrowed s (u\<lparr>u_buffer := p, u_iso_packets := q\<rparr>) s2"
    using n1(5) n2(1,5) assms(3,4)
    by (auto simp: borrowed_def urb_mem_def urb_blocks_def bytes_at_iff packets_at_iff cells_def split: if_splits)
qed

text \<open>Freeing both blocks gives the memory back as it was.\<close>

lemma borrowed_free:
  assumes "borrowed s u t"
  shows "\<exists>t1 t2. dealloc (u_buffer u) t = Some t1 \<and> dealloc (u_iso_packets u) t1 = Some t2 \<and>
    heap t2 = heap s \<and> env t2 = env t \<and> oom t2 = oom t \<and> machine.more t2 = machine.more t \<and> heap_ok t2"
proof -
  have mem: "urb_mem t u" and none: "\<And>x. x \<in> urb_blocks u \<Longrightarrow> heap s x = None"
    and other: "\<And>x. x \<notin> urb_blocks u \<Longrightarrow> heap t x = heap s x"
    using assms by (auto simp: borrowed_def)
  have b: "u_buffer u = 0 \<or> heap t (u_buffer u) \<noteq> None"
    "u_iso_packets u = 0 \<or> heap t (u_iso_packets u) \<noteq> None \<and> u_iso_packets u \<noteq> u_buffer u"
    using mem by (auto simp: urb_mem_def bytes_at_iff packets_at_iff split: if_splits)
  define t1 where "t1 = (if u_buffer u = 0 then t else t\<lparr>heap := (heap t)(u_buffer u := None)\<rparr>)"
  define t2 where "t2 = (if u_iso_packets u = 0 then t1 else t1\<lparr>heap := (heap t1)(u_iso_packets u := None)\<rparr>)"
  have "dealloc (u_buffer u) t = Some t1" "dealloc (u_iso_packets u) t1 = Some t2"
    using b by (auto simp: t1_def t2_def dealloc_Some)
  moreover have "heap t2 = heap s"
  proof
    fix x show "heap t2 x = heap s x"
      using none [of x] other [of x] by (auto simp: t1_def t2_def urb_blocks_def)
  qed
  moreover have "env t2 = env t" "oom t2 = oom t" "machine.more t2 = machine.more t"
    by (simp_all add: t1_def t2_def)
  moreover have "heap_ok t2" using assms by (auto simp: t1_def t2_def borrowed_def heap_ok_def)
  ultimately show ?thesis by blast
qed

text \<open>The data has arrived.\<close>

lemma c_fetch_run:
  assumes "borrowed s u t" "fetch_data_ok P" "oom t = []"
    and "usb_vhci_fetch_data P fd u t = Some (r, t')" "r \<noteq> - 1"
  shows "borrowed s u t'" "oom t' = []" "machine.more t' = machine.more t" "packets_set t' u"
    "env t' = fst (p_fetch_data P fd (fetch_request t u) (env t))"
proof -
  have mem: "urb_mem t u" and ok: "heap_ok t" using assms(1) by (simp_all add: borrowed_def)
  have f: "fetched P fd u t r t'"
    using fetch_data_run [OF ok mem assms(2), of fd] assms(4) by auto
  then obtain data pkts where d: "snd (p_fetch_data P fd (fetch_request t u) (env t)) = Inr (data, pkts)"
    using assms(5) by (auto simp: fetched_def split: sum.splits)
  then have h: "heap t' = fetched_heap (heap t) u data pkts" using f by (simp add: fetched_def)
  have "fetch_reply_ok (fetch_request t u) (data, pkts)"
    using assms(2) d unfolding fetch_data_ok_def by blast
  then have len: "length data \<le> unat (u_buffer_length u)" "length pkts = unat (u_packet_count u)"
    by (simp_all add: fetch_reply_ok_def fetch_request_def)
  have "urb_mem t' u" by (rule urb_mem_fetched [OF mem h len])
  moreover have "heap t' x = heap s x" if "x \<notin> urb_blocks u" for x
  proof (cases "x = 0")
    case True
    then show ?thesis
      using f ok assms(1) that heap_ok_null [of t] heap_ok_null [of t'] by (simp add: fetched_def borrowed_def)
  next
    case False
    then show ?thesis using that h fetched_heap_other assms(1) by (simp add: borrowed_def)
  qed
  ultimately show "borrowed s u t'" using assms(1) f by (simp add: borrowed_def fetched_def)
  show "oom t' = []" using fetch_data_oom [OF ok assms(4)] assms(3) by simp
  show "machine.more t' = machine.more t"
    "env t' = fst (p_fetch_data P fd (fetch_request t u) (env t))" using f by (simp_all add: fetched_def)
  show "packets_set t' u"
  proof (cases "u_packet_count u = 0")
    case False
    then have "pkts \<noteq> []" "u_iso_packets u \<noteq> 0"
      using len(2) mem by (auto simp: unat_eq_zero urb_mem_def packets_at_iff)
    then show ?thesis using h by (simp add: packets_set_iff fetched_heap_def flip: map_map)
  qed (simp add: packets_set_def)
qed

lemma borrowed_answer:
  assumes "borrowed s u t" "answered_in t u v t'"
  shows "borrowed s v t'" "packets_set t u \<Longrightarrow> packets_set t' v" "u_handle v = u_handle u"
    "u_type v = u_type u" "t' = t\<lparr>heap := heap t'\<rparr>" "u_buffer v = u_buffer u" "u_iso_packets v = u_iso_packets u"
proof -
  obtain st l where v: "v = u\<lparr>u_status := st, u_buffer_actual := l\<rparr>"
    using assms(2) unfolding answered_in_def by blast
  have a: "urb_mem t' v" "\<And>x. x \<notin> {u_buffer u} - {0} \<Longrightarrow> heap t' x = heap t x" "t' = t\<lparr>heap := heap t'\<rparr>"
    using assms(2) unfolding answered_in_def by blast+
  then show "t' = t\<lparr>heap := heap t'\<rparr>" by blast
  show "u_handle v = u_handle u" "u_type v = u_type u" "u_buffer v = u_buffer u" "u_iso_packets v = u_iso_packets u"
    by (simp_all add: v)
  have blk: "urb_blocks v = urb_blocks u" by (simp add: v urb_blocks_def)
  have mem: "urb_mem t u" and ok: "heap_ok t" using assms(1) by (simp_all add: borrowed_def)
  have live: "heap t x \<noteq> None" if "x \<in> urb_blocks u" for x
    using that mem by (auto simp: urb_blocks_def urb_mem_def bytes_at_iff packets_at_iff split: if_splits)
  have "heap_ok t'"
  proof -
    have "brk t' = brk t" by (subst a(3)) simp
    moreover have "heap t x \<noteq> None" if "heap t' x \<noteq> None" for x
    proof (cases "x \<in> urb_blocks u")
      case False
      then have "heap t' x = heap t x" by (intro a(2)) (auto simp: urb_blocks_def)
      then show ?thesis using that by simp
    qed (rule live)
    ultimately show ?thesis using ok by (simp add: heap_ok_def)
  qed
  moreover have "heap t' x = heap s x" if "x \<notin> urb_blocks u" for x
  proof -
    have "heap t' x = heap t x" using that by (intro a(2)) (auto simp: urb_blocks_def)
    then show ?thesis using that assms(1) by (simp add: borrowed_def)
  qed
  ultimately show "borrowed s v t'" using assms(1) a(1) by (simp add: borrowed_def blk)
  assume ps: "packets_set t u"
  show "packets_set t' v"
  proof (cases "u_packet_count u = 0")
    case False
    then have "u_iso_packets u \<notin> {u_buffer u} - {0}"
      using mem by (auto simp: urb_mem_def packets_at_iff bytes_at_iff split: if_splits)
    then have "packets_set t' u = packets_set t u" by (intro packets_set_frame) (rule a(2))
    then show ?thesis using ps v by (simp add: packets_set_def)
  qed (simp add: packets_set_def v)
qed

lemma c_answer_run:
  fixes t :: "('a, 'c) c_device_scheme"
  assumes "borrowed s u t" "unat (u_wLength u) \<le> unat (u_buffer_length u)"
  shows "\<exists>v t'. c_answer P u t = Some (v, t') \<and> borrowed s v t' \<and> (packets_set t u \<longrightarrow> packets_set t' v) \<and>
    u_handle v = u_handle u \<and> u_type v = u_type u \<and> u_buffer v = u_buffer u \<and>
    u_iso_packets v = u_iso_packets u \<and> oom t' = oom t \<and> env t' = env t \<and> d_fd t' = d_fd t"
proof -
  have plain: "borrowed s (u\<lparr>u_status := x\<rparr>) t'" "packets_set t' (u\<lparr>u_status := x\<rparr>) = packets_set t u"
    if "heap t' = heap t" "brk t' = brk t" for x and t' :: "('a, 'c) c_device_scheme"
    using assms(1) that urb_mem_cong [of u t' t] packets_set_frame [of u t' t]
    by (simp_all add: borrowed_def urb_blocks_def heap_ok_def packets_set_def)
  show ?thesis
  proof (cases "usb_vhci_is_control P (u_type u) \<and> u_epadr u AND 0x7f = 0 \<and> u_bmRequestType u = 0 \<and>
         u_bRequest u = 5")
    case True
    then show ?thesis
      using plain [of t] plain [of "t\<lparr>d_adr := ucast (u_wValue u)\<rparr>"] by (simp add: c_answer_def)
  next
    case False
    have "urb_mem t u" using assms(1) by (simp add: borrowed_def)
    from c_process_urb_run [OF this assms(2), of P] obtain v t' where
      r: "c_process_urb P u t = Some (v, t')" "answered_in t u v t'" by blast
    note b = borrowed_answer [OF assms(1) r(2)]
    have "oom t' = oom t" "env t' = env t" "d_fd t' = d_fd t" by (subst b(5), simp)+
    moreover have "c_answer P u t = Some (v, t')" unfolding c_answer_def by (subst if_not_P [OF False]) (rule r(1))
    ultimately show ?thesis using b by blast
  qed
qed

text \<open>
  C28. The device in C neither leaks nor frees twice, as long as the kernel delivers the data it
  announced. A URB for another address is ignored. For a URB for its own address, with memory left,
  the round answers, gives the URB back with exactly one request that carries its
  handle, after fetching its data with one request if there is any, and leaves the memory exactly
  as it was.
\<close>

theorem c_urb_frees_all:
  assumes "heap_ok s" and "oom s = []" and "fetch_data_ok P"
    and "0 \<le>s u_buffer_length u" and "0 \<le>s u_packet_count u" and "u_packet_count u \<noteq> 0 \<longrightarrow> res \<noteq> 0"
    and "unat (u_wLength u) \<le> unat (u_buffer_length u)"
    and "\<forall>q e. (id_packet_count q \<noteq> 0 \<longrightarrow> id_iso_packets q \<noteq> 0) \<longrightarrow>
           \<not> isl (snd (p_fetch_data P (d_fd s) q e))"
  shows "if u_devadr u \<noteq> d_adr s then c_urb P res u s = Some s
    else \<exists>t e req. c_urb P res u s = Some t \<and> heap t = heap s \<and> heap_ok t \<and> d_fd t = d_fd s \<and>
      ig_handle req = u_handle u \<and> env t = fst (p_giveback P (d_fd s) req e) \<and>
      (if res = 0 then e = env s
       else \<exists>q. id_handle q = u_handle u \<and> e = fst (p_fetch_data P (d_fd s) q (env s)))"
proof (cases "u_devadr u = d_adr s")
  case True
  obtain p s1 q s2 where new: "c_new Bytes (u_buffer_length u) s = (p, s1)"
    "c_new Packets (u_packet_count u) s1 = (q, s2)" by fastforce
  note n = c_new_urb [OF assms(1,2,4,5) new]
  let ?u = "u\<lparr>u_buffer := p, u_iso_packets := q\<rparr>"
  have fd2: "d_fd s2 = d_fd s" using n(4) by (cases s; cases s2; simp)
  have mem2: "urb_mem s2 ?u" and ok2: "heap_ok s2" using n(1) by (simp_all add: borrowed_def)
  obtain s3 where s3: "c_fetch P (d_fd s2) res ?u s2 = Some s3" "borrowed s ?u s3" "oom s3 = []"
    "machine.more s3 = machine.more s2" "packets_set s3 ?u"
    "if res = 0 then env s3 = env s
     else \<exists>q. id_handle q = u_handle u \<and> env s3 = fst (p_fetch_data P (d_fd s) q (env s))"
  proof (cases "res = 0")
    case True
    then have "packets_set s2 ?u" using assms(6) by (simp add: packets_set_def)
    then show thesis using that [of s2] True n(1-3) by (simp add: c_fetch_def)
  next
    case False
    obtain r s3 where f: "usb_vhci_fetch_data P (d_fd s2) ?u s2 = Some (r, s3)" "fetched P (d_fd s2) ?u s2 r s3"
      using fetch_data_run [OF ok2 mem2 assms(3)] by blast
    have "id_packet_count (fetch_request s2 ?u) \<noteq> 0 \<longrightarrow> id_iso_packets (fetch_request s2 ?u) \<noteq> 0"
      using n(2) ok2 by (simp add: fetch_request_def alloc_fails_def heap_ok_def)
    then have "\<not> isl (snd (p_fetch_data P (d_fd s) (fetch_request s2 ?u) (env s2)))"
      using assms(8) by blast
    then have "r \<noteq> - 1"
      using f(2) fd2 by (auto simp: fetched_def split: sum.splits)
    note c = c_fetch_run [OF n(1) assms(3) n(2) f(1) this]
    moreover have "id_handle (fetch_request s2 ?u) = u_handle u" by (simp add: fetch_request_def)
    ultimately show thesis
      using that [of s3] False f(1) \<open>r \<noteq> - 1\<close> n(3) fd2 by (auto simp: c_fetch_def)
  qed
  have fd3: "d_fd s3 = d_fd s" using s3(4) fd2 by (cases s3; cases s2; simp)
  have "unat (u_wLength ?u) \<le> unat (u_buffer_length ?u)" using assms(7) by simp
  from c_answer_run [OF s3(2) this, of P] s3(5) obtain v s4 where
    s4: "c_answer P ?u s3 = Some (v, s4)" "borrowed s v s4" "packets_set s4 v" "u_handle v = u_handle u"
      "oom s4 = []" "env s4 = env s3" "d_fd s4 = d_fd s" "u_buffer v = p" "u_iso_packets v = q"
    using s3(3) fd3 by auto
  have mem4: "urb_mem s4 v" "heap_ok s4" using s4(2) by (simp_all add: borrowed_def)
  have "giveback_ready P s4 v"
    using s4(3) alloc_never_fails [OF s4(5)] by (simp add: giveback_ready_def)
  with giveback_run [OF mem4(2,1), of P "d_fd s"] obtain r s5 where
    s5: "usb_vhci_giveback P (d_fd s) v s4 = Some (r, s5)" "quiet s4 s5"
      "env s5 = fst (p_giveback P (d_fd s) (giveback_request P s4 v (giveback_packets P s4 v)) (env s3))"
    using s4(6) by auto
  have "borrowed s v s5"
    using s4(2) s5(2) urb_mem_cong [of v s5 s4] by (simp add: borrowed_def quiet_def)
  from borrowed_free [OF this] s4(8,9) obtain t1 t where
    t: "dealloc p s5 = Some t1" "dealloc q t1 = Some t" "heap t = heap s" "env t = env s5"
      "machine.more t = machine.more s5" "heap_ok t" by auto
  have "c_urb P res u s = Some t"
    using True new s3(1) s4(1,7-9) s5(1) t(1,2) by (simp add: c_urb_def Let_def fd2)
  moreover note t(6)
  moreover have "d_fd t = d_fd s"
    using t(5) s5(2) s4(7) unfolding quiet_def by (cases t; cases s5; cases s4; simp)
  moreover have "ig_handle (giveback_request P s4 v (giveback_packets P s4 v)) = u_handle u"
    using s4(4) by (simp add: giveback_request_def Let_def)
  moreover note t(3)
  moreover have "env t = fst (p_giveback P (d_fd s) (giveback_request P s4 v (giveback_packets P s4 v)) (env s3))"
    using t(4) s5(3) by simp
  ultimately obtain t req where "c_urb P res u s = Some t" "heap t = heap s" "heap_ok t" "d_fd t = d_fd s"
      "ig_handle req = u_handle u" "env t = fst (p_giveback P (d_fd s) req (env s3))" by blast
  then show ?thesis
    using True s3(6) by (simp, intro exI [of _ "env s3"]) (auto intro: exI [of _ req])
qed (simp add: c_urb_def)

lemma store_dom: "store p b s = Some t \<Longrightarrow> dom (heap t) = dom (heap s)"
  by (auto simp: store_Some)

lemma c_answer_dom:
  assumes "c_answer P u s = Some (v, t)"
  shows "u_buffer v = u_buffer u \<and> u_iso_packets v = u_iso_packets u \<and> (\<forall>x. heap s x = None \<longrightarrow> heap t x = None)"
proof -
  have w: "heap t x = None" if "write_bytes d n p s = Some t" "heap s x = None" for d n p x
      and s t :: "('a, 'b) c_device_scheme"
    using that by (auto simp: write_bytes_def Option.bind_eq_Some_conv store_Some split: if_splits)
  have a: "u_buffer v = u_buffer u \<and> u_iso_packets v = u_iso_packets u \<and> (\<forall>x. heap s x = None \<longrightarrow> heap t x = None)"
    if "c_answer_from d n u s = Some (v, t)" for d n v and s t :: "('a, 'b) c_device_scheme"
    using that w by (auto simp: c_answer_from_def Let_def Option.bind_eq_Some_conv)
  show ?thesis
    using assms a
    by (auto simp: c_answer_def c_process_urb_def Let_def Option.bind_eq_Some_conv split: if_splits)
qed

lemma giveback_dom:
  assumes "usb_vhci_giveback P fd u s = Some (r, t)" "heap s x = None" "x \<noteq> 0"
  shows "heap t x = None"
proof -
  obtain q s1 where m: "(if usb_vhci_is_iso P (u_type u) then malloc_array IocStatus (u_packet_count u) s
      else (0, s)) = (q, s1)" by fastforce
  have h1: "heap s1 x = None" if "x \<noteq> q"
    using m that assms(2) by (auto simp: malloc_array_def malloc_def alloc_def alloc_fails_def
        split: if_splits prod.splits bool.splits list.splits)
  obtain s2 where l: "(if usb_vhci_is_iso P (u_type u)
      then for_upto 0 (nat (sint (u_packet_count u))) (give_iso_packet u q) s1 else Some s1) = Some s2"
    and d: "heap t = (if q = 0 then heap s2 else (heap s2)(q := None))"
    using assms(1) unfolding usb_vhci_giveback_def Let_def m
    by (auto simp: Option.bind_eq_Some_conv syscall_def dealloc_Some
        split: prod.splits sum.splits option.splits if_splits)
  have "dom (heap t') = dom (heap s')" if "give_iso_packet u q i s' = Some t'" for i and s' t' :: "('a, 'b) machine_scheme"
    using that by (auto simp: give_iso_packet_def Option.bind_eq_Some_conv store_Some split: if_splits)
  then have "dom (heap s2) = dom (heap s1)"
    using l for_upto_preserves [where f = "\<lambda>s. dom (heap s)" and body = "give_iso_packet u q" and t = s2]
    by (auto split: if_splits)
  then show ?thesis
    using h1 d assms(3) by (cases "x = q") (auto simp: domIff)
qed

text \<open>
  C29. When the kernel refuses the data (the host has cancelled the URB, say), the device in C
  frees the blocks of the URB and goes on to use them: whatever else it then does with the
  URB, the round ends in a fault, at the latest when it frees the blocks again.
\<close>

theorem c_urb_double_free:
  assumes "heap_ok s" and "oom s = []" and "fetch_data_ok P"
    and "0 \<le>s u_buffer_length u" and "0 \<le>s u_packet_count u"
    and "u_devadr u = d_adr s" and "res \<noteq> 0" and "u_buffer_length u \<noteq> 0 \<or> u_packet_count u \<noteq> 0"
    and "\<forall>q e. isl (snd (p_fetch_data P (d_fd s) q e))"
  shows "c_urb P res u s = None"
proof -
  obtain p s1 q s2 where new: "c_new Bytes (u_buffer_length u) s = (p, s1)"
    "c_new Packets (u_packet_count u) s1 = (q, s2)" by fastforce
  note n = c_new_urb [OF assms(1,2,4,5) new]
  let ?u = "u\<lparr>u_buffer := p, u_iso_packets := q\<rparr>"
  have fd2: "d_fd s2 = d_fd s" using n(4) by (cases s; cases s2; simp)
  have mem2: "urb_mem s2 ?u" and ok2: "heap_ok s2" using n(1) by (simp_all add: borrowed_def)
  obtain r s3 where f: "usb_vhci_fetch_data P (d_fd s2) ?u s2 = Some (r, s3)" "fetched P (d_fd s2) ?u s2 r s3"
    using fetch_data_run [OF ok2 mem2 assms(3)] by blast
  have r: "r = - 1" "heap s3 = heap s2" "heap_ok s3"
    using f(2) assms(9) [rule_format, of "fetch_request s2 ?u" "env s2"] fd2
    by (auto simp: fetched_def split: sum.splits)
  have "borrowed s ?u s3" using n(1) r(2,3) urb_mem_cong [of ?u s3 s2] by (simp add: borrowed_def)
  from borrowed_free [OF this] obtain t1 s4 where
    t: "dealloc p s3 = Some t1" "dealloc q t1 = Some s4" "heap s4 = heap s" by auto
  have run: "c_urb P res u s = do {
      (v, s) \<leftarrow> c_answer P ?u s4;
      (_, s) \<leftarrow> usb_vhci_giveback P (d_fd s) v s;
      s \<leftarrow> dealloc (u_buffer v) s;
      dealloc (u_iso_packets v) s }"
    using assms(6,7) new f(1) r(1) t(1,2) by (simp add: c_urb_def c_fetch_def Let_def)
  define x where "x = (if p \<noteq> 0 then p else q)"
  have dead: "heap s x = None" "x \<noteq> 0"
    using n(1,5) assms(8) by (auto simp: x_def borrowed_def urb_blocks_def)
  show ?thesis
  proof (rule ccontr)
    assume "c_urb P res u s \<noteq> None"
    then obtain v s' r s'' t1 t2 where a: "c_answer P ?u s4 = Some (v, s')"
      and g: "usb_vhci_giveback P (d_fd s') v s' = Some (r, s'')"
      and f: "dealloc (u_buffer v) s'' = Some t1" "dealloc (u_iso_packets v) t1 = Some t2"
      unfolding run by (auto simp: Option.bind_eq_Some_conv)
    have v: "u_buffer v = p" "u_iso_packets v = q" "heap s' x = None"
      using c_answer_dom [OF a] dead(1) t(3) by simp_all
    have "heap s'' x = None" by (rule giveback_dom [OF g v(3) dead(2)])
    then show False using f v(1,2) dead(2) by (auto simp: x_def dealloc_Some split: if_splits)
  qed
qed

section \<open>Witnesses\<close>

definition sample_device :: "log c_device" where
  "sample_device = \<lparr>env = [], errno = 0, heap = Map.empty, brk = 1, oom = [], naps = [], d_fd = 3,
     d_stat = \<lparr>ps_status = 0, ps_change = 0, ps_index = 0, ps_flags = 0\<rparr>, d_adr = 4\<rparr>"

text \<open>The port gets power.\<close>

definition sample_power_on :: usb_vhci_port_stat where
  "sample_power_on = \<lparr>ps_status = 0x0100, ps_change = 0, ps_index = 1, ps_flags = 0\<rparr>"

theorem device_reactions_agree_witness:
  "\<exists>d'. c_port_stat plain_platform sample_power_on sample_device = (Inr (), d') \<and>
     env d' = [SentPortStat (event_msg 1 (Connect Full))] \<and> d_stat d' = sample_power_on"
proof -
  let ?s = "set_port_entry 1 \<lparr>pi_adr = 0xff, pi_stat = port_stat_of sample_power_on\<rparr> sample_local"
  let ?prev = "port_stat_of (d_stat sample_device)"
  have s: "port_ok 1 ?s" "ports_ok ?s" "pi_stat (port_at 1 ?s) = port_stat_of sample_power_on"
    "d_fd sample_device = l_fd ?s" "env sample_device = env ?s" "l_fd ?s = 3" "env ?s = []"
    by (simp_all add: set_port_entry_def sample_local_def port_ok_def ports_ok_def port_at_def sample_device_def)
  have ix: "ps_index sample_power_on = 1" by (simp add: sample_power_on_def)
  from device_reactions_agree [OF sample_abi_ok(2) ix s(1-5)] obtain ok t d' where
    r: "react_port_stat plain_platform (port_stat_work_of plain_platform 1 (port_stat_of sample_power_on) ?prev) ?s =
        Some (if ok then Inr () else Inl (Uncaught StdException), t)"
      "c_port_stat plain_platform sample_power_on sample_device = (if ok then Inr () else Inl 1, d')"
      "env d' = env t" "d_stat d' = sample_power_on" by blast
  let ?e = "edge plain_platform (port_stat_of sample_power_on) ?prev"
  have w: "w_port (port_stat_work_of plain_platform 1 st p) = 1" for st p by (simp add: port_stat_work_of_def)
  have e: "trigger_flags (w_kind (port_stat_work_of plain_platform 1 (port_stat_of sample_power_on) ?prev)) = 0x10"
    by (simp add: port_stat_work_of_def cpp_triggers_byte trigger_byte_def port_stat_of_gets has_mask_def
        sample_power_on_def sample_device_def)
  have "reactions (triggers_power_on w) (triggers_reset w) (triggers_resuming w) c = [Connect Full]"
    if "w = port_stat_work_of plain_platform 1 (port_stat_of sample_power_on) ?prev" for w c
    using e that by (simp add: triggers_power_on_def triggers_reset_def triggers_resuming_def has_mask_def
        reactions_def)
  moreover have "port_bits_ok plain_platform" using sample_abi_ok(2) abi_ok_parts(3) by blast
  then have "notify_all plain_platform 3 [Connect Full] ?s =
      (True, ?s\<lparr>env := [SentPortStat (event_msg 1 (Connect Full))]\<rparr>)"
    using s(7) by (simp add: port_call_send send_port_stat_syscall sample_platform_simps del: port_call.simps)
  ultimately have "ok \<and> env t = [SentPortStat (event_msg 1 (Connect Full))]"
    using react_port_stat_run [OF s(1,2) w, of plain_platform "port_stat_of sample_power_on" ?prev] r(1) s(6)
    by (auto simp: noted_def split: if_splits)
  then show ?thesis using r(2-4) by auto
qed

text \<open>Eight bytes of the device descriptor are asked for.\<close>

definition sample_c_request :: usb_vhci_urb where
  "sample_c_request = (sample_request 0x0100 8)\<lparr>u_devadr := 4\<rparr>"

theorem c_urb_frees_all_witness:
  "\<exists>t. c_urb plain_platform 1 sample_c_request sample_device = Some t \<and> heap t = Map.empty"
proof -
  have ok: "heap_ok sample_device" "oom sample_device = []" "heap sample_device = Map.empty"
    by (simp_all add: sample_device_def heap_ok_def)
  have u: "0 \<le>s u_buffer_length sample_c_request" "0 \<le>s u_packet_count sample_c_request"
    "u_packet_count sample_c_request \<noteq> 0 \<longrightarrow> (1 :: i32) \<noteq> 0"
    "unat (u_wLength sample_c_request) \<le> unat (u_buffer_length sample_c_request)"
    "u_devadr sample_c_request = d_adr sample_device"
    by (simp_all add: sample_c_request_def sample_request_def zero_urb_def word_sle_eq sample_device_def)
  have f: "fetch_data_ok plain_platform" using fetch_data_ok_sample by (simp add: plain_platform_def)
  have "\<forall>q e. (id_packet_count q \<noteq> 0 \<longrightarrow> id_iso_packets q \<noteq> 0) \<longrightarrow>
      \<not> isl (snd (p_fetch_data plain_platform (d_fd sample_device) q e))"
    by (simp add: sample_platform_simps sample_reply_def)
  from c_urb_frees_all [OF ok(1,2) f u(1-4) this] u(5) ok(3) show ?thesis by auto
qed

theorem c_urb_double_free_witness:
  "c_urb (sample_platform (Inl 0) (\<lambda>q. Inl ECANCELED) (Inl 0)) 1 sample_c_request sample_device = None"
proof (rule c_urb_double_free)
  show "heap_ok sample_device" "oom sample_device = []"
    by (simp_all add: sample_device_def heap_ok_def)
  show "0 \<le>s u_buffer_length sample_c_request" "0 \<le>s u_packet_count sample_c_request"
    "u_devadr sample_c_request = d_adr sample_device"
    "u_buffer_length sample_c_request \<noteq> 0 \<or> u_packet_count sample_c_request \<noteq> 0"
    by (simp_all add: sample_c_request_def sample_request_def zero_urb_def word_sle_eq sample_device_def)
  show "fetch_data_ok (sample_platform (Inl 0) (\<lambda>q. Inl ECANCELED) (Inl 0))"
    by (simp add: fetch_data_ok_def sample_platform_simps)
qed (simp_all add: sample_platform_simps)

end
