(* ===== verification/Device_Wakeup.thy ===== *)
theory Device_Wakeup
  imports Vhci_Prelude
begin

text \<open>
  How the two threads of \<^verbatim>\<open>examples/virtual_device.cpp\<close> meet: the background thread pushes a
  work into the inbox and calls \<open>signal_work_enqueued\<close>; the main thread waits on a condition
  variable before each round, unless the last one said that more is waiting. The threads run
  in any order; a step is what a thread does while it holds a mutex. The controller's mutex is
  held from the push to the end of the callback, so that \<open>next_work\<close> cannot come in between, but
  the wait, which takes the other mutex, can.
\<close>

section \<open>The code\<close>

record sync =
  has_work :: bool
  waiting_for_work :: bool

definition sync_start :: sync where
  "sync_start = \<lparr>has_work = True, waiting_for_work = False\<rparr>"

text \<open>The callback: the new flags, and whether the condition variable is signalled.\<close>

definition signal_work_enqueued :: "sync \<Rightarrow> bool \<times> sync" where
  "signal_work_enqueued s =
     (let s = s\<lparr>has_work := True\<rparr>
      in if waiting_for_work s then (True, s\<lparr>waiting_for_work := False\<rparr>) else (False, s))"

text \<open>The critical section in front of a round: whether the thread goes to sleep.\<close>

definition wait_for_work :: "sync \<Rightarrow> bool \<times> sync" where
  "wait_for_work s =
     (if \<not> has_work s then (True, s\<lparr>waiting_for_work := True\<rparr>)
      else (False, s\<lparr>has_work := False\<rparr>))"

section \<open>The two threads\<close>

text \<open>
  Where the main thread is: before the callback is registered, before the wait, asleep in
  \<open>pthread_cond_wait\<close>, before \<open>next_work\<close>, or serving a work with the value of \<open>cont\<close>.
\<close>

datatype main_pc = Register | Check | Asleep | Fetch | Serve bool

record threads =
  flags :: sync
  pc :: main_pc
  queued :: nat
  calling :: bool

definition threads_start :: threads where
  "threads_start = \<lparr>flags = sync_start, pc = Register, queued = 0, calling = False\<rparr>"

text \<open>
  \<open>queued\<close> is the number of works that wait in the inbox and are not cancelled, \<open>calling\<close> says that
  the background thread has pushed a work and not yet returned from the callbacks. \<open>cancel\<close>: one of
  the works is cancelled; it stays in the inbox, so that \<open>next_work\<close> may tell that more is waiting
  when nothing is. \<open>spurious\<close>: \<open>pthread_cond_wait\<close> may return without a signal.
\<close>

datatype thread_step = push | callback | register | check | spurious | cancel | fetch | finished

inductive step :: "thread_step \<Rightarrow> threads \<Rightarrow> threads \<Rightarrow> bool" where
  push: "\<not> calling c \<Longrightarrow> step push c (c\<lparr>queued := Suc (queued c), calling := True\<rparr>)"
| callback: "calling c \<Longrightarrow> pc c \<noteq> Register \<Longrightarrow> signal_work_enqueued (flags c) = (sig, f) \<Longrightarrow>
    step callback c (c\<lparr>flags := f, calling := False,
      pc := (if sig \<and> pc c = Asleep then Fetch else pc c)\<rparr>)"
| unregistered: "calling c \<Longrightarrow> pc c = Register \<Longrightarrow> step callback c (c\<lparr>calling := False\<rparr>)"
| register: "pc c = Register \<Longrightarrow> \<not> calling c \<Longrightarrow> step register c (c\<lparr>pc := Check\<rparr>)"
| check: "pc c = Check \<Longrightarrow> wait_for_work (flags c) = (sleep, f) \<Longrightarrow>
    step check c (c\<lparr>flags := f, pc := (if sleep then Asleep else Fetch)\<rparr>)"
| spurious: "pc c = Asleep \<Longrightarrow> step spurious c (c\<lparr>pc := Fetch\<rparr>)"
| fetch_none: "pc c = Fetch \<Longrightarrow> \<not> calling c \<Longrightarrow> queued c = 0 \<Longrightarrow> step fetch c (c\<lparr>pc := Check\<rparr>)"
| fetch_some: "pc c = Fetch \<Longrightarrow> \<not> calling c \<Longrightarrow> queued c = Suc n \<Longrightarrow> n \<noteq> 0 \<longrightarrow> cont \<Longrightarrow>
    step fetch c (c\<lparr>queued := n, pc := Serve cont\<rparr>)"
| cancel: "\<not> calling c \<Longrightarrow> queued c = Suc n \<Longrightarrow> step cancel c (c\<lparr>queued := n\<rparr>)"
| finished: "pc c = Serve cont \<Longrightarrow> step finished c (c\<lparr>pc := (if cont then Fetch else Check)\<rparr>)"

inductive_cases step_elims:
  "step callback c d" "step register c d" "step check c d" "step finished c d"

inductive reachable :: "threads \<Rightarrow> bool" where
  start: "reachable threads_start"
| step: "reachable c \<Longrightarrow> step a c d \<Longrightarrow> reachable d"

section \<open>The invariant\<close>

text \<open>
  A work that was pushed and announced is remembered: by \<open>has_work\<close>, or because the main thread
  is on its way to \<open>next_work\<close>. A sleeping thread is known to be waiting.
\<close>

definition sync_inv :: "threads \<Rightarrow> bool" where
  "sync_inv c \<longleftrightarrow>
     (case pc c of
        Register \<Rightarrow> has_work (flags c)
      | Check \<Rightarrow> has_work (flags c) \<or> queued c = 0 \<or> calling c
      | Asleep \<Rightarrow> waiting_for_work (flags c) \<and> (queued c = 0 \<or> calling c)
      | Fetch \<Rightarrow> True
      | Serve cont \<Rightarrow> cont \<or> has_work (flags c) \<or> queued c = 0 \<or> calling c)"

lemma sync_inv_step: "step a c d \<Longrightarrow> sync_inv c \<Longrightarrow> sync_inv d"
  by (induction rule: step.induct)
    (auto simp: sync_inv_def signal_work_enqueued_def wait_for_work_def Let_def
      split: main_pc.splits if_splits)

lemma sync_inv_reachable: "reachable c \<Longrightarrow> sync_inv c"
proof (induction rule: reachable.induct)
  case start
  then show ?case by (simp add: threads_start_def sync_start_def sync_inv_def)
qed (rule sync_inv_step)

section \<open>Progress\<close>

text \<open>The steps a thread takes by itself on the way to \<open>next_work\<close>, and how many are left.\<close>

definition own_steps :: "thread_step set" where
  "own_steps = {callback, register, check, finished}"

fun pc_rank :: "main_pc \<Rightarrow> nat" where
  "pc_rank Register = 3"
| "pc_rank (Serve _) = 3"
| "pc_rank Check = 2"
| "pc_rank Asleep = 1"
| "pc_rank Fetch = 0"

definition rank :: "threads \<Rightarrow> nat" where
  "rank c = pc_rank (pc c) + (if calling c then 1 else 0)"

inductive own_run :: "nat \<Rightarrow> threads \<Rightarrow> threads \<Rightarrow> bool" where
  none: "own_run 0 c c"
| more: "own_run n c d \<Longrightarrow> a \<in> own_steps \<Longrightarrow> step a d e \<Longrightarrow> own_run (Suc n) c e"

lemma own_step:
  assumes "step a c d" "a \<in> own_steps"
  shows "rank d < rank c" "queued d = queued c"
  using assms
  by (auto simp: own_steps_def rank_def signal_work_enqueued_def Let_def split: if_splits elim!: step_elims)

lemma own_run_rank:
  assumes "own_run n c d" "reachable c" shows "n + rank d \<le> rank c \<and> queued d = queued c \<and> reachable d"
  using assms
proof (induction rule: own_run.induct)
  case (more n c d a e)
  then have "n + rank d \<le> rank c" "queued d = queued c" "reachable d" by simp_all
  moreover note own_step [OF more.hyps(3,2)] reachable.step [OF \<open>reachable d\<close> more.hyps(3)]
  ultimately show ?case by simp
qed simp

lemma own_step_enabled:
  assumes "sync_inv c" "queued c \<noteq> 0"
  shows "(\<exists>a \<in> own_steps. \<exists>d. step a c d) \<or> (\<exists>d cont. step fetch c d \<and> pc d = Serve cont)"
proof (cases "calling c")
  case True
  obtain sig f where "signal_work_enqueued (flags c) = (sig, f)" by fastforce
  then have "\<exists>d. step callback c d"
    using step.callback [OF True] step.unregistered [OF True] by (cases "pc c = Register") blast+
  then show ?thesis by (auto simp: own_steps_def)
next
  case False
  obtain n where n: "queued c = Suc n" using assms(2) by (cases "queued c") simp_all
  obtain sleep f where w: "wait_for_work (flags c) = (sleep, f)" by fastforce
  show ?thesis
  proof (cases "pc c")
    case Asleep
    then show ?thesis using assms False by (simp add: sync_inv_def)
  next
    case Fetch
    then show ?thesis using step.fetch_some [OF _ False n, of True] by fastforce
  qed (use False w step.register step.check step.finished in \<open>fastforce simp: own_steps_def\<close>)+
qed

text \<open>
  C15. No wake-up is lost. However the two threads are interleaved, with spurious wake-ups,
  cancellations and works that were pushed before the callback was registered: while
  a work waits, the main thread gets to \<open>next_work\<close> after at most four steps of its own and of the
  callback, and at every moment before one of these steps is possible; so it never sleeps
  while a work waits, unless the background thread is about to wake it up.
\<close>

theorem no_lost_wakeup:
  assumes "reachable c" and "queued c \<noteq> 0" and "own_run n c d"
  shows "n \<le> 4 \<and> queued d = queued c \<and> (pc d = Asleep \<longrightarrow> calling d) \<and>
    ((\<exists>a \<in> own_steps. \<exists>e. step a d e) \<or> (\<exists>e cont. step fetch d e \<and> pc e = Serve cont))"
proof -
  have d: "n + rank d \<le> rank c" "queued d = queued c" "reachable d"
    using own_run_rank [OF assms(3,1)] by simp_all
  have "rank c \<le> 4" by (cases "pc c") (simp_all add: rank_def)
  moreover have inv: "sync_inv d" by (rule sync_inv_reachable [OF d(3)])
  moreover have "pc d = Asleep \<longrightarrow> calling d" using inv d(2) assms(2) by (auto simp: sync_inv_def)
  ultimately show ?thesis using d own_step_enabled [of d] assms(2) by simp
qed

text \<open>The main thread sleeps, a work is pushed, the callback wakes it up.\<close>

theorem no_lost_wakeup_witness:
  "\<exists>c d e. reachable c \<and> pc c = Asleep \<and> queued c = 1 \<and> own_run 1 c d \<and> pc d = Fetch \<and> step fetch d e"
proof -
  let ?f = "\<lambda>h w. \<lparr>has_work = h, waiting_for_work = w\<rparr>"
  let ?c = "\<lambda>h w p n b. \<lparr>flags = ?f h w, pc = p, queued = n, calling = b\<rparr>"
  have r0: "reachable (?c True False Register 0 False)"
    using reachable.start by (simp add: threads_start_def sync_start_def)
  have r1: "reachable (?c True False Check 0 False)"
    using reachable.step [OF r0 step.register] by simp
  have r2: "reachable (?c False False Fetch 0 False)"
    using reachable.step [OF r1 step.check [of _ False "?f False False"]] by (simp add: wait_for_work_def)
  have r3: "reachable (?c False False Check 0 False)"
    using reachable.step [OF r2 step.fetch_none] by simp
  have r4: "reachable (?c False True Asleep 0 False)"
    using reachable.step [OF r3 step.check [of _ True "?f False True"]] by (simp add: wait_for_work_def)
  have r5: "reachable (?c False True Asleep 1 True)"
    using reachable.step [OF r4 step.push] by simp
  have "step callback (?c False True Asleep 1 True) (?c True False Fetch 1 False)"
    using step.callback [of "?c False True Asleep 1 True" True "?f True False"]
    by (simp add: signal_work_enqueued_def)
  then have run: "own_run 1 (?c False True Asleep 1 True) (?c True False Fetch 1 False)"
    using own_run.more [OF own_run.none] by (fastforce simp: own_steps_def)
  from no_lost_wakeup [OF r5 _ run] obtain e where "step fetch (?c True False Fetch 1 False) e"
    by (auto simp: own_steps_def elim!: step_elims)
  with r5 run show ?thesis
    by (intro exI [of _ "?c False True Asleep 1 True"] exI [of _ "?c True False Fetch 1 False"] exI [of _ e])
      simp
qed

end
