(* ===== verification/Device_Loop.thy ===== *)
theory Device_Loop
  imports Device_Main
begin

text \<open>
  The main loop of \<^verbatim>\<open>examples/virtual_device.cpp\<close> between two waits: rounds are made without waiting as
  long as \<open>next_work\<close> reports more work.
\<close>

partial_function (option) busy_period ::
  "'e platform \<Rightarrow> ('e, 'z) local_hcd_scheme \<Rightarrow> ((main_exit + unit) \<times> ('e, 'z) local_hcd_scheme) option" where
  "busy_period P s = do {
     (r, s) \<leftarrow> main_round P s;
     (case r of
        Inl x \<Rightarrow> Some (Inl x, s)
      | Inr cont \<Rightarrow> if cont then busy_period P s else Some (Inr (), s)) }"

text \<open>The works that are left after a round can be served like before.\<close>

lemma rest_serviceable:
  assumes "hcd_inv s" and split: "h_inbox s = gone @ w # rest"
    and h: "heap t = heap s |` (- footprints s (gone @ [w]))"
  shows "\<forall>p \<in> set rest. serviceable P p s \<longrightarrow> serviceable P p t"
    "\<forall>p \<in> set rest. work_footprint t p = work_footprint s p"
    "disjnt (footprints s (gone @ [w])) (footprints s rest)"
    "\<And>p x. p \<in> set rest \<Longrightarrow> x \<in> work_footprint s p \<Longrightarrow> heap t x = heap s x"
    "\<And>p. p \<in> set rest \<Longrightarrow> work_object s p"
proof -
  have ws: "works_ok s ((gone @ w # rest) @ h_processing s)"
    using assms(1) split by (simp add: hcd_inv_def hcd_owned_def)
  have "works_ok s ((gone @ [w]) @ rest)"
    by (rule works_ok_perm [OF _ _ ws]) (use ws in \<open>auto simp: works_ok_def\<close>)
  then show dj: "disjnt (footprints s (gone @ [w])) (footprints s rest)" by (rule works_ok_disjnt)
  have same: "heap t x = heap s x" if "p \<in> set rest" "x \<in> work_footprint s p" for p x
    using dj h that work_footprint_subset [of p rest s] by (auto simp: disjnt_def restrict_map_def)
  have wk: "work_object s p" if "p \<in> set rest" for p using works_ok_object [OF ws] that by simp
  show "\<And>p x. p \<in> set rest \<Longrightarrow> x \<in> work_footprint s p \<Longrightarrow> heap t x = heap s x"
    "\<And>p. p \<in> set rest \<Longrightarrow> work_object s p" by (fact same wk)+
  show "\<forall>p \<in> set rest. serviceable P p s \<longrightarrow> serviceable P p t"
    by (intro ballI impI serviceable_frame [OF _ wk same]) simp_all
  show "\<forall>p \<in> set rest. work_footprint t p = work_footprint s p"
    by (intro ballI work_object_cong(2) [OF same wk]) simp_all
qed

lemma footprints_append: "footprints s (xs @ ys) = footprints s xs \<union> footprints s ys"
  by (auto simp: footprints_def)

lemma drain_cong:
  "(\<And>p e. p \<in> set ps \<Longrightarrow> serve_spec P t p e = serve_spec P s p e) \<Longrightarrow> drain P t ps e = drain P s ps e"
  by (induction ps arbitrary: e) (auto split: prod.split option.split)

text \<open>The works that are not cancelled.\<close>

definition waiting :: "('e, 'z) hcd_scheme \<Rightarrow> nat list" where
  "waiting s = filter (\<lambda>p. \<not> is_canceled s p) (h_inbox s)"

lemma waiting_gone: "waiting s = filter (\<lambda>p. \<not> is_canceled s p) (dropWhile (is_canceled s) (h_inbox s))"
proof -
  have "filter (\<lambda>p. \<not> is_canceled s p) (takeWhile (is_canceled s) xs) = []" for xs
    by (induction xs) auto
  then show ?thesis
    unfolding waiting_def by (metis append_Nil filter_append takeWhile_dropWhile_id)
qed

text \<open>
  C12. The main loop gets its work done, each work once and in order. With memory left, valid state, and
  URBs that were fetched with buffers as long as their transfers, the loop comes to its next wait or to its end,
  however many works are waiting, and what the kernel sees of it is what the abstract device does with the
  works that wait uncancelled, one after the other: the notifications that answer a port status, and for each
  URB one request that gives its answer back. The loop is left by \<open>return 1\<close> exactly at the first
  work for another port than 1, and by an exception exactly at the first notification that the kernel refuses, with
  that work in progress. Otherwise the inbox is empty, nothing is in progress that was not before, the
  invariant holds, and exactly the blocks that the works of the inbox owned have been freed.
\<close>

theorem main_loop_drains_inbox:
  assumes "local_inv s" and "port_ok 1 s" and "oom s = []"
    and "\<forall>p \<in> set (h_inbox s). serviceable P p s"
  shows "\<exists>r t. busy_period P s = Some (r, t) \<and> local_inv t \<and>
    drain P s (waiting s) (env s) = (exit_of r, env t) \<and>
    (case r of
       Inl _ \<Rightarrow> \<exists>w \<in> set (waiting s). h_processing t = h_processing s @ [w]
     | Inr _ \<Rightarrow> h_inbox t = [] \<and> h_processing t = h_processing s \<and>
         heap t = heap s |` (- footprints s (h_inbox s)))"
  using assms
proof (induction "length (h_inbox s)" arbitrary: s rule: less_induct)
  case less
  note inv = less.prems(1)
  have h: "hcd_inv s" using inv by (simp add: local_inv_def)
  let ?gone = "takeWhile (is_canceled s) (h_inbox s)" and ?live = "dropWhile (is_canceled s) (h_inbox s)"
  have split: "h_inbox s = ?gone @ ?live" by simp
  obtain r t where m: "main_round P s = Some (r, t)" "local_inv t" "oom t = []" "l_port_info t = l_port_info s"
    "l_fd t = l_fd s" and c:
    "case ?live of
       [] \<Rightarrow> r = Inr False \<and> env t = env s \<and> h_inbox t = [] \<and> h_processing t = h_processing s \<and>
           heap t = heap s |` (- footprints s ?gone)
     | w # rest \<Rightarrow> h_inbox t = rest \<and> serve_spec P s w (env s) = (exit_of r, env t) \<and>
         (case r of
            Inl x \<Rightarrow> (x = Returned 1 \<or> x = Uncaught StdException) \<and> h_processing t = h_processing s @ [w]
          | Inr cont \<Rightarrow> cont = (rest \<noteq> []) \<and> h_processing t = h_processing s \<and>
              heap t = heap s |` (- footprints s (?gone @ [w])))"
    using main_round_run [OF less.prems] by blast
  show ?case
  proof (cases ?live)
    case Nil
    then have g: "?gone = h_inbox s" "waiting s = []" using split unfolding waiting_gone Nil by simp_all
    have "heap t = heap s |` (- footprints s ?gone)" and q: "r = Inr False" "h_inbox t = []"
      "h_processing t = h_processing s" "env t = env s"
      using c unfolding Nil by simp_all
    then have "heap t = heap s |` (- footprints s (h_inbox s))" unfolding g(1) by blast
    then show ?thesis using m(1,2) q g(2) by (subst busy_period.simps) simp
  next
    case (Cons w rest)
    have "\<not> is_canceled s w" using Cons hd_dropWhile [of "is_canceled s" "h_inbox s"] by force
    then have wt: "waiting s = w # filter (\<lambda>p. \<not> is_canceled s p) rest" by (simp add: waiting_gone Cons)
    have sp: "serve_spec P s w (env s) = (exit_of r, env t)" using c unfolding Cons by simp
    show ?thesis
    proof (cases r)
      case (Inl x)
      then have "h_processing t = h_processing s @ [w]" using c unfolding Cons by simp
      then show ?thesis using m(1,2) Inl wt sp by (subst busy_period.simps) simp
    next
      case (Inr cont)
      then have q: "h_inbox t = rest" "cont = (rest \<noteq> [])" "h_processing t = h_processing s"
        "heap t = heap s |` (- footprints s (?gone @ [w]))"
        using c unfolding Cons by simp_all
      have i: "h_inbox s = ?gone @ w # rest" using split unfolding Cons .
      show ?thesis
      proof (cases "rest = []")
        case True
        then have "h_inbox s = ?gone @ [w]" using i by simp
        then have "heap t = heap s |` (- footprints s (h_inbox s))" using q(4) by simp
        then show ?thesis using m(1,2) Inr q(1-3) True wt sp by (subst busy_period.simps) simp
      next
        case False
        note rs = rest_serviceable [OF h i q(4)]
        have "length (h_inbox t) < length (h_inbox s)" using arg_cong [OF i, of length] q(1) by simp
        moreover have "port_ok 1 t" using less.prems(2) m(4) by (simp add: port_ok_def)
        moreover have sv: "\<forall>p \<in> set rest. serviceable P p s"
          using less.prems(4) arg_cong [OF i, of set] by auto
        then have "\<forall>p \<in> set (h_inbox t). serviceable P p t" using rs(1) q(1) by auto
        ultimately obtain r' t' where t': "busy_period P t = Some (r', t')" "local_inv t'"
          "drain P t (waiting t) (env t) = (exit_of r', env t')"
          "case r' of
             Inl _ \<Rightarrow> \<exists>w \<in> set (waiting t). h_processing t' = h_processing t @ [w]
           | Inr _ \<Rightarrow> h_inbox t' = [] \<and> h_processing t' = h_processing t \<and>
               heap t' = heap t |` (- footprints t (h_inbox t))"
          using less.hyps [OF _ m(2) _ m(3)] by blast
        have "is_canceled t p = is_canceled s p" if "p \<in> set rest" for p
          using work_object_cong(3) [OF rs(4) rs(5)] that by (simp add: is_canceled_def)
        then have wr: "waiting t = filter (\<lambda>p. \<not> is_canceled s p) rest"
          unfolding waiting_def q(1) by (intro filter_cong) simp_all
        have "serve_spec P t p e = serve_spec P s p e" if "p \<in> set (waiting t)" for p e
          using that sv by (intro serve_spec_frame [OF rs(5) rs(4) less.prems(3) m(3,5,4)]) (auto simp: wr)
        then have "drain P t (waiting t) (env t) = drain P s (waiting t) (env t)" by (rule drain_cong)
        then have dr: "drain P s (waiting s) (env s) = (exit_of r', env t')"
          using t'(3) wt wr sp Inr by simp
        have "footprints t rest = footprints s rest" using rs(2) by (auto simp: footprints_def)
        moreover have "footprints s (h_inbox s) = footprints s (?gone @ [w]) \<union> footprints s rest"
          using footprints_append [of s "?gone @ [w]" rest] i by simp
        ultimately have "heap t |` (- footprints t (h_inbox t)) = heap s |` (- footprints s (h_inbox s))"
          unfolding q(1,4) by (simp add: Compl_Un)
        moreover have "set (waiting t) \<subseteq> set (waiting s)" using wt wr by auto
        ultimately show ?thesis
          using t'(1,2,4) dr m(1) Inr q(2,3) False by (subst busy_period.simps) (auto split: sum.splits)
      qed
    qed
  qed
qed

text \<open>The sample controller with a URB and a port status for the device.\<close>

theorem main_loop_drains_inbox_witness:
  "\<exists>r t. busy_period plain_platform sample_idle = Some (r, t) \<and> local_inv t \<and> r = Inr () \<and> h_inbox t = []"
proof -
  have w: "load_work 6 sample_idle = Some \<lparr>w_port = 1, w_canceled = False, w_kind = PortStatWork port_stat_default 0\<rparr>"
    by (rule sample_heap_ok(5)) (simp add: sample_idle_def sample_addressed_def sample_local_def)
  have "waiting sample_idle = [6]" using sample_idle_served(4) by (simp add: waiting_gone is_canceled_def w)
  moreover have "fst (serve_spec plain_platform sample_idle 6 (env sample_idle)) = None"
    by (simp add: serve_spec_def w reactions_def triggers_power_on_def triggers_reset_def triggers_resuming_def has_mask_def)
  ultimately have "fst (drain plain_platform sample_idle (waiting sample_idle) (env sample_idle)) = None"
    by (cases "serve_spec plain_platform sample_idle 6 (env sample_idle)") simp
  moreover obtain r and t :: "log local_hcd" where t: "busy_period plain_platform sample_idle = Some (r, t)" "local_inv t"
    "drain plain_platform sample_idle (waiting sample_idle) (env sample_idle) = (exit_of r, env t)"
    "case r of
       Inl _ \<Rightarrow> \<exists>w \<in> set (waiting sample_idle). h_processing t = h_processing sample_idle @ [w]
     | Inr _ \<Rightarrow> h_inbox t = [] \<and> h_processing t = h_processing sample_idle \<and>
         heap t = heap sample_idle |` (- footprints sample_idle (h_inbox sample_idle))"
    using main_loop_drains_inbox [OF sample_idle_ok(1) sample_idle_served(1-3), of plain_platform] by blast
  ultimately show ?thesis by (cases r) auto
qed

end
