(* ===== verification/Device_Round_Trip.thy ===== *)
theory Device_Round_Trip
  imports Device_Main
begin

text \<open>
  A request of the host from end to end: the background thread turns the kernel's message into a work
  object, the main thread of the example device fetches it, answers it and gives it back.
\<close>

section \<open>The background thread\<close>

lemma alloc_plain: "oom s = [] \<Longrightarrow>
  alloc b s = (brk s, s\<lparr>heap := (heap s)(brk s \<mapsto> b), brk := Suc (brk s)\<rparr>)"
  by (simp add: alloc_def alloc_fails_def)

lemma new_retry_plain:
  assumes "oom s = []" "0 <s n" "brk s \<noteq> 0"
  shows "new_retry mk n s = Some (brk s, s\<lparr>heap := (heap s)(brk s \<mapsto> mk (cells n)), brk := Suc (brk s)\<rparr>)"
proof -
  have "\<not> n <s 0" using assms(2) by (simp add: word_sless_alt)
  then show ?thesis
    using assms(1,3) alloc_plain [of s "mk (cells n)"] by (subst new_retry.simps) (simp add: new_array_def)
qed

lemma new_urb_plain:
  assumes "oom s = []" "brk s \<noteq> 0" "own_check P w = Inr w"
  shows "new_urb_retry P w s =
    Some (Inr (brk s), s\<lparr>heap := (heap s)(brk s \<mapsto> UrbObj w), brk := Suc (brk s)\<rparr>)"
  using assms by (subst new_urb_retry.simps)
    (simp add: new_object_nothrow_def alloc_plain urb_own_ctor_check urb_block_def construct_def store_def)

text \<open>With memory left, a URB with data but without packets gets the next three addresses.\<close>

definition queued_heap ::
  "usb_vhci_urb \<Rightarrow> u8 \<Rightarrow> nat \<Rightarrow> (nat \<Rightarrow> block option) \<Rightarrow> nat \<Rightarrow> block option" where
  "queued_heap w index b h = h(b \<mapsto> Bytes (cells (u_buffer_length w)),
     Suc b \<mapsto> UrbObj (w\<lparr>u_buffer := b\<rparr>), Suc (Suc b) \<mapsto> WorkObj (urb_work index (Suc b)))"

lemma alloc_urb_plain:
  assumes "oom s = []" "brk s \<noteq> 0" "u_packet_count w = 0" "u_iso_packets w = 0" "0 <s u_buffer_length w"
    "\<not> bad_urb P w"
  shows "alloc_urb P w s = Some (Inr (Suc (brk s)), w\<lparr>u_buffer := brk s\<rparr>,
    s\<lparr>heap := (heap s)(brk s \<mapsto> Bytes (cells (u_buffer_length w)), Suc (brk s) \<mapsto> UrbObj (w\<lparr>u_buffer := brk s\<rparr>)),
      brk := Suc (Suc (brk s))\<rparr>)"
proof -
  have nz: "u_buffer_length w \<noteq> 0" using assms(5) by (auto simp: word_sless_alt)
  let ?w = "w\<lparr>u_buffer := brk s\<rparr>"
  have "pointed ?w" using nz assms(2-4) by (simp add: pointed_def)
  moreover have "bad_urb P ?w = bad_urb P w" by (simp add: bad_urb_def)
  ultimately have "own_check P ?w = Inr ?w" using assms(6) by (simp add: own_check_pointed)
  then show ?thesis
    using nz assms(1-5) new_retry_plain [OF assms(1,5,2), of Bytes] by (simp add: alloc_urb_def new_urb_plain)
qed

lemma attempt_plain:
  assumes "oom s = []" "brk s \<noteq> 0" "ports_ok s" "\<not> u_devadr w > 0x7f"
    and port: "unat index = port_of (u_devadr w) (l_port_info s)" "index \<noteq> 0"
    and u: "u \<noteq> 0" "u < brk s" "heap s u = Some (UrbObj v)" "\<not> is_set_address P v"
  shows "process_urb_attempt P w u 0 s = Some (Inr True, brk s, on_work_enqueued P
    (s\<lparr>heap := (heap s)(brk s \<mapsto> WorkObj (urb_work index u)), brk := Suc (brk s),
      h_inbox := h_inbox s @ [brk s]\<rparr>))"
proof -
  have pf: "port_from_address (u_devadr w) s = Some (Inr index)"
    using port_from_address_run(1) [OF assms(3), of "u_devadr w"] assms(4) by (simp flip: port(1))
  let ?s = "s\<lparr>heap := (heap s)(brk s \<mapsto> WorkObj (urb_work index u)), brk := Suc (brk s)\<rparr>"
  have new: "new_object_nothrow (work_block (process_urb_work_ctor index u)) s = Some (Inr (brk s), ?s)"
    using assms(1,2) process_urb_work_ctor_ok [OF port(2) u(1)]
    by (simp add: new_object_nothrow_def alloc_plain work_block_def construct_def store_def)
  have "port_ok index ?s"
    using port port_from_address_run(2) [OF assms(3), of "u_devadr w"] by (simp add: port_ok_def)
  then obtain p where p: "port_entry index ?s = Some p" using port_entry_at [of index ?s] by blast
  have "load_urb u ?s = Some v" using u(1-3) by (simp add: load_urb_Some)
  then have sa: "handle_set_address P index u ?s = Some ?s" using u(4) by (simp add: handle_set_address_def)
  have "enqueue_work (brk s) ?s = (Inr (), ?s\<lparr>h_inbox := h_inbox s @ [brk s]\<rparr>)"
    using assms(1) by (simp add: enqueue_work_def alloc_fails_def)
  then show ?thesis
    using pf port(2) new p sa assms(2) by (simp add: process_urb_attempt_def)
qed

lemma bg_process_urb_plain:
  assumes "oom s = []" "brk s \<noteq> 0" "ports_ok s" "u_packet_count w = 0" "u_iso_packets w = 0"
    "0 <s u_buffer_length w" "\<not> bad_urb P w" "\<not> u_devadr w > 0x7f" "\<not> is_set_address P w"
    and port: "unat index = port_of (u_devadr w) (l_port_info s)" "index \<noteq> 0"
  shows "bg_process_urb P 0 w 0 False s = Some (Inr (), on_work_enqueued P
    (s\<lparr>heap := queued_heap w index (brk s) (heap s), brk := Suc (Suc (Suc (brk s))),
      h_inbox := h_inbox s @ [Suc (Suc (brk s))]\<rparr>))"
proof -
  let ?w = "w\<lparr>u_buffer := brk s\<rparr>"
  let ?s = "s\<lparr>heap := (heap s)(brk s \<mapsto> Bytes (cells (u_buffer_length w)), Suc (brk s) \<mapsto> UrbObj ?w),
      brk := Suc (Suc (brk s))\<rparr>"
  have "is_set_address P ?w = is_set_address P w"
    by (simp add: is_set_address_def is_control_def get_endpoint_number_def)
  then have att: "process_urb_attempt P ?w (Suc (brk s)) 0 ?s = Some (Inr True, brk ?s, on_work_enqueued P
    (?s\<lparr>heap := (heap ?s)(brk ?s \<mapsto> WorkObj (urb_work index (Suc (brk s)))), brk := Suc (brk ?s),
      h_inbox := h_inbox ?s @ [brk ?s]\<rparr>))"
    by (intro attempt_plain [where v = ?w]) (use assms in \<open>simp_all add: ports_ok_def\<close>)
  show ?thesis
    using alloc_urb_plain [OF assms(1,2,4-7)] att
    by (subst bg_process_urb.simps) (simp add: queued_heap_def)
qed

text \<open>The host asks endpoint 0 for a descriptor, with a buffer for the whole transfer.\<close>

definition descriptor_request :: "'y abi_scheme \<Rightarrow> ioc_work \<Rightarrow> bool" where
  "descriptor_request k kw \<longleftrightarrow>
     iw_type kw = WORK_TYPE_PROCESS_URB k \<and> iu_type (iw_urb kw) = URB_TYPE_CONTROL k \<and>
     iu_endpoint (iw_urb kw) = 0x80 \<and> is_bmRequestType (iu_setup (iw_urb kw)) = 0x80 \<and>
     is_bRequest (iu_setup (iw_urb kw)) = 6 \<and> 0 <s iu_buffer_length (iw_urb kw) \<and>
     unat (is_wLength (iu_setup (iw_urb kw))) \<le> unat (iu_buffer_length (iw_urb kw))"

definition message_urb :: "ioc_work \<Rightarrow> usb_vhci_urb" where
  "message_urb kw = zero_urb\<lparr>u_handle := iw_handle kw, u_buffer_length := iu_buffer_length (iw_urb kw),
     u_status := USB_VHCI_STATUS_PENDING, u_wValue := is_wValue (iu_setup (iw_urb kw)),
     u_wIndex := is_wIndex (iu_setup (iw_urb kw)), u_wLength := is_wLength (iu_setup (iw_urb kw)),
     u_bmRequestType := is_bmRequestType (iu_setup (iw_urb kw)),
     u_bRequest := is_bRequest (iu_setup (iw_urb kw)),
     u_devadr := iu_address (iw_urb kw), u_epadr := iu_endpoint (iw_urb kw), u_type := iu_type (iw_urb kw)\<rparr>"

lemma fetch_descriptor_request:
  assumes "abi_ok P" "p_fetch_work P fd 100 (env s) = (e, Inr kw)" "descriptor_request P kw"
  shows "usb_vhci_fetch_work P fd work s =
    (0, \<lparr>wk_work = WorkUrb (message_urb kw), wk_type = WORK_TYPE_PROCESS_URB P\<rparr>, s\<lparr>env := e\<rparr>)"
proof -
  note d = assms(3) [unfolded descriptor_request_def]
  have t: "WORK_TYPE_PROCESS_URB P \<noteq> WORK_TYPE_PORT_STAT P" "URB_TYPE_CONTROL P \<noteq> URB_TYPE_ISO P"
    "URB_TYPE_CONTROL P \<noteq> URB_TYPE_INT P"
    using abi_ok_parts(1,2) [OF assms(1)] by (auto simp: work_types_ok_def urb_types_ok_def)
  have out: "\<not> usb_vhci_is_out 0x80" by (simp add: usb_vhci_is_out_def has_mask_def)
  show ?thesis
    using assms(2) d t out
    by (simp add: usb_vhci_fetch_work_def usb_vhci_fetch_work_timeout_def syscall_def fetch_urb_by_type_def
        usb_vhci_is_iso_def message_urb_def zero_urb_def)
qed

lemma message_urb_ok:
  assumes "abi_ok P" "descriptor_request P kw"
  shows "\<not> bad_urb P (message_urb kw)" "\<not> is_set_address P (message_urb kw)"
    "u_packet_count (message_urb kw) = 0" "u_iso_packets (message_urb kw) = 0"
    "is_control P (message_urb kw)" "get_endpoint_number (message_urb kw) = 0"
    "\<not> usb_vhci_is_iso P (u_type (message_urb kw))" "usb_vhci_is_in (u_epadr (message_urb kw))"
  using assms abi_ok_parts(2) [OF assms(1)] not_sym [of "URB_TYPE_ISO P" "URB_TYPE_CONTROL P"]
  by (simp_all add: has_mask_def descriptor_request_def message_urb_def zero_urb_def bad_urb_def is_set_address_def
      is_control_def get_endpoint_number_def usb_vhci_is_control_def usb_vhci_is_iso_def usb_vhci_is_in_def
      urb_types_ok_def)

section \<open>The main thread\<close>

lemma get_descriptor_plain:
  assumes "urb_mem s u" "descriptor_named (u_wValue u) = Some d" "drop_bit 8 (u_wValue u) \<noteq> 3"
    "unat (u_wLength u) \<le> unat (u_buffer_length u)"
    "is_control k u" "get_endpoint_number u = 0" "u_bmRequestType u = 0x80" "u_bRequest u = 6"
  shows "handle_urb k u s = Some (replied d u, put_prefix d (reply_size d u) (u_buffer u) s)"
  using assms get_descriptor_run [OF assms(1)] by (simp add: handle_urb_def reply_size_def)

text \<open>What the kernel gets back.\<close>

definition descriptor_reply :: "ioc_work \<Rightarrow> u8 list \<Rightarrow> ioc_giveback" where
  "descriptor_reply kw d =
     (let n = min (length d) (unat (is_wLength (iu_setup (iw_urb kw))))
      in \<lparr>ig_handle = iw_handle kw, ig_status = 0, ig_buffer_actual = of_nat n,
          ig_packet_count = 0, ig_error_count = 0,
          ig_buffer =
            (if n = 0 then None
             else Some (map Some (take n d) @ replicate (unat (iu_buffer_length (iw_urb kw)) - n) None)),
          ig_iso_packets = None\<rparr>)"

lemma giveback_request_reply:
  assumes kw: "abi_ok P" "descriptor_request P kw" "descriptor_named (is_wValue (iu_setup (iw_urb kw))) = Some d"
    and h: "heap s b = Some (Bytes (cells (iu_buffer_length (iw_urb kw))))" "b \<noteq> 0"
    and u: "u = (message_urb kw)\<lparr>u_buffer := b\<rparr>"
    and t: "heap t b = heap (put_prefix d (reply_size d u) b s) b"
  shows "giveback_request P t (replied d u) None = descriptor_reply kw d"
proof -
  let ?n = "reply_size d u"
  note m = message_urb_ok [OF kw(1,2)]
  have n: "?n = min (length d) (unat (is_wLength (iu_setup (iw_urb kw))))"
    by (simp add: reply_size_def u message_urb_def)
  have d: "length d < 256" "unat (of_nat (length d) :: u8) = length d"
    using kw(3) desc_sizes by (auto simp: descriptor_named_def split: if_splits)
  have sn: "sint (u_buffer_actual (replied d u)) = int ?n"
    using d(2) by (simp add: replied_def reply_length_nat reply_size_def)
  have "u_buffer_actual (replied d u) = of_int (sint (u_buffer_actual (replied d u)))"
    by (simp only: of_int_sint scast_id)
  then have a: "u_buffer_actual (replied d u) = of_nat ?n" unfolding sn by simp
  have a0: "0 <s u_buffer_actual (replied d u) \<longleftrightarrow> ?n \<noteq> 0" using sn by (simp add: word_sless_alt)
  have f: "u_handle (replied d u) = iw_handle kw" "u_status (replied d u) = USB_VHCI_STATUS_SUCCESS"
    "u_type (replied d u) = u_type (message_urb kw)" "u_epadr (replied d u) = u_epadr (message_urb kw)"
    "u_buffer (replied d u) = b"
    by (simp_all add: replied_def u message_urb_def)
  have "load_bytes b t = Some (map Some (take ?n d) @ drop ?n (cells (iu_buffer_length (iw_urb kw))))" if "?n \<noteq> 0"
    using that h t by (simp add: load_bytes_def load_def put_prefix_def)
  then show ?thesis
    using m(7,8) f a a0 n
    by (simp add: giveback_request_def descriptor_reply_def Let_def cells_def usb_vhci_to_errno_def)
qed

section \<open>From the message to the reply\<close>

lemma queued_heap_other:
  "x \<notin> {b, Suc b, Suc (Suc b)} \<Longrightarrow> queued_heap w index b h x = h x"
  by (simp add: queued_heap_def)

lemma bg_work_descriptor:
  assumes inv: "local_inv s" and kernel: "kernel_ok P" and mem: "oom s = []"
    and msg: "p_fetch_work P (l_fd s) 100 (env s) = (e, Inr kw)" "descriptor_request P kw"
    and port: "\<not> iu_address (iw_urb kw) > 0x7f" "index \<noteq> 0"
      "unat index = port_of (iu_address (iw_urb kw)) (l_port_info s)"
  shows "bg_work P s = Some (Inr (), on_work_enqueued P
      (s\<lparr>env := e, heap := queued_heap (message_urb kw) index (brk s) (heap s),
         brk := Suc (Suc (Suc (brk s))), h_inbox := h_inbox s @ [Suc (Suc (brk s))]\<rparr>))"
proof -
  have abi: "abi_ok P" using kernel by (simp add: kernel_ok_def)
  have d: "WORK_TYPE_PROCESS_URB P \<noteq> WORK_TYPE_PORT_STAT P"
    using abi_ok_parts(1) [OF abi] by (auto simp: work_types_ok_def)
  note m = message_urb_ok [OF abi msg(2)]
  have "brk s \<noteq> 0" "ports_ok s" using inv by (simp_all add: local_inv_def hcd_inv_def heap_ok_def)
  moreover have "0 <s u_buffer_length (message_urb kw)"
    using msg(2) by (simp add: descriptor_request_def message_urb_def)
  moreover have "u_devadr (message_urb kw) = iu_address (iw_urb kw)" by (simp add: message_urb_def)
  ultimately have "bg_process_urb P 0 (message_urb kw) 0 False (s\<lparr>env := e\<rparr>) = Some (Inr (), on_work_enqueued P
      (s\<lparr>env := e, heap := queued_heap (message_urb kw) index (brk s) (heap s),
         brk := Suc (Suc (Suc (brk s))), h_inbox := h_inbox s @ [Suc (Suc (brk s))]\<rparr>))"
    using bg_process_urb_plain [of "s\<lparr>env := e\<rparr>" "message_urb kw" P index] m(1-4) mem port
    by (simp add: ports_ok_def)
  then show ?thesis
    using fetch_descriptor_request [OF abi msg, of uninit_work] d by (simp add: bg_work_def)
qed

text \<open>A round of the main loop that finds the queued request alone in the inbox.\<close>

lemma main_round_descriptor:
  assumes inv: "local_inv s" and mem: "oom s = []" and inbox: "h_inbox s = [Suc (Suc b)]"
    and h: "heap s = queued_heap (message_urb kw) index b h" and b: "b \<noteq> 0"
    and kw: "abi_ok P" "descriptor_request P kw"
    and d: "descriptor_named (is_wValue (iu_setup (iw_urb kw))) = Some d"
      "drop_bit 8 (is_wValue (iu_setup (iw_urb kw))) \<noteq> 3"
  shows "\<exists>t. main_round P s = Some (Inr False, t) \<and> local_inv t \<and> h_inbox t = [] \<and>
    h_processing t = h_processing s \<and> heap t = heap s |` (- {b, Suc b, Suc (Suc b)}) \<and>
    env t = fst (p_giveback P (l_fd s) (descriptor_reply kw d) (env s))"
proof -
  let ?p = "Suc (Suc b)" and ?q = "Suc b"
  define u where "u = (message_urb kw)\<lparr>u_buffer := b\<rparr>"
  note m = message_urb_ok [OF kw]
  have hi: "hcd_inv s" using inv by (simp add: local_inv_def)
  have wk: "load_work ?p s = Some (urb_work index ?q)" and lu: "load_urb ?q s = Some u"
    using h by (simp_all add: load_work_Some load_urb_Some queued_heap_def u_def)
  have nc: "\<not> is_canceled s ?p" using wk by (simp add: is_canceled_def urb_work_def)
  from next_work_spec [OF hi refl refl] obtain s1 where n: "next_work s = Some (Inr (?p, False), s1)" "hcd_inv s1"
    "heap s1 = heap s" "h_inbox s1 = []" "h_processing s1 = h_processing s @ [?p]"
    using inbox nc mem by (auto simp: alloc_fails_def restrict_map_def)
  note fr = next_work_frame [OF hi n(1)]
  have inv1: "local_inv s1" by (rule local_inv_frame [OF inv n(2) fr(1)]) (simp add: n(3))
  have wk1: "load_work ?p s1 = Some (urb_work index ?q)" "load_urb ?q s1 = Some u"
    using heap_determines(1) [OF n(3)] wk lu load_cong(1) [of s1 ?q s] n(3) by simp_all
  have own: "?p \<in> set (hcd_owned s1)" using n(5) by (simp add: hcd_owned_def)
  then have uo: "urb_object s1 ?q"
    using load_work_urb_owner(1) [OF n(2) own wk1(1)] by (simp add: urb_work_def)
  then have um: "urb_mem s1 u" using urb_object_blocks(3) wk1(2) by blast
  have len: "unat (u_wLength u) \<le> unat (u_buffer_length u)"
    using kw(2) by (simp add: u_def message_urb_def descriptor_request_def)
  have uf: "is_control P u" "get_endpoint_number u = 0" "u_bmRequestType u = 0x80" "u_bRequest u = 6"
    "u_wValue u = is_wValue (iu_setup (iw_urb kw))" "\<not> usb_vhci_is_iso P (u_type u)" "u_buffer u = b"
    using m kw(2) by (simp_all add: u_def message_urb_def descriptor_request_def is_control_def get_endpoint_number_def)
  have iso: "usb_vhci_is_iso P (u_type u) \<longrightarrow> packets_set s1 u" using uf(6) by simp
  let ?n = "reply_size d u"
  have hu: "handle_urb P u s1 = Some (replied d u, put_prefix d ?n b s1)"
    using get_descriptor_plain [OF um _ _ len uf(1-4)] d uf(5,7) by simp
  have hb: "heap s1 b = Some (Bytes (cells (iu_buffer_length (iw_urb kw))))"
    using n(3) h by (simp add: queued_heap_def message_urb_def)
  have nl: "?n \<le> length d" "?n \<le> unat (u_buffer_length u)" using len by (simp_all add: reply_size_def)
  note pm = put_prefix_mem [OF um nl, unfolded uf(7)]
  define s2 where "s2 = (put_prefix d ?n b s1)\<lparr>heap := (heap (put_prefix d ?n b s1))(?q \<mapsto> UrbObj (replied d u))\<rparr>"
  have hq: "heap s1 ?q = Some (UrbObj u)" using wk1(2) by (simp add: load_urb_Some)
  have run: "process_urb P ?q s1 = Some s2"
    using wk1(2) hu hq pm(2) [of ?q] b by (simp add: process_urb_def s2_def store_def)
  have sv: "serviceable P ?p s1" using wk1 iso len by (simp add: serviceable_def urb_work_def)
  from process_urb_served [OF inv1 own sv wk1(1)] run
  have s2: "served ?p s1 s2" "serviceable P ?p s2" by (auto simp: urb_work_def)
  obtain h' where s2_only: "s2 = s1\<lparr>heap := h'\<rparr>"
  proof
    show "s2 = s1\<lparr>heap := heap s2\<rparr>" by (simp add: s2_def put_prefix_def)
  qed
  have fd: "l_fd s2 = l_fd s" "env s2 = env s" "oom s2 = []"
    using hcd_frame_local(2) [OF fr(1)] fr(2,3) mem by (simp_all add: s2_only steady_def)
  have wk2: "load_work ?p s2 = Some (urb_work index ?q)" "load_urb ?q s2 = Some (replied d u)"
    using wk1(1) pm(2) [of ?p] b by (simp_all add: s2_def load_work_Some load_urb_Some)
  have p2: "?p \<in> set (h_processing s2)" "hcd_inv s2" "h_inbox s2 = []" "h_processing s2 = h_processing s @ [?p]"
    using s2(1) n(4,5) by (simp_all add: served_def local_inv_def)
  have ready: "local_ready P ?p s2" by (rule serviceable_ready [OF fd(3) s2(2)])
  from local_hooks.finish_work_spec [OF p2(2,1) ready] obtain t where
    t: "finish_work (local_finishing_work P) ?p s2 = Some (Inr (), t)" "hcd_inv t"
      "heap t = heap s2 |` (- work_footprint s2 ?p)" "env t = local_given P ?p s2"
      "h_inbox t = []" "h_processing t = removeAll ?p (h_processing s @ [?p])" "hcd_frame s2 t"
    using p2(3,4) by auto
  have rp: "u_buffer (replied d u) = b" "u_iso_packets (replied d u) = 0"
    "\<not> usb_vhci_is_iso P (u_type (replied d u))"
    using uf(6,7) m(4) by (simp_all add: replied_def) (simp add: u_def)
  have fp: "work_footprint s2 ?p = {b, ?q, ?p}"
    using wk2 rp b by (auto simp: work_footprint_def urb_footprint_def urb_blocks_def urb_work_def)
  have "giveback_packets P s2 (replied d u) = None" using rp(3) by (simp add: giveback_packets_def)
  moreover have "giveback_request P s2 (replied d u) None = descriptor_reply kw d"
    by (rule giveback_request_reply [OF kw d(1) hb b u_def]) (simp add: s2_def)
  ultimately have "env t = fst (p_giveback P (l_fd s) (descriptor_reply kw d) (env s))"
    using t(4) wk2 fd(1,2) by (simp add: local_given_def urb_work_def)
  moreover have "heap t = heap s |` (- {b, ?q, ?p})"
    using t(3) fp pm(2) n(3) b by (auto simp: s2_def restrict_map_def fun_eq_iff)
  moreover have "?p \<notin> set (h_processing s)"
    using hi inbox by (simp add: hcd_inv_def works_ok_def hcd_owned_def)
  then have "h_processing t = h_processing s" using t(6) by simp
  moreover have "heap t x = heap s2 x" if "x \<in> tables s2" for x
    by (rule tables_restrict [of s2 "[?p]" t x])
      (use p2(1,2) t(3) that in \<open>auto simp: hcd_inv_def hcd_owned_def\<close>)
  then have "local_inv t" using local_inv_frame [OF _ t(2,7)] s2(1) by (simp add: served_def)
  moreover have "main_round P s = Some (Inr False, t)"
    using n(1) wk1(1) run t(1) by (simp add: main_round_def main_work_def and_then_def urb_work_def)
  ultimately show ?thesis using t(5) by blast
qed

text \<open>
  C14. A device is enumerated: when the host asks address A, which a port of the controller has,
  for the device or the configuration descriptor, one round of the background thread and one round
  of the main loop of the C++ device answer it. Neither faults nor throws; the kernel gets exactly
  one answer, with the handle of the request, status 0, the right prefix of the right descriptor and
  its length, and an untouched rest of the buffer; before that each callback has been called once.
  Afterwards the memory is exactly as it was, the queues are as before and the invariant holds.
\<close>

theorem descriptor_request_round_trip:
  assumes inv: "local_inv s" and kernel: "kernel_ok P" and mem: "oom s = []" and idle: "h_inbox s = []"
    and msg: "p_fetch_work P (l_fd s) 100 (env s) = (e, Inr kw)" "descriptor_request P kw"
    and adr: "\<not> iu_address (iw_urb kw) > 0x7f" "iu_address (iw_urb kw) \<in> pi_adr ` set (l_port_info s)"
    and d: "descriptor_named (is_wValue (iu_setup (iw_urb kw))) = Some d"
      "drop_bit 8 (is_wValue (iu_setup (iw_urb kw))) \<noteq> 3"
  shows "\<exists>s1 t. bg_work P s = Some (Inr (), s1) \<and> main_round P s1 = Some (Inr False, t) \<and>
    local_inv t \<and> heap t = heap s \<and> h_inbox t = [] \<and> h_processing t = h_processing s \<and>
    env t = fst (p_giveback P (l_fd s) (descriptor_reply kw d) (fold (p_callback P) (h_callbacks s) e))"
proof -
  have abi: "abi_ok P" using kernel by (simp add: kernel_ok_def)
  have ok: "ports_ok s" "heap_ok s" using inv by (simp_all add: local_inv_def hcd_inv_def)
  let ?i = "of_nat (port_of (iu_address (iw_urb kw)) (l_port_info s)) :: u8"
  have i: "unat ?i = port_of (iu_address (iw_urb kw)) (l_port_info s)" by (rule port_from_address_run(3) [OF ok(1)])
  have "port_of (iu_address (iw_urb kw)) (l_port_info s) \<noteq> 0"
    using adr(2) by (auto simp: port_of_def find_None_iff in_set_conv_nth split: option.splits)
  then have i0: "?i \<noteq> 0" using i by auto
  let ?h = "queued_heap (message_urb kw) ?i (brk s) (heap s)"
  let ?s = "on_work_enqueued P (s\<lparr>env := e, heap := ?h, brk := Suc (Suc (Suc (brk s))),
    h_inbox := h_inbox s @ [Suc (Suc (brk s))]\<rparr>)"
  have bg: "bg_work P s = Some (Inr (), ?s)" by (rule bg_work_descriptor [OF inv kernel mem msg adr(1) i0 i])
  then have inv1: "local_inv ?s" using bg_work_run [OF inv kernel] by (auto simp: bg_effect_def)
  have s: "oom ?s = []" "h_inbox ?s = [Suc (Suc (brk s))]" "heap ?s = ?h" "brk s \<noteq> 0" "l_fd ?s = l_fd s"
    "h_processing ?s = h_processing s" "env ?s = fold (p_callback P) (h_callbacks s) e"
    using mem idle ok(2) by (simp_all add: on_work_enqueued_def heap_ok_def)
  have "?h |` (- {brk s, Suc (brk s), Suc (Suc (brk s))}) = heap s"
    using ok(2) by (auto simp: queued_heap_def restrict_map_def heap_ok_def fun_eq_iff) (metis less_irrefl less_SucI lessI Suc_lessD option.exhaust)+
  with main_round_descriptor [OF inv1 s(1-4) abi msg(2) d] bg s(3,5-7) show ?thesis by auto
qed

text \<open>The host asks the device with address 0 for eight bytes of its device descriptor.\<close>

definition enumeration_work :: ioc_work where
  "enumeration_work = \<lparr>iw_handle = 12,
     iw_port = \<lparr>ip_status = 0, ip_change = 0, ip_index = 0, ip_flags = 0\<rparr>,
     iw_urb = \<lparr>iu_setup = \<lparr>is_bmRequestType = 0x80, is_bRequest = 6, is_wValue = 0x0100, is_wIndex = 0,
                  is_wLength = 8\<rparr>,
               iu_buffer_length = 64, iu_interval = 0, iu_packet_count = 0, iu_flags = 0, iu_address = 0,
               iu_endpoint = 0x80, iu_type = 2\<rparr>,
     iw_type = 1\<rparr>"

definition enumeration_platform :: "log platform" where
  "enumeration_platform = sample_platform (Inr enumeration_work) sample_reply (Inl 0)"

definition sample_quiet :: "log local_hcd" where
  "sample_quiet = (sample_addressed [])\<lparr>h_processing := [], h_inbox := []\<rparr>"

lemma enumeration_ok:
  "local_inv sample_quiet" "kernel_ok enumeration_platform"
  "descriptor_request enumeration_platform enumeration_work"
proof -
  have "hcd_inv sample_quiet"
    using sample_addressed_ok(1) [of "[]"] by (simp add: hcd_inv_def hcd_owned_def sample_quiet_def heap_ok_def works_ok_def)
  then show "local_inv sample_quiet"
    using sample_addressed_ok [of "[]"] by (simp add: local_inv_def adr_ok_def sample_quiet_def ports_ok_def table_ok_def)
  show "kernel_ok enumeration_platform"
    using sample_abi_ok(1) fetch_data_ok_sample
    by (simp add: kernel_ok_def enumeration_platform_def)
      (simp add: sample_platform_simps enumeration_work_def word_sle_eq)
  show "descriptor_request enumeration_platform enumeration_work"
    by (simp add: descriptor_request_def enumeration_platform_def enumeration_work_def sample_platform_simps
        word_sless_alt)
qed

theorem descriptor_request_round_trip_witness:
  "\<exists>s1 t. bg_work enumeration_platform sample_quiet = Some (Inr (), s1) \<and>
     main_round enumeration_platform s1 = Some (Inr False, t) \<and> heap t = heap sample_quiet \<and>
     env t = [GaveBack \<lparr>ig_handle = 12, ig_status = 0, ig_buffer_actual = 8, ig_packet_count = 0,
         ig_error_count = 0, ig_buffer = Some (map Some [18, 1, 0, 2, 0, 0, 0, 64] @ replicate 56 None),
         ig_iso_packets = None\<rparr>, Called \<lparr>cb_func = 9, cb_arg = 1\<rparr>, FetchedWork]"
proof -
  have q: "oom sample_quiet = []" "h_inbox sample_quiet = []" "env sample_quiet = []" "h_callbacks sample_quiet =
    [\<lparr>cb_func = 9, cb_arg = 1\<rparr>]" "l_port_info sample_quiet = [\<lparr>pi_adr = 0, pi_stat = port_stat_default\<rparr>]"
    by (simp_all add: sample_quiet_def sample_addressed_def sample_local_def)
  have f: "p_fetch_work enumeration_platform fd n e = (FetchedWork # e, Inr enumeration_work)" for fd n e
    by (simp add: enumeration_platform_def sample_platform_simps)
  have d: "descriptor_named (is_wValue (iu_setup (iw_urb enumeration_work))) = Some dev_desc"
    "drop_bit 8 (is_wValue (iu_setup (iw_urb enumeration_work))) \<noteq> 3"
    "\<not> iu_address (iw_urb enumeration_work) > 0x7f"
    "iu_address (iw_urb enumeration_work) \<in> pi_adr ` set (l_port_info sample_quiet)"
    by (simp_all add: enumeration_work_def descriptor_named_def q)
  have r: "descriptor_reply enumeration_work dev_desc = \<lparr>ig_handle = 12, ig_status = 0, ig_buffer_actual = 8,
      ig_packet_count = 0, ig_error_count = 0,
      ig_buffer = Some (map Some [18, 1, 0, 2, 0, 0, 0, 64] @ replicate 56 None), ig_iso_packets = None\<rparr>"
    by (simp add: descriptor_reply_def enumeration_work_def dev_desc_def)
  have k: "fst (p_giveback enumeration_platform fd x e) = GaveBack x # e"
    "p_callback enumeration_platform c e = Called c # e" for fd x c e
    by (simp_all add: enumeration_platform_def sample_platform_simps)
  show ?thesis
    using descriptor_request_round_trip [OF enumeration_ok(1,2) q(1,2) f enumeration_ok(3) d(3,4,1,2)]
    unfolding r k q by auto
qed

end
