(* ===== verification/Device_Program.thy ===== *)
theory Device_Program
  imports Device_Main Local_System Hcd_Spec
begin

text \<open>
  The program \<^verbatim>\<open>examples/virtual_device.cpp\<close> as a whole: \<open>main\<close> constructs the controller and registers its
  callback, then its thread and the background thread take turns in any order.
\<close>

section \<open>The program\<close>

text \<open>\<open>local_hcd hcd(1); hcd.add_work_enqueued_callback(...)\<close>\<close>

definition device_start ::
  "'e platform \<Rightarrow> callback \<Rightarrow> ('e, 'z) local_hcd_scheme \<Rightarrow> ((exn + unit) \<times> ('e, 'z) local_hcd_scheme) option" where
  "device_start P cb s = do {
     (r, s) \<leftarrow> local_hcd_ctor P 1 s;
     (case r of
        Inl e \<Rightarrow> Some (Inl e, s)
      | Inr _ \<Rightarrow> Some (add_work_enqueued_callback cb s)) }"

text \<open>
  The two threads after that. Main may look for work at any time; when it does wait is the subject of
  \<open>Device_Wakeup\<close>. \<open>main_at\<close> says where the main thread is in a round: before \<open>next_work\<close>, about to react to the work it has got, or
  about to finish it. Each call is one step; the background thread may do a round in between. Memory lasts: every
  step begins with \<open>oom\<close> empty, and \<open>world\<close> may clear it.
\<close>

datatype main_at = Between | Serving nat | Finishing nat

inductive device_runs :: "'e platform \<Rightarrow> callback \<Rightarrow> main_at \<Rightarrow> ('e, 'z) local_hcd_scheme \<Rightarrow> bool"
  for P :: "'e platform" and cb :: callback where
  start: "heap_ok s \<Longrightarrow> device_start P cb s = Some (Inr (), t) \<Longrightarrow> device_runs P cb Between t"
| background: "device_runs P cb m s \<Longrightarrow> oom s = [] \<Longrightarrow> bg_work P s = Some (Inr (), t) \<Longrightarrow>
    device_runs P cb m t"
| fetch: "device_runs P cb Between s \<Longrightarrow> oom s = [] \<Longrightarrow> next_work s = Some (Inr (w, cont), t) \<Longrightarrow>
    device_runs P cb (if w = 0 then Between else Serving w) t"
| serve: "device_runs P cb (Serving w) s \<Longrightarrow> oom s = [] \<Longrightarrow> main_work P w s = Some (Inr (), t) \<Longrightarrow>
    device_runs P cb (Finishing w) t"
| finish: "device_runs P cb (Finishing w) s \<Longrightarrow> oom s = [] \<Longrightarrow>
    finish_work (local_finishing_work P) w s = Some (Inr (), t) \<Longrightarrow> device_runs P cb Between t"
| world: "device_runs P cb m s \<Longrightarrow> device_runs P cb m (s\<lparr>env := e, errno := x, oom := [], naps := ns\<rparr>)"
| stop: "device_runs P cb m s \<Longrightarrow> device_runs P cb m (s\<lparr>h_thread_shutdown := True\<rparr>)"

section \<open>What the kernel promises\<close>

text \<open>A control transfer comes with a buffer for all of it.\<close>

definition transfers_ok :: "'e platform \<Rightarrow> bool" where
  "transfers_ok P \<longleftrightarrow> (\<forall>fd n e kw. snd (p_fetch_work P fd n e) = Inr kw \<longrightarrow>
     iw_type kw = WORK_TYPE_PROCESS_URB P \<longrightarrow> iu_type (iw_urb kw) = URB_TYPE_CONTROL P \<longrightarrow>
     unat (is_wLength (iu_setup (iw_urb kw))) \<le> unat (iu_buffer_length (iw_urb kw)))"

lemma fetched_transfer:
  assumes "abi_ok P" "transfers_ok P" "usb_vhci_fetch_work P fd work s = (res, w, t)" "res \<noteq> - 1"
    "wk_type w = WORK_TYPE_PROCESS_URB P" "wk_work w = WorkUrb u"
  shows "unat (u_wLength u) \<le> unat (u_buffer_length u)" "res = 0 \<longrightarrow> u_packet_count u = 0"
proof -
  obtain e kw where k: "p_fetch_work P fd 100 (env s) = (e, Inr kw)" "iw_type kw = WORK_TYPE_PROCESS_URB P"
    using assms(3-6) abi_ok_parts(1) [OF assms(1)]
    by (cases "p_fetch_work P fd 100 (env s)") (auto simp: usb_vhci_fetch_work_def usb_vhci_fetch_work_timeout_def
        syscall_def Let_def work_types_ok_def split: sum.splits option.splits if_splits)
  have "iu_type (iw_urb kw) = URB_TYPE_CONTROL P \<Longrightarrow>
      unat (is_wLength (iu_setup (iw_urb kw))) \<le> unat (iu_buffer_length (iw_urb kw))"
    using assms(2) k unfolding transfers_ok_def by (metis snd_conv)
  then show "unat (u_wLength u) \<le> unat (u_buffer_length u)"
    using assms(3-6) k abi_ok_parts(1) [OF assms(1)]
    by (auto simp: usb_vhci_fetch_work_def usb_vhci_fetch_work_timeout_def syscall_def Let_def work_types_ok_def
        fetch_urb_by_type_def zero_urb_def split: option.splits if_splits)
  show "res = 0 \<longrightarrow> u_packet_count u = 0"
    using assms(3-6) k abi_ok_parts(1) [OF assms(1)]
    by (auto simp: usb_vhci_fetch_work_def usb_vhci_fetch_work_timeout_def syscall_def Let_def work_types_ok_def
        split: option.splits if_splits)
qed

section \<open>Every work can be served\<close>

definition all_serviceable :: "'e platform \<Rightarrow> ('e, 'z) hcd_scheme \<Rightarrow> bool" where
  "all_serviceable P s \<longleftrightarrow> (\<forall>p \<in> set (hcd_owned s). serviceable P p s)"

lemma all_serviceable_kept:
  assumes "hcd_inv s" "all_serviceable P s" "keeps s t"
    and "\<And>p. p \<in> set (hcd_owned t) \<Longrightarrow> p \<notin> set (hcd_owned s) \<Longrightarrow> serviceable P p t"
  shows "all_serviceable P t"
  unfolding all_serviceable_def
proof
  fix p assume p: "p \<in> set (hcd_owned t)"
  show "serviceable P p t"
  proof (cases "p \<in> set (hcd_owned s)")
    case True
    then have sv: "serviceable P p s" "work_object s p"
      using assms(1,2) works_ok_object by (auto simp: hcd_inv_def all_serviceable_def)
    show ?thesis
      by (rule serviceable_frame [OF sv]) (use assms(3) work_footprint_subset [OF True] in \<open>auto simp: keeps_def\<close>)
  qed (use assms(4) p in blast)
qed

lemma all_serviceable_heap:
  assumes "heap t = heap s" "set (hcd_owned t) \<subseteq> set (hcd_owned s)" "all_serviceable P s"
  shows "all_serviceable P t"
proof -
  have "packets_set t u = packets_set s u" for u by (rule packets_set_frame) (simp add: assms(1))
  then have "serviceable P p t = serviceable P p s" for p
    using heap_determines(1) [OF assms(1), of p] load_cong(1) [of t _ s] assms(1)
    by (simp add: serviceable_def split: option.split work_kind.split)
  then show ?thesis using assms(2,3) by (auto simp: all_serviceable_def)
qed

text \<open>The packets that were fetched with a URB are all set.\<close>

lemma fetched_packets_set:
  assumes "fetched P fd v s 0 t" "urb_mem s v" "fetch_data_ok P" "pointed v"
  shows "packets_set t v"
proof -
  obtain data pkts where d: "snd (p_fetch_data P fd (fetch_request s v) (env s)) = Inr (data, pkts)"
    and h: "heap t = fetched_heap (heap s) v data pkts"
    using assms(1) by (auto simp: fetched_def split: sum.splits prod.splits)
  have "fetch_reply_ok (fetch_request s v) (data, pkts)" using assms(3) d unfolding fetch_data_ok_def by blast
  then have "length pkts = unat (u_packet_count v)" by (simp add: fetch_reply_ok_def fetch_request_def)
  moreover have "\<exists>ps. map (Some \<circ> fetched_packet) pkts = map Some ps" by (metis map_map)
  ultimately show ?thesis
    using h assms(4) by (auto simp: packets_set_iff fetched_heap_def pointed_def unat_eq_zero)
qed

lemma urb_message_serviceable:
  fixes s :: "('e, 'z) local_hcd_scheme"
  assumes inv: "local_inv s" and msg: "message_ok w" "fetch_data_ok P" and mem: "oom s = []"
    and w: "unat (u_wLength w) \<le> unat (u_buffer_length w)" "res = 0 \<longrightarrow> u_packet_count w = 0"
    and run: "bg_process_urb P res w 0 False s = Some (r, t)" and all: "all_serviceable P s"
  shows "all_serviceable P t"
proof -
  have h: "hcd_inv s" "ports_ok s" "works_ok s (hcd_owned s)" using inv by (simp_all add: local_inv_def hcd_inv_def)
  have held: "held s 0" using h(1) by (simp add: held_inv)
  have idle: "all_serviceable P t" if "idle s t"
    by (rule all_serviceable_kept [OF h(1) all]) (use that idle_owned [OF that] in \<open>simp_all add: idle_def\<close>)
  have go: "\<not> (False \<and> h_thread_shutdown (if False then usleep s else s))" by simp
  from held msg(1) h(2) msg(2) refl go show ?thesis
  proof (cases rule: urb_round [where nomem = False and res = res])
    case (tried u v s2 s3 r' q t')
    note f = same_message_fields [OF tried(2)]
    have mv: "message_ok v" by (rule f(13) [OF msg(1) tried(3)])
    have "r' \<noteq> Inr False" using tried(13) mem by auto
    then have t: "t' = t" using tried(12) run by (cases r') auto
    consider (dropped) "idle s t" | (queued) "urb_queued P u v s3 t"
      using tried(7,13) \<open>r' \<noteq> Inr False\<close> t by (cases r') auto
    then show ?thesis
    proof cases
      case dropped
      then show ?thesis by (rule idle)
    next
      case queued
      obtain q index where q: "h_inbox t = h_inbox s @ [q]" "h_processing t = h_processing s" "keeps s3 t"
        "load_work q t = Some (urb_work index u)" "load_urb u t = Some (answered P v)"
        "\<forall>x \<in> urb_blocks v. heap t x = heap s3 x"
        using queued tried(7) by (auto simp: urb_queued_def idle_def)
      have "keeps s t"
        using keeps_trans [OF h(3) _ idle_owned [OF tried(7)] q(3)] tried(7) by (simp add: idle_def)
      moreover have "serviceable P q t"
      proof -
        have "packets_set t v"
        proof (cases "res = 0")
          case True
          then show ?thesis using w(2) f(2) by (simp add: packets_set_def)
        next
          case False
          have um: "urb_mem s2 v" by (rule fresh_object_urb(2) [OF tried(5) mv]) (use tried(4) in \<open>simp add: waited_def\<close>)
          have "packets_set s3 v"
            by (rule fetched_packets_set [OF _ um msg(2) tried(3)]) (use tried(11) False in simp)
          moreover have "u_iso_packets v \<noteq> 0 \<Longrightarrow> heap t (u_iso_packets v) = heap s3 (u_iso_packets v)"
            using q(6) by (simp add: urb_blocks_def)
          ultimately show ?thesis using packets_set_frame by blast
        qed
        moreover have "packets_set t (answered P v) = packets_set t v" by (simp add: packets_set_def)
        moreover have "u_wLength (answered P v) = u_wLength w"
          using tried(2) by (simp add: same_message_def answered_def stall_def ack_def set_status_def)
            (metis usb_vhci_urb.select_convs usb_vhci_urb.surjective usb_vhci_urb.update_convs)
        ultimately show ?thesis
          using q(4,5) w(1) f(1) by (simp add: serviceable_def urb_work_def)
      qed
      ultimately show ?thesis
        by (intro all_serviceable_kept [OF h(1) all]) (use q(1,2) in \<open>auto simp: hcd_owned_def\<close>)
    qed
  qed (use idle run in auto)
qed

lemma marked_serviceable:
  assumes inv: "hcd_inv s" "p \<in> set (hcd_owned s)" and w: "load_work p s = Some w"
    and t: "heap t = heap (mark p s)" "hcd_owned t = hcd_owned s" and all: "all_serviceable P s"
  shows "all_serviceable P t"
  unfolding all_serviceable_def t(2)
proof
  fix q assume q: "q \<in> set (hcd_owned s)"
  then have sv: "serviceable P q s" and wq: "work_object s q"
    using all inv(1) works_ok_object by (auto simp: all_serviceable_def hcd_inv_def)
  have lw: "load_work q t = (if q = p then Some (work_cancel w) else load_work q s)"
    using load_work_mark [OF w] heap_determines(1) [OF t(1)] by simp
  have blk: "heap t x = heap s x" if "heap s x \<noteq> Some (WorkObj w)" for x
    using that w t(1) by (auto simp: load_work_Some)
  obtain v where v: "load_work q s = Some v" using wq by (rule work_objectE)
  show "serviceable P q t"
  proof (cases "w_kind v")
    case (ProcessUrbWork r)
    then obtain u where u: "load_urb r s = Some u" "usb_vhci_is_iso P (u_type u) \<longrightarrow> packets_set s u"
      "unat (u_wLength u) \<le> unat (u_buffer_length u)"
      using sv v by (auto simp: serviceable_def split: option.splits)
    have um: "urb_mem s u"
      using wq v ProcessUrbWork u(1) urb_object_blocks(3) by (auto simp: work_object_def)
    have "load_urb r t = Some u" using u(1) blk [of r] by (simp add: load_urb_Some)
    moreover have "packets_set t u = packets_set s u"
    proof (cases "u_packet_count u = 0")
      case False
      then have "heap t (u_iso_packets u) = heap s (u_iso_packets u)"
        using um blk [of "u_iso_packets u"] by (auto simp: urb_mem_def packets_at_iff)
      then show ?thesis by (rule packets_set_frame)
    qed (simp add: packets_set_def)
    ultimately show ?thesis
      using lw v w ProcessUrbWork u(2,3) by (auto simp: serviceable_def work_cancel_def)
  qed (use lw v w in \<open>auto simp: serviceable_def work_cancel_def\<close>)
qed

lemma cancel_serviceable:
  fixes s :: "('e, 'z) local_hcd_scheme"
  assumes inv: "hcd_inv s" and all: "all_serviceable P s"
    and run: "cancel_process_urb_work (local_canceling_work P) (local_finishing_work P) h s = Some (r, t)"
  shows "all_serviceable P t"
proof -
  note spec = local_hooks.cancel_spec [OF inv, of P h]
  show ?thesis
  proof (cases "List.find (has_handle s h) (h_inbox s)")
    case (Some p)
    then have p: "p \<in> set (h_inbox s)" "has_handle s h p" using find_SomeD by fast+
    then obtain w where w: "load_work p s = Some w" by (auto elim: has_handle_owned)
    have "heap t = heap (mark p s)" "hcd_owned t = hcd_owned s"
      using spec Some run by (auto simp: hcd_owned_def split: if_splits)
    then show ?thesis using marked_serviceable [OF inv _ w _ _ all] p(1) by (simp add: hcd_owned_def)
  next
    case None
    show ?thesis
    proof (cases "List.find (has_handle s h) (h_processing s)")
      case None2: None
      then show ?thesis using spec None run all by simp
    next
      case (Some p)
      then have p: "p \<in> set (h_processing s)" "has_handle s h p" using find_SomeD by fast+
      then obtain w q u where w: "load_work p s = Some w" "w_kind w = ProcessUrbWork q" "load_urb q s = Some u"
        by (auto elim: has_handle_owned)
      have c: "local_canceling_work P p True s = Some (case r of Inl e \<Rightarrow> Inl e | Inr _ \<Rightarrow> Inr (), t)"
        and ext: "heap s \<subseteq>\<^sub>m heap t" and pr: "h_processing t = h_processing s"
        using spec None Some run by auto
      have "h_inbox t = h_inbox s \<or> (\<exists>cw. h_inbox t = h_inbox s @ [cw] \<and> load_work cw t = Some (cancel_work_of w u))"
        using local_canceling_run [OF inv p(1) w, of P] c by (auto split: sum.splits)
      then show ?thesis
        by (intro all_serviceable_kept [OF inv all keeps_extend [OF _ ext]])
          (use inv pr in \<open>auto simp: hcd_inv_def hcd_owned_def serviceable_def cancel_work_of_def\<close>)
    qed
  qed
qed

lemma port_stat_serviceable:
  fixes s :: "('e, 'z) local_hcd_scheme"
  assumes inv: "hcd_inv s" "port_ok index s" and all: "all_serviceable P s"
    and run: "bg_port_stat P index nps 0 False s = Some (r, t)"
  shows "all_serviceable P t"
proof -
  have "spare s 0" using inv(1) by (simp add: spare_def hcd_inv_def)
  from bg_port_stat_run [OF this inv(2), of P nps False] run consider
    (stopped) "paused s t" | (queued) s' where "paused s s'" "port_stat_done P index nps s' t" by auto
  then show ?thesis
  proof cases
    case stopped
    then show ?thesis
      by (intro all_serviceable_kept [OF inv(1) all]) (use paused_owned [OF stopped] in \<open>auto simp: paused_def\<close>)
  next
    case d: queued
    from d(2) obtain q where q: "h_inbox t = h_inbox s' @ [q]" "h_processing t = h_processing s'"
      "load_work q t = Some (port_stat_work_of P index nps (pi_stat (port_at index s')))" "keeps s' t"
      by (rule port_stat_done_effect)
    have "keeps s t"
      using keeps_trans [OF _ _ paused_owned [OF d(1)] q(4)] d(1) inv(1) by (simp add: paused_def hcd_inv_def)
    then show ?thesis
      by (intro all_serviceable_kept [OF inv(1) all])
        (use q d(1) in \<open>auto simp: hcd_owned_def paused_def serviceable_def port_stat_work_of_def\<close>)
  qed
qed

lemma bg_work_serviceable:
  fixes s :: "('e, 'z) local_hcd_scheme"
  assumes kernel: "kernel_ok P" "transfers_ok P" and inv: "local_inv s" and mem: "oom s = []"
    and all: "all_serviceable P s" and run: "bg_work P s = Some (r, t)"
  shows "all_serviceable P t"
proof -
  have abi: "abi_ok P" using kernel(1) by (simp add: kernel_ok_def)
  have k: "work_types_ok P" "fetch_data_ok P"
    "\<And>fd n e kw. snd (p_fetch_work P fd n e) = Inr kw \<Longrightarrow>
        0 \<le>s iu_buffer_length (iw_urb kw) \<and> 0 \<le>s iu_packet_count (iw_urb kw)"
    using kernel(1) abi_ok_parts(1) [of P] by (auto simp: kernel_ok_def)
  have d: "distinct [WORK_TYPE_PORT_STAT P, WORK_TYPE_PROCESS_URB P, WORK_TYPE_CANCEL_URB P]"
    using k(1) by (simp add: work_types_ok_def)
  have env: "local_inv (s\<lparr>env := e\<rparr>)" "all_serviceable P (s\<lparr>env := e\<rparr>)" for e
    using inv all_serviceable_heap [OF _ _ all, of "s\<lparr>env := e\<rparr>"] by (simp_all add: local_inv_env hcd_owned_def)
  have hi: "hcd_inv (s\<lparr>env := e\<rparr>)" "ports_ok (s\<lparr>env := e\<rparr>)" for e
    using env(1) [of e] by (simp_all add: local_inv_def)
  from k(1) show ?thesis
  proof (cases rule: fetch_work_cases [where work = uninit_work and fd = "l_fd s" and s = s])
    case (none w e err)
    then have "t = s\<lparr>env := e, errno := err\<rparr>" using run by (simp add: bg_work_def)
    then show ?thesis by (intro all_serviceable_heap [OF _ _ all]) (simp_all add: hcd_owned_def)
  next
    case (port ps e)
    show ?thesis
    proof (cases "ps_index ps = 0 \<or> ps_index ps > h_port_count s")
      case True
      then have "t = s\<lparr>env := e\<rparr>" using run port by (auto simp: bg_work_def Let_def)
      then show ?thesis by (simp add: env(2))
    next
      case False
      then have "port_ok (ps_index ps) (s\<lparr>env := e\<rparr>)"
        using hi(2) by (simp add: port_ok_def ports_ok_def word_le_nat_alt not_less)
      from port_stat_serviceable [OF hi(1) this env(2)] show ?thesis
        using False run port by (auto simp: bg_work_def Let_def)
    qed
  next
    case (urb kw u res e)
    have "message_ok u" using fetched_message_ok [OF urb(4,5) _ _ urb(6)] k(3) [OF urb(3)] by blast
    moreover have "bg_process_urb P res u 0 False (s\<lparr>env := e\<rparr>) = Some (r, t)"
      using urb(1,2) d run by (auto simp: bg_work_def)
    ultimately show ?thesis
      using urb_message_serviceable [OF env(1) _ k(2), of u e res r t] mem env(2)
        fetched_transfer [OF abi kernel(2) urb(1,2)] by simp
  next
    case (cancel h e)
    then obtain r' where "cancel_process_urb_work (local_canceling_work P) (local_finishing_work P) h (s\<lparr>env := e\<rparr>) = Some (r', t)"
      using run d by (auto simp: bg_work_def split: bind_splits)
    then show ?thesis by (rule cancel_serviceable [OF hi(1) env(2)])
  qed
qed

section \<open>The invariant of the program\<close>

fun in_progress :: "main_at \<Rightarrow> nat list" where
  "in_progress Between = []"
| "in_progress (Serving w) = [w]"
| "in_progress (Finishing w) = [w]"

definition device_inv :: "'e platform \<Rightarrow> main_at \<Rightarrow> ('e, 'z) local_hcd_scheme \<Rightarrow> bool" where
  "device_inv P m s \<longleftrightarrow> sys_inv 1 s \<and> h_processing s = in_progress m \<and> all_serviceable P s"

lemma removed_serviceable:
  fixes s t :: "('e, 'z) hcd_scheme"
  assumes inv: "hcd_inv s" and all: "all_serviceable P s"
    and t: "set (gone @ hcd_owned t) \<subseteq> set (hcd_owned s)" "distinct (gone @ hcd_owned t)"
      "heap t = heap s |` (- footprints s gone)"
  shows "all_serviceable P t"
  unfolding all_serviceable_def
proof
  fix p assume p: "p \<in> set (hcd_owned t)"
  have k: "\<forall>x \<in> footprints s (hcd_owned t). heap t x = heap s x" using kept_restrict [OF inv t] by (simp add: kept_def)
  have "p \<in> set (hcd_owned s)" using p t(1) by auto
  then have "serviceable P p s" "work_object s p"
    using all inv works_ok_object by (auto simp: all_serviceable_def hcd_inv_def)
  then show "serviceable P p t"
    by (rule serviceable_frame) (use k work_footprint_subset [OF p] in auto)
qed

lemma device_start_run:
  assumes "heap_ok s" "files_ok P" "device_start P cb s = Some (Inr (), t)"
  shows "device_inv P Between t"
proof -
  obtain u where u: "local_hcd_ctor P 1 s = Some (Inr (), u)" "add_work_enqueued_callback cb u = (Inr (), t)"
    using assms(3) by (auto simp: device_start_def split: bind_splits sum.splits)
  have t: "heap t = heap u" "brk t = brk u" "hcd_owned t = hcd_owned u" "h_port_count t = h_port_count u"
    "l_port_info t = l_port_info u" "l_port_block t = l_port_block u" "h_processing t = h_processing u"
    using u(2)
    by (auto simp: add_work_enqueued_callback_def alloc_fails_def hcd_owned_def split: list.splits bool.splits)
  obtain fd reg tid where f: "local_inv u" "fresh_hcd 1 fd reg tid u"
    using local_hcd_ctor_success [OF assms(1,2) u(1)] by blast
  then have "sys_inv 1 u" by (simp add: sys_inv_def fresh_hcd_def ranged_def hcd_owned_def)
  then have "sys_inv 1 t" by (rule quiet_sys [OF _ t(1-6)])
  moreover have "h_processing t = []" "hcd_owned t = []" using f(2) t(3,7) by (simp_all add: fresh_hcd_def hcd_owned_def)
  ultimately show ?thesis by (simp add: device_inv_def all_serviceable_def)
qed

lemma device_port: "sys_inv 1 s \<Longrightarrow> port_ok 1 s"
  by (simp add: sys_inv_def local_inv_def ports_ok_def port_ok_def)

lemma served_serviceable:
  assumes inv: "hcd_inv s" and all: "all_serviceable P s" and w: "w \<in> set (hcd_owned s)"
    and t: "served w s t" "serviceable P w t"
  shows "all_serviceable P t"
  unfolding all_serviceable_def
proof
  fix p assume "p \<in> set (hcd_owned t)"
  then have p: "p \<in> set (hcd_owned s)" using t(1) by (simp add: served_def hcd_owned_def)
  have ws: "works_ok s (hcd_owned s)" using inv by (simp add: hcd_inv_def)
  show "serviceable P p t"
  proof (cases "p = w")
    case False
    then have "disjnt (work_footprint s p) (work_footprint s w)"
      using ws p w by (auto simp: works_ok_def pairwise_def)
    then have k: "heap t x = heap s x" if "x \<in> work_footprint s p" for x
      using that t(1) by (auto simp: served_def disjnt_def)
    show ?thesis
      by (rule serviceable_frame [OF _ works_ok_object [OF ws p] k]) (use all p in \<open>simp_all add: all_serviceable_def\<close>)
  qed (use t(2) in simp)
qed

lemma device_runs_inv:
  assumes "device_runs P cb m s" "kernel_ok P" "files_ok P" "transfers_ok P"
  shows "device_inv P m s"
  using assms(1)
proof induction
  case (start s t)
  then show ?case by (rule device_start_run [OF _ assms(3)])
next
  case (background m s t)
  have inv: "sys_inv 1 s" "local_inv s" "all_serviceable P s" "h_processing s = in_progress m"
    using background.IH by (simp_all add: device_inv_def sys_inv_def)
  obtain t' where e: "t' = t" "bg_effect (no_iso P) s t'"
    using bg_work_run [OF inv(2) assms(2)] background(3) by auto
  then have "sys_inv 1 t" "h_processing t = h_processing s"
    using bg_effect_sys [OF _ inv(1)] by (auto simp: bg_effect_def)
  then show ?case
    using bg_work_serviceable [OF assms(2,4) inv(2) background(2) inv(3) background(3)] inv(4)
    by (simp add: device_inv_def)
next
  case (fetch s w cont t)
  have inv: "sys_inv 1 s" "hcd_inv s" "all_serviceable P s" "h_processing s = []"
    using fetch.IH by (simp_all add: device_inv_def sys_inv_def local_inv_def)
  obtain r t' where "next_work s = Some (r, t')" "sys_inv 1 t'" using next_work_sys [OF inv(1)] by blast
  then have "sys_inv 1 t" using fetch(3) by simp
  moreover note own = next_work_owned [OF inv(2) fetch(3) refl]
  have "all_serviceable P t" by (rule removed_serviceable [OF inv(2,3) own])
  moreover have "h_processing t = in_progress (if w = 0 then Between else Serving w)"
  proof (cases "dropWhile (is_canceled s) (h_inbox s)")
    case Nil
    then show ?thesis using next_work_spec [OF inv(2) refl Nil [symmetric]] fetch(3) inv(4) by auto
  next
    case (Cons p rest)
    then have "p \<in> set (h_inbox s)" by (metis list.set_intros(1) set_dropWhileD)
    then have "p \<noteq> 0" using inv(2) works_ok_object [of s "hcd_owned s" p]
      by (auto simp: hcd_inv_def hcd_owned_def elim: work_objectE)
    then show ?thesis
      using next_work_spec [OF inv(2) refl Cons [symmetric]] fetch(2,3) inv(4) by (auto simp: alloc_fails_def)
  qed
  ultimately show ?case by (simp add: device_inv_def)
next
  case (serve w s t)
  have inv: "sys_inv 1 s" "hcd_inv s" "local_inv s" "all_serviceable P s" "h_processing s = [w]"
    using serve.IH by (simp_all add: device_inv_def sys_inv_def local_inv_def)
  have own: "w \<in> set (hcd_owned s)" and sv: "serviceable P w s"
    using inv(4,5) by (simp_all add: hcd_owned_def all_serviceable_def)
  have m: "served w s t" "serviceable P w t" "env_only s t \<or> (\<exists>q h. t = s\<lparr>heap := h\<rparr> \<and> edited s w q t)"
    using main_work_run [OF inv(3) device_port [OF inv(1)] _ sv] inv(5) serve(3) by auto
  have "sys_inv 1 t"
    using m(3)
  proof (elim disjE exE conjE)
    assume "env_only s t"
    then obtain e n where "t = s\<lparr>env := e, errno := n\<rparr>" by (auto simp: env_only_def)
    then show ?thesis by (intro quiet_sys [OF inv(1)]) (simp_all add: hcd_owned_def)
  next
    fix q h assume "t = s\<lparr>heap := h\<rparr>" "edited s w q t"
    then show ?thesis using edit_sys [OF inv(1), of w q h] inv(5) by simp
  qed
  moreover have "all_serviceable P t" by (rule served_serviceable [OF inv(2,4) own m(1,2)])
  ultimately show ?case using m(1) inv(5) by (simp add: device_inv_def served_def)
next
  case (finish w s t)
  have inv: "sys_inv 1 s" "hcd_inv s" "all_serviceable P s" "h_processing s = [w]"
    using finish.IH by (simp_all add: device_inv_def sys_inv_def local_inv_def)
  have p: "w \<in> set (h_processing s)" "serviceable P w s"
    using inv(3,4) by (simp_all add: hcd_owned_def all_serviceable_def)
  note ready = serviceable_ready [OF finish(2) p(2)]
  have "sys_inv 1 t" using finish_work_sys [OF inv(1) p(1) ready] finish(3) by auto
  moreover from local_hooks.finish_work_spec [OF inv(2) p(1) ready] finish(3) have
    t: "heap t = heap s |` (- footprints s [w])" "h_inbox t = h_inbox s" "h_processing t = removeAll w (h_processing s)"
    by auto
  have "distinct (hcd_owned s)" using inv(2) by (simp add: hcd_inv_def works_ok_def)
  then have "all_serviceable P t"
    using inv(4) t(2,3) by (intro removed_serviceable [OF inv(2,3) _ _ t(1)]) (auto simp: hcd_owned_def)
  ultimately show ?case using t(3) inv(4) by (simp add: device_inv_def)
next
  case (world m s ns x e)
  let ?t = "s\<lparr>env := e, errno := x, oom := [], naps := ns\<rparr>"
  have "sys_inv 1 ?t" by (rule quiet_sys) (use world.IH in \<open>simp_all add: device_inv_def hcd_owned_def\<close>)
  moreover have "all_serviceable P ?t"
    by (rule all_serviceable_heap [of _ s]) (use world.IH in \<open>simp_all add: device_inv_def hcd_owned_def\<close>)
  ultimately show ?case using world.IH by (simp add: device_inv_def)
next
  case (stop m s)
  let ?t = "s\<lparr>h_thread_shutdown := True\<rparr>"
  have "sys_inv 1 ?t" by (rule quiet_sys) (use stop.IH in \<open>simp_all add: device_inv_def hcd_owned_def\<close>)
  moreover have "all_serviceable P ?t"
    by (rule all_serviceable_heap [of _ s]) (use stop.IH in \<open>simp_all add: device_inv_def hcd_owned_def\<close>)
  ultimately show ?case using stop.IH by (simp add: device_inv_def)
qed

lemma next_work_returns:
  assumes "hcd_inv s" "oom s = []"
  shows "\<exists>w cont t. next_work s = Some (Inr (w, cont), t)"
proof (cases "dropWhile (is_canceled s) (h_inbox s)")
  case Nil
  then show ?thesis using next_work_spec [OF assms(1) refl Nil [symmetric]] by auto
next
  case (Cons p rest)
  then show ?thesis using next_work_spec [OF assms(1) refl Cons [symmetric]] assms(2) by (auto simp: alloc_fails_def)
qed

text \<open>With one port, every work is for port 1.\<close>

lemma sys_work_port:
  assumes "sys_inv 1 s" "p \<in> set (hcd_owned s)" "load_work p s = Some w"
  shows "w_port w = 1"
proof -
  have "w_port w \<noteq> 0"
    using assms works_ok_object [of s "hcd_owned s" p] by (auto simp: sys_inv_def local_inv_def hcd_inv_def work_object_def)
  moreover have "w_port w \<le> 1" using assms by (auto simp: sys_inv_def ranged_def port_upto_def)
  ultimately show ?thesis by (simp add: word_le_nat_alt unat_eq_zero flip: unat_gt_0 word_unat_eq_iff) (metis One_nat_def Suc_le_eq le_antisym unat_1 unat_gt_0 word_unat_eq_iff)
qed

text \<open>
  C13. The whole program, two threads over one controller. In every state they can reach, as long as
  memory lasts and whatever a kernel sends that announces no negative lengths (\<open>kernel_ok\<close>) and whose control
  transfers come with a buffer of at least \<open>wLength\<close> bytes (\<open>transfers_ok\<close>): the round of the background thread returns a value, or
  one of the three exceptions of \<open>fatal\<close> leaves it; the main thread can take the next work; serving a
  work accesses only its blocks and never makes \<open>main\<close> return 1 - all that can stop the program there is a
  notification the kernel refuses -; and finishing the work succeeds. No more than one work
  is ever in progress, the one the main thread has in hand, also while the background thread cancels.
\<close>

theorem device_never_fails:
  assumes "device_runs P cb m s" "kernel_ok P" "files_ok P" "transfers_ok P" "oom s = []"
  shows "local_inv s \<and>
    (\<exists>r t. bg_work P s = Some (r, t) \<and> (\<forall>e. r = Inl e \<longrightarrow> fatal P e)) \<and>
    (case m of
       Between \<Rightarrow> h_processing s = [] \<and> (\<exists>w cont t. next_work s = Some (Inr (w, cont), t))
     | Serving w \<Rightarrow> h_processing s = [w] \<and>
         (\<exists>r t. main_work P w s = Some (r, t) \<and> (r = Inr () \<or> r = Inl (Uncaught StdException)))
     | Finishing w \<Rightarrow> h_processing s = [w] \<and>
         (\<exists>t. finish_work (local_finishing_work P) w s = Some (Inr (), t)))"
proof -
  have inv: "device_inv P m s" by (rule device_runs_inv [OF assms(1-4)])
  then have i: "sys_inv 1 s" "local_inv s" "hcd_inv s" "h_processing s = in_progress m" "all_serviceable P s"
    by (simp_all add: device_inv_def sys_inv_def local_inv_def)
  have sv: "serviceable P p s" if "p \<in> set (hcd_owned s)" for p using i(5) that by (simp add: all_serviceable_def)
  have "all_ready P s"
    using sv serviceable_ready [OF assms(5)] by (simp add: all_ready_def hcd_owned_def)
  then have bg: "\<exists>r t. bg_work P s = Some (r, t) \<and> (\<forall>e. r = Inl e \<longrightarrow> fatal P e)"
    using bg_work_run [OF i(2) assms(2)] by auto
  have "case m of
       Between \<Rightarrow> h_processing s = [] \<and> (\<exists>w cont t. next_work s = Some (Inr (w, cont), t))
     | Serving w \<Rightarrow> h_processing s = [w] \<and>
         (\<exists>r t. main_work P w s = Some (r, t) \<and> (r = Inr () \<or> r = Inl (Uncaught StdException)))
     | Finishing w \<Rightarrow> h_processing s = [w] \<and>
         (\<exists>t. finish_work (local_finishing_work P) w s = Some (Inr (), t))"
  proof (cases m)
    case Between
    then show ?thesis using i(4) next_work_returns [OF i(3) assms(5)] by simp
  next
    case (Serving w)
    then have w: "w \<in> set (h_processing s)" using i(4) by simp
    then have own: "w \<in> set (hcd_owned s)" by (simp add: hcd_owned_def)
    from main_work_run [OF i(2) device_port [OF i(1)] w sv [OF own]] obtain r t where m: "main_work P w s = Some (r, t)"
      "\<forall>x. r = Inl x \<longrightarrow> x = Uncaught StdException \<or>
         x = Returned 1 \<and> (\<exists>v. load_work w s = Some v \<and> w_port v \<noteq> 1)" by blast
    note sys_work_port [OF i(1) own]
    then have "r = Inr () \<or> r = Inl (Uncaught StdException)" using m(2) by (cases r) auto
    then show ?thesis using Serving i(4) m(1) by simp
  next
    case (Finishing w)
    then have w: "w \<in> set (h_processing s)" using i(4) by simp
    then have "local_ready P w s" by (intro serviceable_ready [OF assms(5)] sv) (simp add: hcd_owned_def)
    from local_hooks.finish_work_spec [OF i(3) w this] show ?thesis using Finishing i(4) by auto
  qed
  then show ?thesis using i(2) bg by blast
qed

text \<open>A kernel that says again and again that the first port has been powered on.\<close>

definition power_work :: ioc_work where
  "power_work = \<lparr>iw_handle = 0,
     iw_port = \<lparr>ip_status = 0x0100, ip_change = 0, ip_index = 1, ip_flags = 0\<rparr>,
     iw_urb = \<lparr>iu_setup = \<lparr>is_bmRequestType = 0, is_bRequest = 0, is_wValue = 0, is_wIndex = 0, is_wLength = 0\<rparr>,
               iu_buffer_length = 0, iu_interval = 0, iu_packet_count = 0, iu_flags = 0, iu_address = 0,
               iu_endpoint = 0, iu_type = 0\<rparr>,
     iw_type = 0\<rparr>"

definition power_platform :: "log platform" where
  "power_platform = sample_platform (Inr power_work) sample_reply
     (Inr \<lparr>ir_id = 0, ir_usb_busnum = 1, ir_bus_id = ''vhci_hcd.0''\<rparr>)"

lemmas power_simps = power_platform_def power_work_def sample_platform_simps

lemma power_platform_ok:
  "kernel_ok power_platform" "files_ok power_platform" "transfers_ok power_platform"
proof -
  have "abi_ok power_platform" "fetch_data_ok power_platform"
    using sample_abi_ok(1) fetch_data_ok_sample by (simp_all add: power_platform_def)
  then show "kernel_ok power_platform" by (simp add: kernel_ok_def) (simp add: power_simps word_sle_eq)
  show "files_ok power_platform" by (simp add: sample_files_ok power_platform_def)
  show "transfers_ok power_platform" by (simp add: transfers_ok_def power_simps)
qed

lemma power_bg:
  fixes s :: "log local_hcd"
  assumes "sys_inv 1 s" "naps s = []" "\<not> h_thread_shutdown s" "oom s = []"
  obtains q w t where "bg_work power_platform s = Some (Inr (), t)" "h_inbox t = h_inbox s @ [q]"
    "load_work q t = Some w" "\<not> w_canceled w"
proof -
  let ?s = "s\<lparr>env := FetchedWork # env s\<rparr>" and ?nps = "port_stat_new 0x0100 0 0"
  have w: "usb_vhci_fetch_work power_platform fd work s =
      (0, \<lparr>wk_work = WorkPortStat \<lparr>ps_status = 0x0100, ps_change = 0, ps_index = 1, ps_flags = 0\<rparr>,
           wk_type = WORK_TYPE_PORT_STAT power_platform\<rparr>, ?s)" for fd work
    by (simp add: usb_vhci_fetch_work_def usb_vhci_fetch_work_timeout_def syscall_def power_simps)
  have run: "bg_work power_platform s = bg_port_stat power_platform 1 ?nps 0 False ?s"
    using w assms(1) by (simp add: bg_work_def sys_inv_def)
  have inv: "sys_inv 1 ?s" by (rule quiet_sys [OF assms(1)]) (simp_all add: hcd_owned_def)
  then have "spare ?s 0" by (simp add: spare_def local_inv_def hcd_inv_def sys_inv_def)
  with bg_port_stat_run [OF this device_port [OF inv], of power_platform ?nps False] obtain t where
    t: "bg_port_stat power_platform 1 ?nps 0 False ?s = Some (Inr (), t)"
    "(paused ?s t \<and> hcd_inv t \<and> h_thread_shutdown t) \<or> (\<exists>s'. paused ?s s' \<and> port_stat_done power_platform 1 ?nps s' t)"
    by blast
  moreover have "\<not> h_thread_shutdown t" if "paused ?s t" for t using that assms(2,3) by (simp add: paused_def)
  ultimately obtain s' where p: "paused ?s s'" "port_stat_done power_platform 1 ?nps s' t" by blast
  from port_stat_done_effect [OF p(2)] obtain q where
    "h_inbox t = h_inbox s' @ [q]" "load_work q t = Some (port_stat_work_of power_platform 1 ?nps (pi_stat (port_at 1 s')))"
    by metis
  moreover have "h_inbox s' = h_inbox s" using p(1) by (simp add: paused_def)
  moreover have "\<not> w_canceled (port_stat_work_of power_platform 1 ?nps st)" for st by (simp add: port_stat_work_of_def)
  ultimately show thesis using that run t(1) by metis
qed

lemma power_start:
  obtains t :: "log local_hcd" where "device_runs power_platform cb Between t" "\<not> h_thread_shutdown t" "h_inbox t = []"
proof -
  obtain t where "device_start power_platform cb sample_raw = Some (Inr (), t)" "\<not> h_thread_shutdown t" "h_inbox t = []"
    by (auto simp: device_start_def add_work_enqueued_callback_def local_hcd_ctor_def hcd_ctor_def local_hcd_ctor_body_def
      sample_raw_def usb_vhci_open_def syscall_def power_simps malloc_def alloc_def alloc_fails_def take_bus_id_def
      load_chars_def load_def dealloc_def c_string_def init_bg_thread_def Let_def)
  then show thesis using that [OF device_runs.start [OF sample_raw_ok(1)]] by blast
qed

text \<open>The program starts, the background thread queues the notification, and the main thread takes it.\<close>

theorem device_never_fails_witness:
  "\<exists>w (s :: log local_hcd). device_runs power_platform \<lparr>cb_func = 9, cb_arg = 0\<rparr> (Serving w) s \<and>
     h_processing s = [w] \<and> (\<exists>r t. bg_work power_platform s = Some (r, t)) \<and>
     (\<exists>r t. main_work power_platform w s = Some (r, t) \<and> (r = Inr () \<or> r = Inl (Uncaught StdException)))"
proof -
  let ?P = power_platform and ?cb = "\<lparr>cb_func = 9, cb_arg = 0\<rparr>"
    and ?calm = "\<lambda>s :: log local_hcd. s\<lparr>env := env s, errno := 0, oom := [], naps := []\<rparr>"
  note P = power_platform_ok
  have calm: "device_runs ?P ?cb m s \<Longrightarrow> device_runs ?P ?cb m (?calm s)" for m s by (rule device_runs.world)
  obtain t :: "log local_hcd" where t: "device_runs ?P ?cb Between t" "\<not> h_thread_shutdown t" "h_inbox t = []"
    by (rule power_start [of ?cb])
  note a = calm [OF t(1)]
  have inv: "sys_inv 1 s" "hcd_inv s" if "device_runs ?P ?cb m s" for m and s :: "log local_hcd"
    using device_runs_inv [OF that P] by (simp_all add: device_inv_def sys_inv_def local_inv_def)
  obtain q w u where u: "bg_work ?P (?calm t) = Some (Inr (), u)" "h_inbox u = h_inbox (?calm t) @ [q]"
    "load_work q u = Some w" "\<not> w_canceled w"
    by (rule power_bg [OF inv(1) [OF a]]) (use t(2) in simp_all)
  then have inbox: "h_inbox u = [q]" using t(3) by simp
  have "device_runs ?P ?cb Between u" by (rule device_runs.background [OF a _ u(1)]) simp
  note a = calm [OF this]
  have q: "q \<noteq> 0" "\<not> is_canceled (?calm u) q"
    using u(3,4) inbox inv(2) [OF a] heap_determines(1) [of "?calm u" u q] works_ok_object [of "?calm u" "hcd_owned (?calm u)" q]
    by (auto simp: hcd_inv_def hcd_owned_def is_canceled_def elim: work_objectE)
  obtain v where v: "next_work (?calm u) = Some (Inr (q, False), v)"
    using next_work_spec [OF inv(2) [OF a] refl refl] q(2) inbox by (auto simp: alloc_fails_def)
  have "device_runs ?P ?cb (Serving q) v" using device_runs.fetch [OF a _ v] q(1) by simp
  note a = calm [OF this]
  from device_never_fails [OF a P] have c: "\<exists>r t. bg_work ?P (?calm v) = Some (r, t)"
    "h_processing (?calm v) = [q]"
    "\<exists>r t. main_work ?P q (?calm v) = Some (r, t) \<and> (r = Inr () \<or> r = Inl (Uncaught StdException))"
    by auto
  show ?thesis by (intro exI [of _ q] exI [of _ "?calm v"] conjI) (rule a c)+
qed

end
