(* ===== verification/Spec2Isabelle.thy ===== *)
theory Spec2Isabelle
  imports Port_Requests Local_Memory Lock Device_C Device_Wakeup
    Device_Loop Device_Round_Trip Device_Program
begin

text \<open>
  A model of the user-space library of the USB virtual host controller interface, and the theorems
  that make it correct.

  \<^bold>\<open>The program.\<close> The kernel module presents a USB host controller whose devices are served by a
  process. The C library (\<^verbatim>\<open>src/libusb_vhci.c\<close>, \<^verbatim>\<open>src/libusb_vhci.h\<close>) wraps the ioctls: it opens the
  device and registers a controller, fetches work (a port changed its status, a URB is to be
  processed, a URB is cancelled), fetches the data of URBs, gives URBs back and notifies the kernel of what
  happens at a port. The C++ classes build on it: \<open>urb\<close> owns the memory of a URB (\<^verbatim>\<open>urb.cpp\<close>); \<open>work\<close> and its
  three subclasses wrap what the kernel wants done (\<^verbatim>\<open>work.cpp\<close>); \<open>hcd\<close> has the queue of work that waits, the list
  of work in progress, the callbacks and the background thread (\<^verbatim>\<open>hcd.cpp\<close>); \<open>local_hcd\<close> derives from it, has
  the table of ports, and its \<open>bg_work\<close> turns the kernel's messages into work objects (\<^verbatim>\<open>local_hcd.cpp\<close>).
  Two example devices use the library: \<^verbatim>\<open>examples/virtual_device.cpp\<close> the classes, from two threads,
  \<^verbatim>\<open>examples/virtual_device2.c\<close> the C interface.

  \<^bold>\<open>Conventions.\<close> C integers are words of their width, read with \<open>sint\<close> or compared with \<open><s\<close> where they
  are signed. State is a record that is passed through: \<open>machine\<close> (what the environment has seen, \<open>errno\<close>, the heap),
  extended by the members of \<open>hcd\<close> and then of \<open>local_hcd\<close>, or by the variables of the C device. The heap maps addresses to typed blocks;
  reading, writing or freeing what is not there, and reading what was never written, is a fault: the result
  \<open>None\<close>. A C++ exception is \<open>Inl e\<close>, a failing C function returns \<open>-1\<close> and sets \<open>errno\<close>. A list
  of booleans in the state (\<open>oom\<close>) says which of the coming allocations fail; after its end all succeed, so that
  shortage of memory does not last forever. Another one (\<open>naps\<close>) says whether the thread is asked to stop
  while it sleeps.

  \<^bold>\<open>What is outside.\<close> The kernel, \<open>pthread_create\<close> and the user's callbacks are the parameters of the model (\<open>Kernel_Abi\<close>,
  record \<open>platform\<close>): functions on an environment of arbitrary type, together with the constants of the header
  \<^verbatim>\<open>linux/usb-vhci.h\<close>, which is not part of the repository. What the code relies on is stated as named
  hypotheses: \<open>abi_ok\<close> (different constants differ, flags are single bits), \<open>fetch_data_ok\<close> (the kernel writes no more than it
  was given room for, and all the packets), \<open>kernel_ok\<close> (and announces no negative lengths), \<open>files_ok\<close> (\<open>open\<close> never succeeds with
  \<open>-1\<close>, \<open>close\<close> is not interrupted forever). \<open>Sample_Platform\<close> has a concrete one for the witnesses.

  \<^bold>\<open>The theories.\<close>
  \<open>Vhci_Prelude\<close>: integer types, exceptions, bit masks, counting loops with their rules.
  \<open>Status_Codes\<close>: \<open>usb_vhci_to_errno\<close> and the other three conversions, and how far they are inverse.
  \<open>Port_Stat\<close>: both representations of a port status, their accessors as independent lenses (locale \<open>flag_accessor\<close>), and the two
  implementations of trigger detection, equal and exact.
  \<open>Machine\<close>: data structures, heap, allocation.
  \<open>Libusb_C\<close>, \<open>Urb_Memory\<close>: the C functions; that closing terminates exactly if some
  call is not interrupted, what opening, fetching and giving back do on every path.
  \<open>Port_Requests\<close>: the notifications, each sends one message that decodes to what was asked.
  \<open>Urb_Class\<close>, \<open>Urb_Lifetime\<close>: the class \<open>urb\<close>; copies are deep, blocks are owned once.
  \<open>Work_Objects\<close>: the work classes and what a work object owns (its footprint).
  \<open>Hcd\<close>, \<open>Hcd_Queue\<close>, \<open>Hcd_Edit\<close>: the class \<open>hcd\<close>, its invariant (disjoint footprints) and its queue.
  \<open>Hcd_Client\<close>: the interface to the derived class as a locale (\<open>hcd_hooks\<close>: what the two virtual functions promise), in which finishing and
  cancelling are proved once; the base class and \<open>local_hcd\<close> (\<open>Local_Hooks\<close>) interpret it.
  \<open>Hcd_Spec\<close>: an abstract pair of queues without cancelled works, which \<open>hcd\<close> refines.
  \<open>Local_Hcd\<close>: the class \<open>local_hcd\<close>. \<open>Local_Port_Stat\<close>, \<open>Local_Alloc\<close>, \<open>Local_Process_Urb\<close>: the branches of \<open>bg_work\<close> for
  each message, with every allocation that may fail and every retry. \<open>Local_Background\<close>: all of \<open>bg_work\<close> and the thread around it.
  \<open>Local_Ports\<close>: the tables and the notifications of the class. \<open>Local_Lifecycle\<close>: constructor and destructor. The elements
  of the array \<open>port_info\<close> are the list \<open>l_port_info\<close>; the block that \<^verbatim>\<open>new[]\<close> gave for them is \<open>PortTable\<close> at \<open>l_port_block\<close>, so
  that the heap shows who frees it and where it leaks.
  \<open>Local_System\<close>: programs that use a \<open>local_hcd\<close>, as a transition system of calls, the user's changes to its
  URBs and the rest of the program; no reachable state is ill-typed, and no call faults but for one reason.
  \<open>Local_Observed\<close>, \<open>Local_Ledger\<close>, \<open>Local_Account\<close>: the account of the URBs that such a program fetches and gives back: what each call
  does to it, that no URB is given back twice, and that none is lost unless the code drops a message (\<open>mislaid\<close> says when).
  \<open>Local_Memory\<close>: the account of the memory: nothing leaks while memory lasts and no message is dropped, and two leaks otherwise.
  \<open>Lock\<close>: the class \<open>lock\<close>, and why a critical section is one step: interleaved accesses of
  sections are serialised.
  \<open>Device_Requests\<close>, \<open>Device_Main\<close>, \<open>Device_Wakeup\<close>, \<open>Device_C\<close>: the request handlers of the examples, one round of each
  main loop, and the wait for work, in which no wake-up is lost. \<open>Device_Loop\<close>: the loop between two waits, which serves all that is waiting,
  step by step as an abstract device (\<open>drain\<close>, which runs over the list of the waiting works) says. \<open>Device_Round_Trip\<close> puts the two threads of the C++ device
  together: a descriptor request of the host is answered from end to end. \<open>Device_Program\<close> is that program as a whole: its
  \<open>main\<close> starts the controller, and in every interleaving of the rounds of the background thread with the
  calls of the main thread (each one step) nothing faults, as long as memory lasts.

  \<^bold>\<open>Loops.\<close> Counting loops are \<open>for_upto\<close> with a measure; the search for a port counts in eight bits, with its own
  termination proof. Closing and the loops that wait for memory may run forever in C and are
  partial functions, whose theorems show when they return: always, for the latter, since each turn uses up
  a failing allocation. \<open>bg_thread_start\<close> runs along a list of the values of its flag, which
  another thread sets; every value of the list is one round. The endless loop of \<open>main\<close> in the examples is described by
  one round of it and, for the C++ device, by \<open>busy_period\<close>, its rounds up to the next wait.

  \<^bold>\<open>Not modelled.\<close> Output to the console; the build files and the documentation, which have no program logic; the virtual destructors with empty
  bodies; thread attributes and the initialisation of mutexes, which have no effect that the code depends on. Callbacks
  change the environment only: one that calls its controller would block forever on
  the mutex that is held around it (\<open>lock_ctor\<close> has no result for the holder). \<open>std::string::assign\<close> is one allocation, also for short strings.
  In \<open>finish_work\<close> the accesses outside of the critical section, which touch only what the thread alone
  owns, are part of the step. The step of \<open>bg_work\<close> is coarser than the source: a whole round is one step of \<open>Local_System\<close>, from
  fetching the message to the last of the attempts to deliver it. When memory is short the source releases
  the mutex between these attempts and sleeps (\<^verbatim>\<open>src/local_hcd.cpp\<close>, lines 118 to 131 and 166 to 227), so that calls of other threads
  can come in between; of these only the request to stop is modelled there (\<open>naps\<close>). Where no allocation of a round fails there
  is one attempt and one critical section, and nothing is lost by this.
\<close>

end
